(* ===== verification/Prelude.thy ===== *)
theory Prelude
  imports Main "HOL-Library.Word" "HOL-Library.Monad_Syntax"
begin

section \<open>Prelude: machine types, C memory, little-endian fields, runs of operations\<close>

text \<open>
  What every component of the library shares.
  \<^item> The unsigned integers of the code at their width (\<open>u8\<close> .. \<open>u64\<close>).
  \<^item> A raw pointer argument: \<open>None\<close> is the null pointer, \<open>Some mem\<close> a pointer whose
    readable bytes are \<open>mem\<close>. An access outside \<open>mem\<close> is undefined behaviour in C++;
    \<open>read_at\<close> and \<open>write_at\<close> are \<open>None\<close> there, so that a model which returns
    \<open>Some\<close> has touched only memory it may touch.
  \<^item> \<open>memcpy\<close> of 16 and 32 bit scalars. The targets of the library (STM32, ESP32, desktop)
    are little-endian, where \<open>flatbuffers::EndianScalar\<close> is the identity, so the bytes
    copied are those of \<open>le16\<close> and \<open>le32\<close>; \<open>of_le\<close> reads them back.
  \<^item> A locale for operations that share an invariant, proved once for any run of them.
\<close>

unbundle bit_operations_syntax

named_theorems mem_simps \<open>in-range reads and writes of C memory\<close>
named_theorems le_simps \<open>little-endian scalar fields\<close>

type_synonym u8 = "8 word"
type_synonym u16 = "16 word"
type_synonym u32 = "32 word"
type_synonym u64 = "64 word"

type_synonym ptr = "u8 list option"

subsection \<open>C memory\<close>

definition read_at :: "u8 list \<Rightarrow> nat \<Rightarrow> nat \<Rightarrow> u8 list option" where
  "read_at mem off n = (if off + n \<le> length mem then Some (take n (drop off mem)) else None)"

definition write_at :: "u8 list \<Rightarrow> nat \<Rightarrow> u8 list \<Rightarrow> u8 list option" where
  "write_at mem off bs =
     (if off + length bs \<le> length mem
      then Some (take off mem @ bs @ drop (off + length bs) mem) else None)"

lemma read_at_in [mem_simps]:
  "off + n \<le> length mem \<Longrightarrow> read_at mem off n = Some (take n (drop off mem))"
  by (simp add: read_at_def)

lemma read_at_SomeD:
  "read_at mem off n = Some bs \<Longrightarrow> off + n \<le> length mem \<and> bs = take n (drop off mem)"
  by (simp add: read_at_def split: if_splits)

lemma read_at_append [mem_simps]:
  assumes "off = length pre" and "n = length bs"
  shows "read_at (pre @ bs @ post) off n = Some bs"
  using assms by (simp add: read_at_def)

lemma write_at_append [mem_simps]:
  assumes "off = length pre" and "length bs = length old"
  shows "write_at (pre @ old @ post) off bs = Some (pre @ bs @ post)"
  using assms by (simp add: write_at_def)

lemma write_at_length: "write_at mem off bs = Some mem' \<Longrightarrow> length mem' = length mem"
  by (auto simp: write_at_def split: if_splits)

text \<open>A list of at least \<open>n\<close> bytes splits after the first \<open>n\<close>.\<close>

lemma split_at_length:
  assumes "n \<le> length xs"
  obtains ys zs where "xs = ys @ zs" and "length ys = n"
  using assms by (metis append_take_drop_id length_take min.absorb2)

lemma length_2_conv: "length xs = 2 \<longleftrightarrow> (\<exists>a b. xs = [a, b])"
  by (auto simp: numeral_2_eq_2 length_Suc_conv)

lemma length_4_conv: "length xs = 4 \<longleftrightarrow> (\<exists>a b c d. xs = [a, b, c, d])"
  by (auto simp: eval_nat_numeral length_Suc_conv)

subsection \<open>Little-endian scalars\<close>

definition le16 :: "u16 \<Rightarrow> u8 list" where
  "le16 w = [ucast w, ucast (drop_bit 8 w)]"

definition le32 :: "u32 \<Rightarrow> u8 list" where
  "le32 w = [ucast w, ucast (drop_bit 8 w), ucast (drop_bit 16 w), ucast (drop_bit 24 w)]"

primrec of_le :: "u8 list \<Rightarrow> 'a::len word" where
  "of_le [] = 0"
| "of_le (b # bs) = ucast b OR push_bit 8 (of_le bs)"

lemma length_le16 [simp, le_simps]: "length (le16 w) = 2"
  by (simp add: le16_def)

lemma length_le32 [simp, le_simps]: "length (le32 w) = 4"
  by (simp add: le32_def)

lemma bit_u8_beyond [simp]: "8 \<le> n \<Longrightarrow> \<not> bit (b :: u8) n"
  using bit_imp_le_length [of b n] by auto

lemma of_le_le16 [le_simps]: "of_le (le16 w) = w"
  by (rule bit_word_eqI) (auto simp: le16_def bit_simps)

lemma of_le_le32 [le_simps]: "of_le (le32 w) = w"
proof (rule bit_word_eqI)
  fix n :: nat
  assume "n < LENGTH(32)"
  then consider "n < 8" | "8 \<le> n" "n < 16" | "16 \<le> n" "n < 24" | "24 \<le> n" "n < 32"
    by fastforce
  then show "bit (of_le (le32 w) :: u32) n \<longleftrightarrow> bit w n"
    by cases (auto simp: le32_def bit_simps)
qed

lemma le16_of_le [le_simps]: "length bs = 2 \<Longrightarrow> le16 (of_le bs) = bs"
  by (auto simp: length_2_conv le16_def bit_simps intro!: bit_word_eqI)

lemma le32_of_le [le_simps]: "length bs = 4 \<Longrightarrow> le32 (of_le bs) = bs"
  by (auto simp: length_4_conv le32_def bit_simps intro!: bit_word_eqI)

lemma le16_inject: "le16 a = le16 b \<longleftrightarrow> a = b"
  by (metis of_le_le16)

lemma le32_inject: "le32 a = le32 b \<longleftrightarrow> a = b"
  by (metis of_le_le32)

subsection \<open>Runs of operations that share an invariant\<close>

text \<open>
  The operations of a stateful component are the cases of one step function over an
  operation type. An invariant that every step keeps holds after any sequence of them.
\<close>

locale invariant_run =
  fixes step :: "'op \<Rightarrow> 's \<Rightarrow> 's" and inv :: "'s \<Rightarrow> bool"
  assumes step_inv: "inv s \<Longrightarrow> inv (step x s)"
begin

lemma run_inv: "inv s \<Longrightarrow> inv (fold step xs s)"
  by (induction xs arbitrary: s) (simp_all add: step_inv)

lemma run_prefix_inv: "inv s \<Longrightarrow> inv (fold step (take n xs) s)"
  by (rule run_inv)

end

end
