(* ===== verification/Logging.thy ===== *)
theory Logging
  imports Prelude
begin

section \<open>Logging (include/libcomm/logging.h, src/logging.cpp)\<close>

text \<open>
  The global log sink, the helper that calls it, and the four macros, which are compiled to
  nothing when the compile-time level \<open>LIBCOMM_LOG_LEVEL\<close> is too low. A sink is a function of
  the level, the tag, the format, the variadic arguments and the world. The run-time levels are
  ordered by their enumerator values.
\<close>

datatype LogLevel = Error | Warning | Info | Debug

fun LogLevel_code :: "LogLevel \<Rightarrow> nat" where
  "LogLevel_code Error = 0"
| "LogLevel_code Warning = 1"
| "LogLevel_code Info = 2"
| "LogLevel_code Debug = 3"

lemma LogLevel_code_inject: "LogLevel_code a = LogLevel_code b \<Longrightarrow> a = b"
  by (cases a; cases b) simp_all

instantiation LogLevel :: linorder
begin

definition less_eq_LogLevel :: "LogLevel \<Rightarrow> LogLevel \<Rightarrow> bool" where
  "less_eq_LogLevel a b \<longleftrightarrow> LogLevel_code a \<le> LogLevel_code b"

definition less_LogLevel :: "LogLevel \<Rightarrow> LogLevel \<Rightarrow> bool" where
  "less_LogLevel a b \<longleftrightarrow> LogLevel_code a < LogLevel_code b"

instance
  by standard (auto simp: less_eq_LogLevel_def less_LogLevel_def intro: LogLevel_code_inject)

end

type_synonym ('arg, 'w) log_sink = "LogLevel \<Rightarrow> string \<Rightarrow> string \<Rightarrow> 'arg list \<Rightarrow> 'w \<Rightarrow> 'w"

text \<open>The static \<open>globalLogger\<close>; an invalid delegate is \<open>None\<close>.\<close>

record ('arg, 'w) log_state =
  globalLogger :: "('arg, 'w) log_sink option"

definition initial_log_state :: "('arg, 'w) log_state" where
  "initial_log_state = \<lparr>globalLogger = None\<rparr>"

definition SetGlobalLogger :: "('arg, 'w) log_sink option \<Rightarrow> ('arg, 'w) log_state \<Rightarrow> ('arg, 'w) log_state" where
  "SetGlobalLogger sink s = s\<lparr>globalLogger := sink\<rparr>"

definition GetGlobalLogger :: "('arg, 'w) log_state \<Rightarrow> ('arg, 'w) log_sink option" where
  "GetGlobalLogger s = globalLogger s"

definition LogHelper ::
  "('arg, 'w) log_sink \<Rightarrow> LogLevel \<Rightarrow> string \<Rightarrow> string \<Rightarrow> 'arg list \<Rightarrow> 'w \<Rightarrow> 'w" where
  "LogHelper sink level tag format args w = sink level tag format args w"

definition LIBCOMM_LOG_LEVEL_default :: nat where "LIBCOMM_LOG_LEVEL_default = 2"
definition LOG_LEVEL_ERROR :: nat where "LOG_LEVEL_ERROR = 1"
definition LOG_LEVEL_WARN :: nat where "LOG_LEVEL_WARN = 2"
definition LOG_LEVEL_INFO :: nat where "LOG_LEVEL_INFO = 3"
definition LOG_LEVEL_DEBUG :: nat where "LOG_LEVEL_DEBUG = 4"

lemmas log_levels = LOG_LEVEL_ERROR_def LOG_LEVEL_WARN_def LOG_LEVEL_INFO_def LOG_LEVEL_DEBUG_def

text \<open>The four macros; \<open>n\<close> is the value \<open>LIBCOMM_LOG_LEVEL\<close> has at compile time.\<close>

definition LIBCOMM_LOG_ERROR ::
  "nat \<Rightarrow> ('arg, 'w) log_state \<Rightarrow> string \<Rightarrow> string \<Rightarrow> 'arg list \<Rightarrow> 'w \<Rightarrow> 'w" where
  "LIBCOMM_LOG_ERROR n s tag format args w =
     (if n \<ge> LOG_LEVEL_ERROR
      then (case GetGlobalLogger s of None \<Rightarrow> w | Some logger \<Rightarrow> LogHelper logger Error tag format args w)
      else w)"

definition LIBCOMM_LOG_WARN ::
  "nat \<Rightarrow> ('arg, 'w) log_state \<Rightarrow> string \<Rightarrow> string \<Rightarrow> 'arg list \<Rightarrow> 'w \<Rightarrow> 'w" where
  "LIBCOMM_LOG_WARN n s tag format args w =
     (if n \<ge> LOG_LEVEL_WARN
      then (case GetGlobalLogger s of None \<Rightarrow> w | Some logger \<Rightarrow> LogHelper logger Warning tag format args w)
      else w)"

definition LIBCOMM_LOG_INFO ::
  "nat \<Rightarrow> ('arg, 'w) log_state \<Rightarrow> string \<Rightarrow> string \<Rightarrow> 'arg list \<Rightarrow> 'w \<Rightarrow> 'w" where
  "LIBCOMM_LOG_INFO n s tag format args w =
     (if n \<ge> LOG_LEVEL_INFO
      then (case GetGlobalLogger s of None \<Rightarrow> w | Some logger \<Rightarrow> LogHelper logger Info tag format args w)
      else w)"

definition LIBCOMM_LOG_DEBUG ::
  "nat \<Rightarrow> ('arg, 'w) log_state \<Rightarrow> string \<Rightarrow> string \<Rightarrow> 'arg list \<Rightarrow> 'w \<Rightarrow> 'w" where
  "LIBCOMM_LOG_DEBUG n s tag format args w =
     (if n \<ge> LOG_LEVEL_DEBUG
      then (case GetGlobalLogger s of None \<Rightarrow> w | Some logger \<Rightarrow> LogHelper logger Debug tag format args w)
      else w)"

lemmas log_macros = LIBCOMM_LOG_ERROR_def LIBCOMM_LOG_WARN_def LIBCOMM_LOG_INFO_def LIBCOMM_LOG_DEBUG_def

text \<open>The macro of a run-time level.\<close>

fun log_macro ::
  "LogLevel \<Rightarrow> nat \<Rightarrow> ('arg, 'w) log_state \<Rightarrow> string \<Rightarrow> string \<Rightarrow> 'arg list \<Rightarrow> 'w \<Rightarrow> 'w" where
  "log_macro Error = LIBCOMM_LOG_ERROR"
| "log_macro Warning = LIBCOMM_LOG_WARN"
| "log_macro Info = LIBCOMM_LOG_INFO"
| "log_macro Debug = LIBCOMM_LOG_DEBUG"

subsection \<open>Properties\<close>

text \<open>
  A log statement reaches the sink set last exactly when its level is below the compile-time
  level: compiling at level \<open>n\<close> keeps the \<open>n\<close> most severe levels (with the default 2, errors and
  warnings), and a program with no sink, or with the sink cleared, logs nothing at any level.
\<close>

theorem log_macro_filters:
  "log_macro l n (SetGlobalLogger sink s) tag format args w =
     (case sink of None \<Rightarrow> w
      | Some f \<Rightarrow> if LogLevel_code l < n then f l tag format args w else w) \<and>
   log_macro l n initial_log_state tag format args w = w \<and>
   (LogLevel_code l < LIBCOMM_LOG_LEVEL_default \<longleftrightarrow> l \<le> Warning)"
  by (cases l; cases sink)
     (auto simp: log_macros log_levels SetGlobalLogger_def GetGlobalLogger_def LogHelper_def initial_log_state_def
        LIBCOMM_LOG_LEVEL_default_def less_eq_LogLevel_def)

end
