(* ===== verification/Crc32.thy ===== *)
theory Crc32
  imports Prelude
begin

section \<open>The CRC-32 of the frame transport (src/frame_transport.cpp)\<close>

text \<open>
  \<open>generateCrc32LookupTable\<close> fills 256 entries, each with eight shift steps over the
  reversed polynomial; \<open>ComputeCrc32\<close> folds the bytes through the table. Reference: the
  bit-serial shift register, one message bit at a time, and the algebra behind it. A shift
  step is linear over XOR and injective, so four bytes act on the register as one 32-bit
  word: this gives the table's correctness and the detection of every error confined to
  four consecutive bytes.
\<close>

named_theorems crc_simps \<open>linearity and shifting of the CRC register\<close>

subsection \<open>The code\<close>

definition CRC32_POLYNOMIAL_REVERSED :: u32 where
  "CRC32_POLYNOMIAL_REVERSED = 0xEDB88320"

definition crc32_bit_step :: "u32 \<Rightarrow> u32" where
  "crc32_bit_step acc =
     (if acc AND 1 \<noteq> 0 then drop_bit 1 acc XOR CRC32_POLYNOMIAL_REVERSED else drop_bit 1 acc)"

definition generateCrc32LookupTable :: "u32 list" where
  "generateCrc32LookupTable =
     map (\<lambda>byteValue. (crc32_bit_step ^^ 8) (of_nat byteValue)) [0..<256]"

definition CRC32_LOOKUP_TABLE :: "u32 list" where
  "CRC32_LOOKUP_TABLE = generateCrc32LookupTable"

definition crc32_byte_step :: "u32 \<Rightarrow> u8 \<Rightarrow> u32" where
  "crc32_byte_step acc b =
     (let tableLookupIndex = (ucast ((acc XOR ucast b) AND 0xFF) :: u8)
      in drop_bit 8 acc XOR CRC32_LOOKUP_TABLE ! unat tableLookupIndex)"

text \<open>The register after the bytes, and the CRC of a whole byte list.\<close>

definition crc32_register :: "u32 \<Rightarrow> u8 list \<Rightarrow> u32" where
  "crc32_register acc bs = foldl crc32_byte_step acc bs"

definition crc32 :: "u8 list \<Rightarrow> u32" where
  "crc32 bs = crc32_register 0xFFFFFFFF bs XOR 0xFFFFFFFF"

text \<open>\<open>ComputeCrc32(data, length)\<close> reads exactly \<open>length\<close> bytes.\<close>

definition ComputeCrc32 :: "u8 list \<Rightarrow> nat \<Rightarrow> u32 option" where
  "ComputeCrc32 data len = do { bs \<leftarrow> read_at data 0 len; Some (crc32 bs) }"

lemma ComputeCrc32_in [mem_simps]:
  "len \<le> length data \<Longrightarrow> ComputeCrc32 data len = Some (crc32 (take len data))"
  by (simp add: ComputeCrc32_def mem_simps)

subsection \<open>The reference: a bit-serial shift register\<close>

definition crc32_serial_bit :: "u32 \<Rightarrow> bool \<Rightarrow> u32" where
  "crc32_serial_bit acc b =
     (if bit acc 0 \<noteq> b then drop_bit 1 acc XOR 0xEDB88320 else drop_bit 1 acc)"

definition byte_bits :: "u8 \<Rightarrow> bool list" where
  "byte_bits b = map (bit b) [0..<8]"

definition crc32_serial :: "u8 list \<Rightarrow> u32" where
  "crc32_serial bs =
     foldl crc32_serial_bit 0xFFFFFFFF (concat (map byte_bits bs)) XOR 0xFFFFFFFF"

subsection \<open>The shift step is linear and injective\<close>

lemma and_1_neq_0_iff: "(acc :: u32) AND 1 \<noteq> 0 \<longleftrightarrow> bit acc 0"
  by (simp add: and_one_eq bit_0 odd_iff_mod_2_eq_one)

lemma xor_cancel_right: "(a :: u32) XOR c = b XOR c \<longleftrightarrow> a = b"
proof
  assume "a XOR c = b XOR c"
  then have "(a XOR c) XOR c = (b XOR c) XOR c" by simp
  then show "a = b" by (simp add: xor.assoc)
qed simp

lemma crc32_bit_step_bit:
  "crc32_bit_step acc =
     (if bit acc 0 then drop_bit 1 acc XOR CRC32_POLYNOMIAL_REVERSED else drop_bit 1 acc)"
  by (simp only: crc32_bit_step_def and_1_neq_0_iff)

lemma crc32_bit_step_xor [crc_simps]:
  "crc32_bit_step (x XOR y) = crc32_bit_step x XOR crc32_bit_step y"
  by (simp add: crc32_bit_step_bit bit_xor_iff drop_bit_xor ac_simps)

lemma crc32_bit_step_0 [crc_simps]: "crc32_bit_step 0 = 0"
  by (simp add: crc32_bit_step_bit)

lemma crc32_shift_xor [crc_simps]:
  "(crc32_bit_step ^^ n) (x XOR y) = (crc32_bit_step ^^ n) x XOR (crc32_bit_step ^^ n) y"
  by (induction n) (simp_all add: crc_simps)

lemma polynomial_bit_31: "bit CRC32_POLYNOMIAL_REVERSED 31"
  by (simp add: CRC32_POLYNOMIAL_REVERSED_def)

lemma crc32_bit_step_bit_31: "bit (crc32_bit_step x) 31 \<longleftrightarrow> bit x 0"
  using bit_imp_le_length [of x 32]
  by (auto simp: crc32_bit_step_bit bit_xor_iff bit_drop_bit_eq polynomial_bit_31)

lemma crc32_bit_step_inject: "crc32_bit_step x = crc32_bit_step y \<longleftrightarrow> x = y"
proof
  assume eq: "crc32_bit_step x = crc32_bit_step y"
  then have b0: "bit x 0 \<longleftrightarrow> bit y 0"
    by (metis crc32_bit_step_bit_31)
  with eq have d: "drop_bit 1 x = drop_bit 1 y"
    by (auto simp: crc32_bit_step_bit xor_cancel_right split: if_splits)
  show "x = y"
  proof (rule bit_word_eqI)
    fix n
    show "bit x n \<longleftrightarrow> bit y n"
    proof (cases n)
      case 0
      then show ?thesis using b0 by simp
    next
      case (Suc m)
      from d have "bit (drop_bit 1 x) m \<longleftrightarrow> bit (drop_bit 1 y) m" by simp
      with Suc show ?thesis by (simp add: bit_drop_bit_eq)
    qed
  qed
qed simp

lemma crc32_shift_inject: "(crc32_bit_step ^^ n) x = (crc32_bit_step ^^ n) y \<longleftrightarrow> x = y"
  by (induction n) (simp_all add: crc32_bit_step_inject)

text \<open>Shifting zeros out of the low end only moves the register.\<close>

lemma crc32_shift_push:
  assumes "\<And>i. 32 - n \<le> i \<Longrightarrow> \<not> bit (y :: u32) i"
  shows "(crc32_bit_step ^^ n) (push_bit n y) = y"
  using assms
proof (induction n)
  case 0
  then show ?case by simp
next
  case (Suc n)
  have high: "\<not> bit y i" if "31 - n \<le> i" for i
    using Suc.prems [of i] that by simp
  have "crc32_bit_step (push_bit (Suc n) y) = push_bit n y"
  proof -
    have "drop_bit 1 (push_bit (Suc n) y) = push_bit n y"
    proof (rule bit_word_eqI)
      fix i
      assume "i < LENGTH(32)"
      moreover have "\<not> bit y (31 - n)" by (rule high) simp
      ultimately show "bit (drop_bit 1 (push_bit (Suc n) y)) i \<longleftrightarrow> bit (push_bit n y) i"
        by (cases "i = 31")
           (simp_all add: bit_drop_bit_eq bit_push_bit_iff del: push_bit_Suc)
    qed
    moreover have "\<not> bit (push_bit (Suc n) y) 0"
      by (simp add: bit_push_bit_iff del: push_bit_Suc)
    ultimately show ?thesis by (simp only: crc32_bit_step_bit if_False)
  qed
  moreover have "(crc32_bit_step ^^ n) (push_bit n y) = y"
    by (rule Suc.IH) (rule high, simp)
  ultimately show ?case by (simp add: funpow_swap1)
qed

subsection \<open>A byte step is eight shifts of the register with the byte mixed in\<close>

lemma crc32_shift_split [crc_simps]:
  assumes "n \<le> 32"
  shows "(crc32_bit_step ^^ n) x = drop_bit n x XOR (crc32_bit_step ^^ n) (take_bit n x)"
proof -
  have "x = push_bit n (drop_bit n x) XOR take_bit n x"
    by (rule bit_word_eqI) (auto simp: bit_simps)
  then have "(crc32_bit_step ^^ n) x
      = (crc32_bit_step ^^ n) (push_bit n (drop_bit n x)) XOR (crc32_bit_step ^^ n) (take_bit n x)"
    by (metis crc32_shift_xor)
  moreover have "(crc32_bit_step ^^ n) (push_bit n (drop_bit n x)) = drop_bit n x"
    using assms by (intro crc32_shift_push) (auto simp: bit_drop_bit_eq dest: bit_imp_le_length)
  ultimately show ?thesis by simp
qed

lemma length_lookup_table: "length CRC32_LOOKUP_TABLE = 256"
  by (simp add: CRC32_LOOKUP_TABLE_def generateCrc32LookupTable_def)

lemma lookup_table_nth:
  "CRC32_LOOKUP_TABLE ! unat (b :: u8) = (crc32_bit_step ^^ 8) (ucast b)"
proof -
  have "unat b < 256" using unsigned_less [of b] by simp
  then show ?thesis
    by (simp add: CRC32_LOOKUP_TABLE_def generateCrc32LookupTable_def del: funpow.simps)
qed

lemma crc32_byte_step_shift: "crc32_byte_step acc b = (crc32_bit_step ^^ 8) (acc XOR ucast b)"
proof -
  let ?x = "acc XOR ucast b"
  have "?x AND 0xFF = take_bit 8 ?x"
    by (simp add: take_bit_eq_mask mask_eq_exp_minus_1)
  then have "ucast (ucast (?x AND 0xFF) :: u8) = take_bit 8 ?x"
    by (simp only:) (rule bit_word_eqI, auto simp: bit_simps)
  moreover have "drop_bit 8 ?x = drop_bit 8 acc"
    by (rule bit_word_eqI) (auto simp: bit_simps)
  ultimately show ?thesis
    by (simp add: crc32_byte_step_def lookup_table_nth crc32_shift_split [of 8 ?x] del: funpow.simps)
qed

lemma crc32_register_simps [simp]:
  "crc32_register acc [] = acc"
  "crc32_register acc (b # bs) = crc32_register (crc32_byte_step acc b) bs"
  by (simp_all add: crc32_register_def)

lemma crc32_register_append [crc_simps]:
  "crc32_register acc (xs @ ys) = crc32_register (crc32_register acc xs) ys"
  by (simp add: crc32_register_def)

lemma crc32_byte_step_inject: "crc32_byte_step x b = crc32_byte_step y b \<longleftrightarrow> x = y"
  by (simp only: crc32_byte_step_shift crc32_shift_inject xor_cancel_right)

lemma crc32_register_inject: "crc32_register x bs = crc32_register y bs \<longleftrightarrow> x = y"
  by (induction bs arbitrary: x y) (simp_all add: crc32_byte_step_inject)

text \<open>Mixing a byte into the register later is mixing it in higher up now.\<close>

lemma crc32_shift_mix:
  assumes "n \<le> 24"
  shows "(crc32_bit_step ^^ n) x XOR ucast (b :: u8)
       = (crc32_bit_step ^^ n) (x XOR push_bit n (ucast b))"
proof -
  have "(crc32_bit_step ^^ n) (push_bit n (ucast b)) = (ucast b :: u32)"
    using assms by (intro crc32_shift_push) (auto simp: bit_simps)
  then show ?thesis by (simp add: crc32_shift_xor)
qed

lemma funpow_funpow: "(f ^^ m) ((f ^^ n) x) = (f ^^ (m + n)) x"
  by (simp add: funpow_add)

lemma crc32_register_word:
  "crc32_register acc [a, b, c, d] = (crc32_bit_step ^^ 32) (acc XOR of_le [a, b, c, d])"
proof -
  have w: "of_le [a, b, c, d] = (ucast a XOR push_bit 8 (ucast b) XOR push_bit 16 (ucast c)
      XOR push_bit 24 (ucast d) :: u32)"
    by (rule bit_word_eqI) (auto simp: bit_simps)
  show ?thesis
    by (simp add: crc32_byte_step_shift crc32_shift_mix funpow_funpow w xor.assoc
          del: funpow.simps of_le.simps)
qed

subsection \<open>Error detection\<close>

lemma crc32_register_word_inject:
  assumes "length xs = 4" and "length ys = 4"
  shows "crc32_register acc xs = crc32_register acc ys \<longleftrightarrow> xs = ys"
proof -
  have reg: "crc32_register acc zs = (crc32_bit_step ^^ 32) (acc XOR of_le zs)"
    if "length zs = 4" for zs
    using that by (auto simp: length_4_conv crc32_register_word simp del: of_le.simps crc32_register_simps)
  have "crc32_register acc xs = crc32_register acc ys \<longleftrightarrow> acc XOR of_le xs = acc XOR of_le ys"
    by (simp only: reg assms crc32_shift_inject)
  also have "\<dots> \<longleftrightarrow> (of_le xs :: u32) = of_le ys"
    by (metis xor_cancel_right xor.commute)
  also have "\<dots> \<longleftrightarrow> xs = ys"
    by (metis assms le32_of_le)
  finally show ?thesis .
qed

lemma crc32_register_short_inject:
  assumes "length xs = length ys" and "length ys \<le> 4"
  shows "crc32_register acc xs = crc32_register acc ys \<longleftrightarrow> xs = ys"
proof
  assume eq: "crc32_register acc xs = crc32_register acc ys"
  let ?z = "replicate (4 - length ys) (0 :: u8)"
  from eq have "crc32_register acc (xs @ ?z) = crc32_register acc (ys @ ?z)"
    by (simp only: crc32_register_append)
  then have "xs @ ?z = ys @ ?z"
    using assms by (subst (asm) crc32_register_word_inject) simp_all
  then show "xs = ys" by simp
qed simp

lemma crc32_register_burst:
  assumes "length xs = length ys" and "length ys \<le> 4"
  shows "crc32_register acc (pre @ xs @ post) = crc32_register acc (pre @ ys @ post) \<longleftrightarrow> xs = ys"
  by (simp add: crc_simps crc32_register_inject crc32_register_short_inject [OF assms])

text \<open>A byte list that ends in its own CRC leaves the same register, whatever the bytes.\<close>

definition CRC32_RESIDUE :: u32 where
  "CRC32_RESIDUE = (crc32_bit_step ^^ 32) 0xFFFFFFFF"

lemma xor_left_cancel_not: "(a :: u32) XOR (a XOR b) = b"
  by (simp add: xor.assoc [symmetric])

lemma crc32_residue:
  assumes "length c = 4"
  shows "crc32_register 0xFFFFFFFF (xs @ c) = CRC32_RESIDUE \<longleftrightarrow> of_le c = crc32 xs"
proof -
  let ?r = "crc32_register 0xFFFFFFFF xs"
  obtain p q r s where c: "c = [p, q, r, s]" using assms by (auto simp: length_4_conv)
  have "crc32_register ?r c = CRC32_RESIDUE \<longleftrightarrow> ?r XOR of_le c = 0xFFFFFFFF"
    unfolding c CRC32_RESIDUE_def by (simp only: crc32_register_word crc32_shift_inject)
  also have "\<dots> \<longleftrightarrow> of_le c = ?r XOR 0xFFFFFFFF"
    by (metis xor_left_cancel_not)
  finally show ?thesis by (simp add: crc_simps crc32_def)
qed

subsection \<open>The table-driven code computes the bit-serial CRC\<close>

lemma crc32_serial_bit_step:
  "crc32_serial_bit acc b = crc32_bit_step (acc XOR of_bool b)"
  by (auto simp: crc32_serial_bit_def crc32_bit_step_bit bit_xor_iff drop_bit_xor
      CRC32_POLYNOMIAL_REVERSED_def)

lemma foldl_serial_bits:
  "n \<le> 8 \<Longrightarrow> foldl crc32_serial_bit acc (map (bit (b :: u8)) [0..<n])
     = (crc32_bit_step ^^ n) (acc XOR take_bit n (ucast b))"
proof (induction n)
  case 0
  then show ?case by simp
next
  case (Suc n)
  have push: "(crc32_bit_step ^^ n) (push_bit n (of_bool (bit b n))) = (of_bool (bit b n) :: u32)"
    using Suc.prems by (intro crc32_shift_push) (auto simp: bit_simps)
  have bits: "take_bit (Suc n) (ucast b) = take_bit n (ucast b) XOR push_bit n (of_bool (bit b n) :: u32)"
    using Suc.prems by (intro bit_word_eqI) (auto simp: bit_simps less_Suc_eq)
  have "foldl crc32_serial_bit acc (map (bit b) [0..<Suc n])
      = crc32_serial_bit ((crc32_bit_step ^^ n) (acc XOR take_bit n (ucast b))) (bit b n)"
    using Suc by simp
  also have "\<dots> = crc32_bit_step ((crc32_bit_step ^^ n) (acc XOR take_bit n (ucast b)) XOR of_bool (bit b n))"
    by (rule crc32_serial_bit_step)
  also have "\<dots> = (crc32_bit_step ^^ Suc n) (acc XOR take_bit (Suc n) (ucast b))"
    by (simp add: bits crc32_shift_xor push xor.assoc [symmetric])
  finally show ?case .
qed

lemma crc32_byte_step_serial:
  "foldl crc32_serial_bit acc (byte_bits b) = crc32_byte_step acc b"
proof -
  have "take_bit 8 (ucast b :: u32) = ucast b"
    by (rule bit_word_eqI) (simp add: bit_simps, use bit_u8_beyond leI in blast)
  then show ?thesis
    by (simp add: byte_bits_def foldl_serial_bits crc32_byte_step_shift del: funpow.simps upt.simps)
qed

lemma crc32_register_serial:
  "foldl crc32_serial_bit acc (concat (map byte_bits bs)) = crc32_register acc bs"
  by (induction bs arbitrary: acc) (simp_all add: crc32_byte_step_serial)

text \<open>
  C33. \<open>ComputeCrc32\<close> over its 256-entry lookup table computes the CRC-32 defined by the
  bit-serial shift register over the same polynomial, for every buffer and every length that
  fits in it (and touches no byte outside it).
\<close>

theorem ComputeCrc32_is_serial:
  assumes "len \<le> length data"
  shows "ComputeCrc32 data len = Some (crc32_serial (take len data))"
  using assms by (simp add: mem_simps crc32_def crc32_serial_def crc32_register_serial)

theorem ComputeCrc32_is_serial_witness:
  "ComputeCrc32 [0x31, 0x32, 0x33] 2 = Some (crc32_serial (take 2 [0x31, 0x32, 0x33]))"
  by (rule ComputeCrc32_is_serial) simp


text \<open>The register evaluated without the table, for concrete bytes.\<close>

lemma funpow_8: "(f ^^ 8) x = f (f (f (f (f (f (f (f x)))))))"
  by (simp add: numeral_nat)

lemmas crc32_eval =
  crc32_def crc32_byte_step_shift funpow_8 crc32_bit_step_def CRC32_POLYNOMIAL_REVERSED_def

text \<open>
  The published check value of CRC-32 (ISO-HDLC): the nine bytes \<open>"123456789"\<close>
  give 0xCBF43926.
\<close>

theorem ComputeCrc32_check_value:
  "ComputeCrc32 [0x31, 0x32, 0x33, 0x34, 0x35, 0x36, 0x37, 0x38, 0x39] 9 = Some 0xCBF43926"
  by (simp add: mem_simps crc32_eval)

end
