(* ===== verification/Framing.thy ===== *)
theory Framing
  imports Prelude
begin

section \<open>The interface between a frame format and a stream of frames\<close>

text \<open>
  What a consumer of a byte stream needs from a frame format: a frame's length can be read
  from its first \<open>hdr\<close> bytes whatever follows, and a whole frame is recognised and gives
  its payload back. The stream processor is the client of this contract, the frame transport
  provides it. From the contract alone: a prefix of a stream of frames is a sequence of whole
  frames followed by a part of the next one, and that part is seen to be incomplete.
\<close>

locale framing =
  fixes enc :: "'s \<Rightarrow> u8 list \<Rightarrow> u8 list"
    and total :: "u8 list \<Rightarrow> nat"
    and hdr :: nat
    and limit :: nat
    and valid :: "u8 list \<Rightarrow> bool"
    and payload :: "u8 list \<Rightarrow> u8 list"
  assumes hdr_pos: "0 < hdr"
    and hdr_enc: "hdr \<le> length (enc s p)"
    and total_append: "hdr \<le> length xs \<Longrightarrow> total (xs @ ys) = total xs"
    and total_enc: "length p \<le> limit \<Longrightarrow> total (enc s p) = length (enc s p)"
    and valid_enc: "length p \<le> limit \<Longrightarrow> valid (enc s p)"
    and payload_enc: "length p \<le> limit \<Longrightarrow> payload (enc s p) = p"
begin

definition stream :: "('s \<times> u8 list) list \<Rightarrow> u8 list" where
  "stream fs = concat (map (\<lambda>(s, p). enc s p) fs)"

definition within :: "('s \<times> u8 list) list \<Rightarrow> bool" where
  "within fs \<longleftrightarrow> (\<forall>(s, p) \<in> set fs. length p \<le> limit)"

text \<open>A part of the next frame of \<open>fs\<close>, not all of it.\<close>

definition part_of :: "u8 list \<Rightarrow> ('s \<times> u8 list) list \<Rightarrow> bool" where
  "part_of xs fs \<longleftrightarrow>
     (case fs of [] \<Rightarrow> xs = [] | f # _ \<Rightarrow> (\<exists>rest. rest \<noteq> [] \<and> xs @ rest = enc (fst f) (snd f)))"

lemma stream_simps [simp]:
  "stream [] = []"
  "stream ((s, p) # fs) = enc s p @ stream fs"
  by (simp_all add: stream_def)

lemma stream_append: "stream (fs @ gs) = stream fs @ stream gs"
  by (simp add: stream_def)

lemma within_simps [simp]:
  "within []"
  "within ((s, p) # fs) \<longleftrightarrow> length p \<le> limit \<and> within fs"
  "within (fs @ gs) \<longleftrightarrow> within fs \<and> within gs"
  by (auto simp: within_def)

lemma enc_nonempty [simp]: "enc s p \<noteq> []"
  using hdr_enc [of s p] hdr_pos by auto

text \<open>Every prefix of a stream splits into whole frames and a part of the next.\<close>

lemma split_stream:
  assumes "xs @ ys = stream fs"
  obtains gs hs part where "fs = gs @ hs" and "xs = stream gs @ part"
    and "part @ ys = stream hs" and "part_of part hs"
  using assms
proof (induction fs arbitrary: xs thesis)
  case Nil
  then show ?case by (auto simp: part_of_def)
next
  case (Cons f fs)
  obtain s p where f: "f = (s, p)" by force
  with Cons.prems(2) have eq: "xs @ ys = enc s p @ stream fs" by simp
  show ?case
  proof (cases "length xs < length (enc s p)")
    case True
    then obtain rest where r: "xs @ rest = enc s p" and "ys = rest @ stream fs"
      using eq by (auto simp: append_eq_append_conv2)
    moreover from True r have "rest \<noteq> []" by auto
    ultimately show ?thesis
      using Cons.prems(1) [of "[]" "f # fs" xs] f by (force simp: part_of_def)
  next
    case False
    from eq obtain us where "xs = enc s p @ us \<and> us @ ys = stream fs \<or>
        xs @ us = enc s p \<and> ys = us @ stream fs"
      by (auto simp: append_eq_append_conv2)
    moreover have "us = []" if "xs @ us = enc s p"
      using False that by (metis length_append length_0_conv linorder_not_less le_add1 less_add_same_cancel1 neq0_conv)
    ultimately obtain us where xs: "xs = enc s p @ us" and us: "us @ ys = stream fs"
      by fastforce
    obtain gs hs part where "fs = gs @ hs" "us = stream gs @ part"
      "part @ ys = stream hs" "part_of part hs"
      using Cons.IH [OF _ us] by blast
    then show ?thesis
      using Cons.prems(1) [of "f # gs" hs part] xs f by simp
  qed
qed

text \<open>A part is recognised as incomplete: too short for its header, or for its own length.\<close>

lemma part_total:
  assumes "part_of part fs" and "within fs" and "hdr \<le> length part"
  obtains s p where "length p \<le> limit" and "total part = length (enc s p)" and "length part < length (enc s p)"
proof (cases fs)
  case Nil
  with assms hdr_pos show ?thesis by (simp add: part_of_def)
next
  case (Cons f gs)
  obtain s p where f: "f = (s, p)" by force
  with assms Cons obtain rest where r: "rest \<noteq> []" "part @ rest = enc s p" and p: "length p \<le> limit"
    by (auto simp: part_of_def)
  have "total part = length (enc s p)"
    using total_append [OF assms(3), of rest] total_enc [OF p, of s] r by simp
  moreover have "length part < length (part @ rest)" using r(1) by simp
  ultimately show ?thesis using that [OF p] r(2) by simp
qed

lemma part_incomplete:
  assumes "part_of part fs" and "within fs"
  shows "length part < hdr \<or> length part < total part"
  using part_total [OF assms] by (metis not_less)

lemma part_of_nil [simp]: "part_of [] fs"
  by (cases fs) (auto simp: part_of_def)

lemma part_of_end: "part_of part [] \<longleftrightarrow> part = []"
  by (simp add: part_of_def)

lemma length_part:
  assumes "part_of part fs" and "\<forall>(s, p) \<in> set fs. length (enc s p) \<le> m" and "0 < m"
  shows "length part < m"
proof (cases fs)
  case Nil
  with assms show ?thesis by (simp add: part_of_def)
next
  case (Cons f gs)
  with assms(1) obtain rest where r: "rest \<noteq> []" "part @ rest = enc (fst f) (snd f)"
    by (auto simp: part_of_def)
  have "length part < length (part @ rest)"
    using r(1) by simp
  with r(2) assms(2) Cons show ?thesis by (auto simp: split_beta)
qed

end

end
