(* ===== verification/Frame_Transport.thy ===== *)
theory Frame_Transport
  imports Crc32 Framing
begin

section \<open>The frame transport (src/frame_transport.cpp)\<close>

text \<open>
  \<open>FrameTransport\<close> wraps a payload in a frame: version, type, 16-bit sequence number,
  32-bit payload size, payload, CRC-32. \<open>Send\<close> allocates a sequence number and transmits
  one frame through the write callback from one of two static buffers; \<open>BuildFrame\<close>
  writes a frame into a caller's buffer; \<open>HandleIncoming\<close> checks a received frame and
  hands its payload to a handler.

  Callbacks act on a world of type \<open>'w\<close>. A result \<open>None\<close> is undefined behaviour (an
  access outside a buffer). \<open>size_t\<close> is a parameter \<open>szw\<close>, its width in bits: the
  library runs on 32-bit microcontrollers and on 64-bit hosts, and the sum of header, payload
  and CRC sizes wraps at the width.
\<close>

named_theorems frame_simps \<open>the layout of a frame\<close>

subsection \<open>Constants and state\<close>

definition kHeaderSize :: nat where "kHeaderSize = 8"
definition kCrcSize :: nat where "kCrcSize = 4"
definition kMaxFrameSize :: nat where "kMaxFrameSize = 4096"
definition kProtocolVersion :: u8 where "kProtocolVersion = 1"
definition FrameType_Data :: u8 where "FrameType_Data = 0"

lemmas size_consts = kHeaderSize_def kCrcSize_def kMaxFrameSize_def
lemmas frame_consts = size_consts kProtocolVersion_def FrameType_Data_def

type_synonym 'w write_callback = "u8 list \<Rightarrow> 'w \<Rightarrow> bool \<times> 'w"

text \<open>A handler gets a pointer (the bytes readable from it) and a size.\<close>

type_synonym 'w data_handler = "u8 list \<Rightarrow> nat \<Rightarrow> 'w \<Rightarrow> (bool \<times> 'w) option"

record 'w frame_transport =
  ft_write :: "'w write_callback option"
  ft_next_sequence :: u16

text \<open>The function-static state of \<open>TransmitFrame\<close>, shared by all transports.\<close>

record transmit_state =
  transmitBuffers :: "u8 list list"
  activeBufferIndex :: nat

definition MAXIMUM_TOTAL_BUFFER_SIZE_BYTES :: nat where
  "MAXIMUM_TOTAL_BUFFER_SIZE_BYTES = kHeaderSize + kMaxFrameSize + kCrcSize"

definition PING_PONG_BUFFER_COUNT :: nat where
  "PING_PONG_BUFFER_COUNT = 2"

definition initial_transmit_state :: transmit_state where
  "initial_transmit_state =
     \<lparr>transmitBuffers = replicate PING_PONG_BUFFER_COUNT (replicate MAXIMUM_TOTAL_BUFFER_SIZE_BYTES 0),
      activeBufferIndex = 0\<rparr>"

definition FrameTransport :: "'w write_callback option \<Rightarrow> 'w frame_transport" where
  "FrameTransport write = \<lparr>ft_write = write, ft_next_sequence = 1\<rparr>"

subsection \<open>Operations\<close>

text \<open>\<open>memcpy\<close> of the payload bytes, guarded as the code guards it.\<close>

definition copy_payload :: "u8 list \<Rightarrow> ptr \<Rightarrow> nat \<Rightarrow> u8 list option" where
  "copy_payload buf payload payloadSize =
     (case payload of
        None \<Rightarrow> Some buf
      | Some mem \<Rightarrow>
          if payloadSize > 0 then do { bs \<leftarrow> read_at mem 0 payloadSize; write_at buf kHeaderSize bs }
          else Some buf)"

definition NextSequence :: "'w frame_transport \<Rightarrow> u16 \<times> 'w frame_transport" where
  "NextSequence ft =
     (let allocated = ft_next_sequence ft;
          n = ft_next_sequence ft + 1;
          n' = (if n = 0 then n + 1 else n)
      in (allocated, ft\<lparr>ft_next_sequence := n'\<rparr>))"

definition TransmitFrame ::
  "'w frame_transport \<Rightarrow> u8 \<Rightarrow> u16 \<Rightarrow> ptr \<Rightarrow> nat \<Rightarrow> transmit_state \<Rightarrow> 'w
     \<Rightarrow> (bool \<times> transmit_state \<times> 'w) option" where
  "TransmitFrame ft ftype seq payload payloadSize tx w =
     (case ft_write ft of
        None \<Rightarrow> Some (False, tx, w)
      | Some write \<Rightarrow>
          if payloadSize > kMaxFrameSize then Some (False, tx, w)
          else
            let total = kHeaderSize + payloadSize + kCrcSize;
                i = activeBufferIndex tx;
                next_i = (i + 1) mod PING_PONG_BUFFER_COUNT
            in do {
              b \<leftarrow> (if i < length (transmitBuffers tx) then Some (transmitBuffers tx ! i) else None);
              b \<leftarrow> write_at b 0 [kProtocolVersion];
              b \<leftarrow> write_at b 1 [ftype];
              b \<leftarrow> write_at b 2 (le16 seq);
              b \<leftarrow> write_at b 4 (le32 (of_nat payloadSize));
              b \<leftarrow> copy_payload b payload payloadSize;
              crc \<leftarrow> ComputeCrc32 b (total - kCrcSize);
              b \<leftarrow> write_at b (total - kCrcSize) (le32 crc);
              out \<leftarrow> read_at b 0 total;
              let tx' = \<lparr>transmitBuffers = (transmitBuffers tx)[i := b], activeBufferIndex = next_i\<rparr>;
                  (ok, w') = write out w
              in Some (ok, tx', w')
            })"

definition BuildFrame :: "u16 \<Rightarrow> ptr \<Rightarrow> nat \<Rightarrow> ptr \<Rightarrow> nat \<Rightarrow> (nat \<times> ptr) option" where
  "BuildFrame seq payload payloadSize outputBuffer capacity =
     (if payloadSize > kMaxFrameSize then Some (0, outputBuffer)
      else
        let total = kHeaderSize + payloadSize + kCrcSize in
        if total > capacity then Some (0, outputBuffer)
        else case outputBuffer of
          None \<Rightarrow> Some (0, None)
        | Some b \<Rightarrow> do {
            b \<leftarrow> write_at b 0 [kProtocolVersion];
            b \<leftarrow> write_at b 1 [FrameType_Data];
            b \<leftarrow> write_at b 2 (le16 seq);
            b \<leftarrow> write_at b 4 (le32 (of_nat payloadSize));
            b \<leftarrow> copy_payload b payload payloadSize;
            crc \<leftarrow> ComputeCrc32 b (total - kCrcSize);
            b \<leftarrow> write_at b (total - kCrcSize) (le32 crc);
            Some (total, Some b)
          })"

definition Send ::
  "'w frame_transport \<Rightarrow> ptr \<Rightarrow> nat \<Rightarrow> transmit_state \<Rightarrow> 'w
     \<Rightarrow> (bool \<times> 'w frame_transport \<times> transmit_state \<times> 'w) option" where
  "Send ft payload payloadSize tx w =
     (if payload = None \<and> payloadSize > 0 then Some (False, ft, tx, w)
      else
        let (seq, ft') = NextSequence ft in do {
          (ok, tx', w') \<leftarrow> TransmitFrame ft' FrameType_Data seq payload payloadSize tx w;
          Some (ok, ft', tx', w')
        })"

text \<open>\<open>kHeaderSize + payload size + kCrcSize\<close> in \<open>size_t\<close> arithmetic.\<close>

definition frame_total :: "nat \<Rightarrow> u32 \<Rightarrow> nat" where
  "frame_total szw payload_size = (kHeaderSize + unat payload_size + kCrcSize) mod 2 ^ szw"

definition HandleIncoming ::
  "nat \<Rightarrow> ptr \<Rightarrow> nat \<Rightarrow> 'w data_handler option \<Rightarrow> 'w \<Rightarrow> (bool \<times> 'w) option" where
  "HandleIncoming szw receivedData receivedSize dataHandler w =
     (case receivedData of
        None \<Rightarrow> Some (False, w)
      | Some mem \<Rightarrow>
          if receivedSize < kHeaderSize + kCrcSize then Some (False, w)
          else do {
            version \<leftarrow> read_at mem 0 1;
            ftype \<leftarrow> read_at mem 1 1;
            seq \<leftarrow> read_at mem 2 2;
            payloadSize \<leftarrow> map_option of_le (read_at mem 4 4);
            let expected = frame_total szw payloadSize in
            if \<not> (version = [kProtocolVersion] \<and> receivedSize = expected) then Some (False, w)
            else do {
              receivedCrc \<leftarrow> map_option of_le (read_at mem (expected - kCrcSize) 4);
              computedCrc \<leftarrow> ComputeCrc32 mem (expected - kCrcSize);
              if receivedCrc \<noteq> computedCrc then Some (False, w)
              else if ftype \<noteq> [FrameType_Data] then Some (False, w)
              else case dataHandler of
                None \<Rightarrow> Some (False, w)
              | Some h \<Rightarrow> h (drop kHeaderSize mem) (unat payloadSize) w
            }
          })"

text \<open>A handler on more state than another one, doing the same with its part.\<close>

lemma map_option_push:
  "map_option f (Option.bind m g) = Option.bind m (\<lambda>x. map_option f (g x))"
  "map_option f (if b then x else y) = (if b then map_option f x else map_option f y)"
  "map_option f (case r of None \<Rightarrow> u | Some a \<Rightarrow> v a) = (case r of None \<Rightarrow> map_option f u | Some a \<Rightarrow> map_option f (v a))"
  by (simp_all split: bind_split option.split)

lemma HandleIncoming_map:
  assumes "\<And>p k. h' p k (f w) = map_option (\<lambda>(ok, w'). (ok, f w')) (h p k w)"
  shows "HandleIncoming szw data n (Some h') (f w) =
     map_option (\<lambda>(ok, w'). (ok, f w')) (HandleIncoming szw data n (Some h) w)"
  unfolding HandleIncoming_def Let_def map_option_push option.map prod.case option.case assms ..

subsection \<open>The layout of a frame\<close>

definition frame_header :: "u8 \<Rightarrow> u16 \<Rightarrow> nat \<Rightarrow> u8 list" where
  "frame_header ftype seq n = [kProtocolVersion, ftype] @ le16 seq @ le32 (of_nat n)"

definition frame_bytes :: "u8 \<Rightarrow> u16 \<Rightarrow> u8 list \<Rightarrow> u8 list" where
  "frame_bytes ftype seq payload =
     (let body = frame_header ftype seq (length payload) @ payload in body @ le32 (crc32 body))"

abbreviation data_frame :: "u16 \<Rightarrow> u8 list \<Rightarrow> u8 list" where
  "data_frame \<equiv> frame_bytes FrameType_Data"

text \<open>The bytes a (pointer, size) payload argument denotes, and when it is readable.\<close>

definition payload_bytes :: "ptr \<Rightarrow> nat \<Rightarrow> u8 list" where
  "payload_bytes payload n = (case payload of None \<Rightarrow> [] | Some mem \<Rightarrow> take n mem)"

definition payload_ok :: "ptr \<Rightarrow> nat \<Rightarrow> bool" where
  "payload_ok payload n = (case payload of None \<Rightarrow> n = 0 | Some mem \<Rightarrow> n \<le> length mem)"

lemma length_payload_bytes [simp]: "payload_ok payload n \<Longrightarrow> length (payload_bytes payload n) = n"
  by (auto simp: payload_ok_def payload_bytes_def split: option.splits)

lemma length_frame_header [simp, frame_simps]: "length (frame_header t seq n) = 8"
  by (simp add: frame_header_def)

lemma length_frame_bytes [simp, frame_simps]: "length (frame_bytes t seq p) = 12 + length p"
  by (simp add: frame_bytes_def Let_def)

lemma copy_payload_null [mem_simps]: "copy_payload buf None n = Some buf"
  by (simp add: copy_payload_def)

lemma copy_payload_in [mem_simps]:
  assumes "length hdr = 8" and "length old = n" and "payload_ok payload n"
  shows "copy_payload (hdr @ old @ post) payload n = Some (hdr @ payload_bytes payload n @ post)"
  using assms
  by (auto simp: copy_payload_def payload_ok_def payload_bytes_def kHeaderSize_def mem_simps
      split: option.splits)

text \<open>
  The writes of a frame into a buffer, as \<open>TransmitFrame\<close> and \<open>BuildFrame\<close> both do
  them: whatever they continue with gets the frame followed by the untouched rest.
\<close>

lemma header_writes [mem_simps]:
  assumes "length old = 8"
  shows "do { b \<leftarrow> write_at (old @ post) 0 [kProtocolVersion]; b \<leftarrow> write_at b 1 [t];
              b \<leftarrow> write_at b 2 (le16 seq); b \<leftarrow> write_at b 4 (le32 (of_nat n)); f b }
       = f (frame_header t seq n @ post)"
proof -
  obtain a b c d where old: "old = a @ b @ c @ d"
    and len: "length a = 1" "length b = 1" "length c = 2" "length d = 4"
  proof
    show "old = take 1 old @ take 1 (drop 1 old) @ take 2 (drop 2 old) @ drop 4 old"
      by (metis append_take_drop_id drop_drop numeral_Bit0 one_add_one)
  qed (simp_all add: assms)
  have 1: "write_at (a @ (b @ c @ d @ post)) 0 [kProtocolVersion]
      = Some ([kProtocolVersion] @ b @ c @ d @ post)"
    using write_at_append [of 0 "[]" "[kProtocolVersion]" a] len by simp
  have 2: "write_at ([kProtocolVersion] @ b @ (c @ d @ post)) 1 [t]
      = Some ([kProtocolVersion] @ [t] @ c @ d @ post)"
    by (rule write_at_append) (simp_all add: len)
  have 3: "write_at ([kProtocolVersion, t] @ c @ (d @ post)) 2 (le16 seq)
      = Some ([kProtocolVersion, t] @ le16 seq @ d @ post)"
    by (rule write_at_append) (simp_all add: len)
  have 4: "write_at (([kProtocolVersion, t] @ le16 seq) @ d @ post) 4 (le32 (of_nat n))
      = Some (([kProtocolVersion, t] @ le16 seq) @ le32 (of_nat n) @ post)"
    by (rule write_at_append) (simp_all add: len)
  show ?thesis
    using 1 2 3 4 by (simp add: old frame_header_def)
qed

lemma frame_writes:
  assumes "length old = 12 + n" and "length p = n"
    and cp: "\<And>mid. length mid = n \<Longrightarrow> mid = take n (drop 8 old) \<Longrightarrow>
           copy_payload (frame_header t seq n @ mid @ drop (8 + n) old @ post) payload n
         = Some (frame_header t seq n @ p @ drop (8 + n) old @ post)"
  shows "do { b \<leftarrow> write_at (old @ post) 0 [kProtocolVersion]; b \<leftarrow> write_at b 1 [t];
              b \<leftarrow> write_at b 2 (le16 seq); b \<leftarrow> write_at b 4 (le32 (of_nat n));
              b \<leftarrow> copy_payload b payload n;
              crc \<leftarrow> ComputeCrc32 b (8 + n);
              b \<leftarrow> write_at b (8 + n) (le32 crc); f b }
       = f (frame_bytes t seq p @ post)"
proof -
  let ?hdr = "frame_header t seq n" and ?mid = "take n (drop 8 old)" and ?tail = "drop (8 + n) old"
  have old: "old = take 8 old @ ?mid @ ?tail"
    by (metis add.commute append_take_drop_id drop_drop)
  have tail: "length ?tail = 4" using assms by simp
  have copied: "copy_payload (?hdr @ ?mid @ ?tail @ post) payload n = Some (?hdr @ p @ ?tail @ post)"
    by (rule cp) (use assms in simp_all)
  have crc: "ComputeCrc32 (?hdr @ p @ ?tail @ post) (8 + n) = Some (crc32 (?hdr @ p))"
    using assms by (simp add: mem_simps)
  have crc_field: "write_at (?hdr @ p @ ?tail @ post) (8 + n) (le32 c) = Some ((?hdr @ p) @ le32 c @ post)" for c
    using write_at_append [of "8 + n" "?hdr @ p" "le32 c" ?tail post] assms tail by simp
  have "do { b \<leftarrow> write_at (take 8 old @ (?mid @ ?tail @ post)) 0 [kProtocolVersion]; b \<leftarrow> write_at b 1 [t];
              b \<leftarrow> write_at b 2 (le16 seq); b \<leftarrow> write_at b 4 (le32 (of_nat n)); g b }
       = g (?hdr @ ?mid @ ?tail @ post)" for g :: "u8 list \<Rightarrow> 'a option"
    by (rule header_writes) (use assms in simp)
  with old copied crc crc_field show ?thesis
    by (simp add: frame_bytes_def Let_def assms(2) del: append_take_drop_id
        flip: append_assoc)
qed

text \<open>Both writers of frames, in closed form, on a buffer that is large enough.\<close>

lemma frame_writes_payload:
  assumes "length old = 12 + n" and "payload_ok payload n"
  shows "do { b \<leftarrow> write_at (old @ post) 0 [kProtocolVersion]; b \<leftarrow> write_at b 1 [t];
              b \<leftarrow> write_at b 2 (le16 seq); b \<leftarrow> write_at b 4 (le32 (of_nat n));
              b \<leftarrow> copy_payload b payload n;
              crc \<leftarrow> ComputeCrc32 b (8 + n);
              b \<leftarrow> write_at b (8 + n) (le32 crc); f b }
       = f (frame_bytes t seq (payload_bytes payload n) @ post)"
proof (rule frame_writes [where f = f and p = "payload_bytes payload n", OF assms(1)])
  show "length (payload_bytes payload n) = n" using assms(2) by simp
next
  fix mid :: "u8 list"
  assume "length mid = n"
  then show "copy_payload (frame_header t seq n @ mid @ drop (8 + n) old @ post) payload n
      = Some (frame_header t seq n @ payload_bytes payload n @ drop (8 + n) old @ post)"
    using assms(2) by (intro copy_payload_in) simp_all
qed

lemma BuildFrame_ok:
  assumes "n \<le> kMaxFrameSize" and "12 + n \<le> capacity" and "capacity \<le> length buf"
    and "payload_ok payload n"
  shows "BuildFrame seq payload n (Some buf) capacity
       = Some (12 + n, Some (data_frame seq (payload_bytes payload n) @ drop (12 + n) buf))"
proof -
  obtain old post where buf: "buf = old @ post" and old: "length old = 12 + n"
    by (rule split_at_length [of "12 + n" buf]) (use assms in simp_all)
  show ?thesis
    using assms
    by (simp add: BuildFrame_def Let_def buf frame_writes_payload [OF old assms(4), unfolded One_nat_def]
        old size_consts)
qed

definition transmit_ok :: "transmit_state \<Rightarrow> bool" where
  "transmit_ok tx \<longleftrightarrow>
     length (transmitBuffers tx) = PING_PONG_BUFFER_COUNT \<and>
     (\<forall>b \<in> set (transmitBuffers tx). length b = MAXIMUM_TOTAL_BUFFER_SIZE_BYTES) \<and>
     activeBufferIndex tx < PING_PONG_BUFFER_COUNT"

lemmas transmit_consts = MAXIMUM_TOTAL_BUFFER_SIZE_BYTES_def PING_PONG_BUFFER_COUNT_def

lemma transmit_ok_initial: "transmit_ok initial_transmit_state"
  by (simp add: transmit_ok_def initial_transmit_state_def transmit_consts)

text \<open>The state after a frame has been put into the active buffer.\<close>

definition store_frame :: "transmit_state \<Rightarrow> u8 list \<Rightarrow> transmit_state" where
  "store_frame tx fr =
     (let i = activeBufferIndex tx; b = transmitBuffers tx ! i
      in \<lparr>transmitBuffers = (transmitBuffers tx)[i := fr @ drop (length fr) b],
          activeBufferIndex = (i + 1) mod PING_PONG_BUFFER_COUNT\<rparr>)"

lemma store_frame_ok:
  assumes "transmit_ok tx" and "length fr \<le> MAXIMUM_TOTAL_BUFFER_SIZE_BYTES"
  shows "transmit_ok (store_frame tx fr)"
  using assms nth_mem [of "activeBufferIndex tx" "transmitBuffers tx"]
  by (auto simp: transmit_ok_def store_frame_def Let_def PING_PONG_BUFFER_COUNT_def
      dest!: set_update_subset_insert [THEN subsetD])

lemma TransmitFrame_ok:
  assumes "ft_write ft = Some write" and "n \<le> kMaxFrameSize" and "transmit_ok tx"
    and "payload_ok payload n"
  shows "TransmitFrame ft t seq payload n tx w
       = (let fr = frame_bytes t seq (payload_bytes payload n); (ok, w') = write fr w
          in Some (ok, store_frame tx fr, w'))"
proof -
  let ?i = "activeBufferIndex tx"
  let ?b = "transmitBuffers tx ! ?i"
  have i: "?i < length (transmitBuffers tx)"
    using assms(3) by (simp add: transmit_ok_def)
  then have len: "length ?b = 4108"
    using assms(3) nth_mem [OF i] by (auto simp: transmit_ok_def transmit_consts frame_consts)
  obtain old post where b: "?b = old @ post" and old: "length old = 12 + n"
    by (rule split_at_length [of "12 + n" ?b]) (use len assms(2) in \<open>simp_all add: kMaxFrameSize_def\<close>)
  have dropb: "drop (12 + n) ?b = post"
    using b old by simp
  show ?thesis
    using assms(1,2) i
    by (simp add: TransmitFrame_def Let_def b
        frame_writes_payload [OF old assms(4), unfolded One_nat_def] size_consts
        store_frame_def dropb [unfolded b] old mem_simps read_at_def assms(4)
        del: drop_append split: prod.splits)
qed

subsection \<open>What the receiver accepts\<close>

definition declared_size :: "u8 list \<Rightarrow> u32" where
  "declared_size xs = of_le (take 4 (drop 4 xs))"

definition frame_ok :: "u8 list \<Rightarrow> bool" where
  "frame_ok xs \<longleftrightarrow>
     12 \<le> length xs \<and> take 2 xs = [kProtocolVersion, FrameType_Data] \<and>
     length xs = 12 + unat (declared_size xs) \<and>
     of_le (drop (length xs - 4) xs) = crc32 (take (length xs - 4) xs)"

lemma frame_bytes_alt:
  "frame_bytes t seq p = (frame_header t seq (length p) @ p) @ le32 (crc32 (frame_header t seq (length p) @ p))"
  by (simp add: frame_bytes_def Let_def)

lemma declared_size_header [frame_simps]:
  "declared_size (frame_header t seq n @ xs) = of_nat n"
  by (simp add: declared_size_def frame_header_def le_simps)

lemma declared_size_frame [frame_simps]:
  "declared_size (frame_bytes t seq p @ xs) = of_nat (length p)"
  by (simp add: frame_bytes_alt frame_simps)

lemma unat_of_nat_u32: "n < 2 ^ 32 \<Longrightarrow> unat (of_nat n :: u32) = n"
  by (simp add: unsigned_of_nat take_bit_nat_eq_self)

lemma frame_ok_data_frame [frame_simps]:
  assumes "length p < 2 ^ 32"
  shows "frame_ok (data_frame seq p)"
proof -
  have "declared_size (data_frame seq p) = of_nat (length p)"
    using declared_size_frame [of _ seq p "[]"] by simp
  moreover have "take 2 (data_frame seq p) = [kProtocolVersion, FrameType_Data]"
    by (simp add: frame_bytes_alt frame_header_def)
  moreover have "of_le (drop (8 + length p) (data_frame seq p)) = crc32 (take (8 + length p) (data_frame seq p))"
    by (simp add: frame_bytes_alt le_simps)
  ultimately show ?thesis
    using assms by (simp add: frame_ok_def unat_of_nat_u32)
qed

lemma frame_ok_exists:
  assumes "frame_ok xs"
  shows "xs = data_frame (of_le (take 2 (drop 2 xs))) (take (length xs - 12) (drop 8 xs))"
proof -
  let ?n = "length xs - 12"
  let ?h = "take 8 xs" and ?p = "take ?n (drop 8 xs)" and ?c = "drop (length xs - 4) xs"
  from assms have len: "12 \<le> length xs" and two: "take 2 xs = [kProtocolVersion, FrameType_Data]"
    and size: "length xs = 12 + unat (declared_size xs)"
    and crc: "of_le ?c = crc32 (take (length xs - 4) xs)"
    unfolding frame_ok_def by blast+
  have "?h = take 2 xs @ take 2 (drop 2 xs) @ take 4 (drop 4 xs)"
    using take_add [of 2 6 xs] take_add [of 2 4 "drop 2 xs"] by simp
  moreover have "of_nat ?n = declared_size xs"
    using size by simp
  ultimately have h: "?h = frame_header FrameType_Data (of_le (take 2 (drop 2 xs))) ?n"
    using two len by (simp add: frame_header_def le_simps declared_size_def)
  have hp: "?h @ ?p = take (length xs - 4) xs"
    using len by (simp add: take_add [symmetric])
  have "xs = take (length xs - 4) xs @ ?c" by simp
  also have "?c = le32 (crc32 (take (length xs - 4) xs))"
    using len by (simp flip: crc add: le_simps)
  also have "take (length xs - 4) xs = ?h @ ?p" by (rule hp [symmetric])
  finally show ?thesis
    using len by (simp add: frame_bytes_alt h)
qed

lemma frame_ok_iff: "frame_ok xs \<longleftrightarrow> (\<exists>seq p. length p < 2 ^ 32 \<and> xs = data_frame seq p)"
proof
  assume ok: "frame_ok xs"
  then have "length xs - 12 = unat (declared_size xs)" by (simp add: frame_ok_def)
  then have "length (take (length xs - 12) (drop 8 xs)) < 2 ^ 32"
    using unsigned_less [of "declared_size xs"] by simp
  with frame_ok_exists [OF ok] show "\<exists>seq p. length p < 2 ^ 32 \<and> xs = data_frame seq p" by blast
qed (auto simp: frame_ok_data_frame)

lemma frame_total_eq:
  assumes "32 \<le> szw" and "n < 2 ^ szw" and "12 \<le> n"
  shows "n = frame_total szw d \<longleftrightarrow> n = 12 + unat d"
proof -
  have d: "unat d < 2 ^ 32" using unsigned_less [of d] by simp
  also have "(2::nat) ^ 32 \<le> 2 ^ szw" by (rule power_increasing) (use assms in simp_all)
  finally have wrap: "12 + unat d < 12 + 2 ^ szw" by simp
  show ?thesis
  proof (cases "12 + unat d < 2 ^ szw")
    case True
    then show ?thesis by (simp add: frame_total_def size_consts ac_simps)
  next
    case False
    then have "frame_total szw d = (12 + unat d - 2 ^ szw) mod 2 ^ szw"
      by (simp add: frame_total_def size_consts ac_simps le_mod_geq)
    also have "\<dots> = 12 + unat d - 2 ^ szw"
      by (rule mod_less) (use wrap assms in linarith)
    finally have "frame_total szw d < 12"
      using wrap False by linarith
    with False assms show ?thesis by linarith
  qed
qed

text \<open>
  The receiver in closed form: it hands over the payload exactly when the received bytes are
  a well-formed data frame, and otherwise answers false without any effect.
\<close>

lemma take_1_2: "take 1 xs = [a] \<and> take 1 (drop 1 xs) = [b] \<longleftrightarrow> take 2 xs = [a, b]"
  using take_add [of 1 1 xs] by (cases xs; cases "tl xs") (auto simp: one_add_one)

lemma HandleIncoming_eq:
  assumes szw: "32 \<le> szw" and n: "n < 2 ^ szw" and len: "n \<le> length mem"
  shows "HandleIncoming szw (Some mem) n oh w =
    (if frame_ok (take n mem)
     then (case oh of None \<Rightarrow> Some (False, w) | Some h \<Rightarrow> h (drop 8 mem) (n - 12) w)
     else Some (False, w))"
proof (cases "12 \<le> n")
  case False
  then show ?thesis by (simp add: HandleIncoming_def frame_ok_def size_consts)
next
  case True
  let ?xs = "take n mem"
  define ds where "ds = declared_size ?xs"
  have d: "of_le (take 4 (drop 4 mem)) = ds"
    using True by (simp add: ds_def declared_size_def drop_take min_def)
  have total: "n = frame_total szw ds \<longleftrightarrow> n = 12 + unat ds"
    by (rule frame_total_eq [OF szw n True])
  have head: "take 1 mem = [a] \<and> take 1 (drop 1 mem) = [b] \<longleftrightarrow> take 2 ?xs = [a, b]" for a b
    using True by (simp only: take_1_2 take_take min_def) simp
  have crc_field: "drop (n - 4) ?xs = take 4 (drop (n - 4) mem)"
    using True len by (simp add: drop_take)
  have body: "take (n - 4) ?xs = take (n - 4) mem" by (simp add: min_def)
  have ok: "frame_ok ?xs \<longleftrightarrow> (take 1 mem = [kProtocolVersion] \<and> take 1 (drop 1 mem) = [FrameType_Data]) \<and>
      n = 12 + unat ds \<and> of_le (take 4 (drop (n - 4) mem)) = crc32 (take (n - 4) mem)"
    using True len by (simp only: head frame_ok_def ds_def [symmetric] length_take min_absorb2 crc_field body) simp
  have run: "HandleIncoming szw (Some mem) n oh w =
     (if \<not> (take 1 mem = [kProtocolVersion] \<and> n = frame_total szw ds) then Some (False, w)
      else if of_le (take 4 (drop (n - 4) mem)) \<noteq> crc32 (take (n - 4) mem) then Some (False, w)
      else if take 1 (drop 1 mem) \<noteq> [FrameType_Data] then Some (False, w)
      else case oh of None \<Rightarrow> Some (False, w) | Some h \<Rightarrow> h (drop 8 mem) (unat ds) w)"
    using True len
    by (cases "n = frame_total szw ds")
       (simp_all add: HandleIncoming_def size_consts mem_simps d Let_def split: option.split)
  show ?thesis
    unfolding run total ok by (auto split: option.splits)
qed

lemma HandleIncoming_null [simp]: "HandleIncoming szw None n oh w = Some (False, w)"
  by (simp add: HandleIncoming_def)

lemma HandleIncoming_short [simp]: "n < 12 \<Longrightarrow> HandleIncoming szw (Some mem) n oh w = Some (False, w)"
  by (simp add: HandleIncoming_def size_consts)

lemma HandleIncoming_data_frame:
  assumes "32 \<le> szw" and "12 + length p < 2 ^ szw" and "length p < 2 ^ 32"
  shows "HandleIncoming szw (Some (data_frame seq p @ rest)) (12 + length p) (Some h) w
       = h (p @ drop (8 + length p) (data_frame seq p) @ rest) (length p) w"
proof -
  have "drop 8 (data_frame seq p @ rest) = p @ drop (8 + length p) (data_frame seq p) @ rest"
    by (simp add: frame_bytes_alt)
  with assms show ?thesis
    by (simp add: HandleIncoming_eq frame_ok_data_frame)
qed

subsection \<open>Error detection\<close>

text \<open>A well-formed frame leaves the CRC register in its residue, wherever it was changed.\<close>

lemma frame_ok_residue:
  assumes "frame_ok xs"
  shows "crc32_register 0xFFFFFFFF xs = CRC32_RESIDUE"
proof -
  let ?k = "length xs - 4"
  have "12 \<le> length xs" and "of_le (drop ?k xs) = crc32 (take ?k xs)"
    using assms unfolding frame_ok_def by blast+
  then have "crc32_register 0xFFFFFFFF (take ?k xs @ drop ?k xs) = CRC32_RESIDUE"
    by (subst crc32_residue) simp_all
  then show ?thesis by simp
qed

lemma frame_ok_burst:
  assumes "frame_ok (pre @ xs @ post)" and "frame_ok (pre @ ys @ post)"
    and "length xs = length ys" and "length ys \<le> 4"
  shows "xs = ys"
proof -
  have "crc32_register 0xFFFFFFFF (pre @ xs @ post) = crc32_register 0xFFFFFFFF (pre @ ys @ post)"
    using assms(1,2)[THEN frame_ok_residue] by simp
  then show ?thesis
    by (simp only: crc32_register_burst [OF assms(3,4)])
qed

subsection \<open>Sequence numbers\<close>

definition sequence_ok :: "'w frame_transport \<Rightarrow> bool" where
  "sequence_ok ft \<longleftrightarrow> ft_next_sequence ft \<noteq> 0"

lemma sequence_ok_new: "sequence_ok (FrameTransport write)"
  by (simp add: sequence_ok_def FrameTransport_def)

lemma NextSequence_allocated: "fst (NextSequence ft) = ft_next_sequence ft"
  by (simp add: NextSequence_def Let_def)

lemma NextSequence_ok: "sequence_ok (snd (NextSequence ft))"
  by (simp add: sequence_ok_def NextSequence_def Let_def)

lemma NextSequence_write [simp]: "ft_write (snd (NextSequence ft)) = ft_write ft"
  by (simp add: NextSequence_def Let_def)

text \<open>Numbers count 1 to 65535 and around again, skipping the reserved 0.\<close>

lemma unat_next_sequence:
  "unat (ft_next_sequence (snd (NextSequence ft))) = unat (ft_next_sequence ft) mod 65535 + 1"
proof -
  let ?x = "ft_next_sequence ft"
  have u: "unat (?x + 1) = (unat ?x + 1) mod 65536" and b: "unat ?x < 65536"
    using unsigned_less [of ?x] by (simp_all add: unat_word_ariths)
  show ?thesis
  proof (cases "unat ?x = 65535")
    case True
    with u have "unat (?x + 1) = 0" by simp
    then have "?x + 1 = 0" by (simp only: unat_eq_zero)
    with True show ?thesis by (simp add: NextSequence_def Let_def)
  next
    case False
    with b have "unat ?x + 1 < 65536" by linarith
    with u have s: "unat (?x + 1) = unat ?x + 1" by simp
    then have "?x + 1 \<noteq> 0" by (metis add_eq_0_iff_both_eq_0 unat_eq_zero zero_neq_one)
    with s False b show ?thesis by (simp add: NextSequence_def Let_def)
  qed
qed

primrec allocate :: "nat \<Rightarrow> 'w frame_transport \<Rightarrow> 'w frame_transport" where
  "allocate 0 ft = ft"
| "allocate (Suc k) ft = allocate k (snd (NextSequence ft))"

lemma unat_allocate:
  "sequence_ok ft \<Longrightarrow>
   unat (ft_next_sequence (allocate k ft)) = (unat (ft_next_sequence ft) - 1 + k) mod 65535 + 1"
proof (induction k arbitrary: ft)
  case 0
  have "0 < unat (ft_next_sequence ft)"
    using 0 by (simp add: sequence_ok_def unat_gt_0)
  moreover have "unat (ft_next_sequence ft) < 65536"
    using unsigned_less [of "ft_next_sequence ft"] by simp
  ultimately show ?case by simp
next
  case (Suc k)
  have "0 < unat (ft_next_sequence ft)"
    using Suc.prems by (simp add: sequence_ok_def unat_gt_0)
  then show ?case
    by (simp add: Suc.IH NextSequence_ok unat_next_sequence mod_simps)
qed

subsection \<open>The frame format provides the framing contract\<close>

definition frame_length :: "u8 list \<Rightarrow> nat" where
  "frame_length xs = 12 + unat (declared_size xs)"

definition frame_payload :: "u8 list \<Rightarrow> u8 list" where
  "frame_payload xs = take (length xs - 12) (drop 8 xs)"

interpretation wire: framing data_frame frame_length 8 kMaxFrameSize frame_ok frame_payload
proof
  fix xs ys :: "u8 list"
  assume "8 \<le> length xs"
  then show "frame_length (xs @ ys) = frame_length xs"
    by (simp add: frame_length_def declared_size_def)
next
  fix seq and p :: "u8 list"
  assume p: "length p \<le> kMaxFrameSize"
  show "frame_length (data_frame seq p) = length (data_frame seq p)"
    using p declared_size_frame [of FrameType_Data seq p "[]"]
    by (simp add: frame_length_def unat_of_nat_u32 kMaxFrameSize_def)
  show "frame_ok (data_frame seq p)"
    using p by (simp add: frame_ok_data_frame kMaxFrameSize_def)
  show "frame_payload (data_frame seq p) = p"
    by (simp add: frame_payload_def frame_bytes_alt)
qed simp_all

subsection \<open>Sending in closed form, and runs of sends\<close>

definition readable :: "ptr \<Rightarrow> nat \<Rightarrow> bool" where
  "readable payload n = (case payload of None \<Rightarrow> True | Some mem \<Rightarrow> n \<le> length mem)"

lemma payload_ok_readable: "readable payload n \<Longrightarrow> \<not> (payload = None \<and> 0 < n) \<Longrightarrow> payload_ok payload n"
  by (auto simp: readable_def payload_ok_def split: option.splits)

lemma Send_ok:
  assumes "ft_write ft = Some write" and "n \<le> kMaxFrameSize" and "payload_ok payload n"
    and "transmit_ok tx"
  shows "Send ft payload n tx w
       = (let fr = data_frame (ft_next_sequence ft) (payload_bytes payload n); (ok, w') = write fr w
          in Some (ok, snd (NextSequence ft), store_frame tx fr, w'))"
proof -
  have nn: "(payload = None \<and> 0 < n) = False"
    using assms(3) by (cases payload) (simp_all add: payload_ok_def)
  have t: "TransmitFrame (snd (NextSequence ft)) FrameType_Data (ft_next_sequence ft) payload n tx w
       = (let fr = data_frame (ft_next_sequence ft) (payload_bytes payload n); (ok, w') = write fr w
          in Some (ok, store_frame tx fr, w'))"
    by (rule TransmitFrame_ok) (simp_all add: assms)
  show ?thesis
    unfolding Send_def nn if_False by (simp add: split_beta t NextSequence_allocated Let_def)
qed

lemma Send_refused:
  assumes "ft_write ft = None \<or> kMaxFrameSize < n" and "\<not> (payload = None \<and> 0 < n)"
  shows "Send ft payload n tx w = Some (False, snd (NextSequence ft), tx, w)"
  using assms by (auto simp: Send_def TransmitFrame_def split_beta split: option.splits)

lemma Send_null: "0 < n \<Longrightarrow> Send ft None n tx w = Some (False, ft, tx, w)"
  by (simp add: Send_def)

lemma Send_cases:
  assumes "readable payload n"
  obtains (null) "payload = None" and "0 < n"
  | (refused) "ft_write ft = None \<or> kMaxFrameSize < n" and "\<not> (payload = None \<and> 0 < n)"
  | (sent) wr where "ft_write ft = Some wr" and "n \<le> kMaxFrameSize" and "payload_ok payload n"
  using assms payload_ok_readable by (metis linorder_not_less not_None_eq)

definition link_ok :: "'w frame_transport \<times> transmit_state \<times> 'w \<Rightarrow> bool" where
  "link_ok s \<longleftrightarrow> sequence_ok (fst s) \<and> transmit_ok (fst (snd s))"

lemma frame_fits: "payload_ok payload n \<Longrightarrow> n \<le> kMaxFrameSize \<Longrightarrow>
  length (data_frame seq (payload_bytes payload n)) \<le> MAXIMUM_TOTAL_BUFFER_SIZE_BYTES"
  by (simp add: transmit_consts size_consts)

lemma Send_link_ok:
  assumes "link_ok (ft, tx, w)" and "readable payload n"
  shows "\<exists>ok ft' tx' w'. Send ft payload n tx w = Some (ok, ft', tx', w') \<and> link_ok (ft', tx', w')"
  using assms(2)
proof (cases rule: Send_cases [where ft = ft])
  case null
  then show ?thesis using assms(1) by (simp add: Send_null) blast
next
  case refused
  then show ?thesis using assms(1) by (simp add: Send_refused link_ok_def NextSequence_ok) blast
next
  case (sent wr)
  have "transmit_ok tx" using assms(1) by (simp add: link_ok_def)
  with sent show ?thesis
    by (auto simp: Send_ok Let_def split_beta link_ok_def NextSequence_ok
        intro!: store_frame_ok frame_fits)
qed

text \<open>A run of sends; an argument that is not readable is not a call the program makes.\<close>

definition send_step ::
  "ptr \<times> nat \<Rightarrow> 'w frame_transport \<times> transmit_state \<times> 'w \<Rightarrow> 'w frame_transport \<times> transmit_state \<times> 'w" where
  "send_step arg s =
     (case (arg, s) of ((payload, n), (ft, tx, w)) \<Rightarrow>
        if readable payload n
        then (case Send ft payload n tx w of Some (_, ft', tx', w') \<Rightarrow> (ft', tx', w') | None \<Rightarrow> s)
        else s)"

interpretation sends: invariant_run send_step link_ok
proof
  fix s :: "'w frame_transport \<times> transmit_state \<times> 'w" and arg :: "ptr \<times> nat"
  assume ok: "link_ok s"
  obtain ft tx w payload n where s: "s = (ft, tx, w)" and arg: "arg = (payload, n)"
    by (metis prod_cases3 surj_pair)
  show "link_ok (send_step arg s)"
    using Send_link_ok [of ft tx w payload n] ok
    by (auto simp: send_step_def s arg split: option.splits)
qed

subsection \<open>Properties\<close>

text \<open>
  A successful call of \<open>Send\<close> runs the write callback exactly once, on the complete
  data frame of the payload under the next sequence number, puts that frame into the active
  static buffer, switches buffers, and returns the callback's answer.
\<close>

theorem Send_transmits_frame:
  assumes "ft_write ft = Some write" and "n \<le> kMaxFrameSize" and "payload_ok payload n"
    and "transmit_ok tx" and "write (data_frame (ft_next_sequence ft) (payload_bytes payload n)) w = (ok, w')"
  shows "Send ft payload n tx w
       = Some (ok, snd (NextSequence ft),
           store_frame tx (data_frame (ft_next_sequence ft) (payload_bytes payload n)), w')"
  using assms by (simp add: Send_ok)

theorem Send_transmits_frame_witness:
  "Send (FrameTransport (Some (\<lambda>bs log. (True, log @ [bs])))) (Some [0x12, 0x34]) 2 initial_transmit_state []
   = Some (True, snd (NextSequence (FrameTransport (Some (\<lambda>bs log. (True, log @ [bs]))))),
       store_frame initial_transmit_state (data_frame 1 [0x12, 0x34]), [data_frame 1 [0x12, 0x34]])"
  using Send_transmits_frame [of "FrameTransport (Some (\<lambda>bs log. (True, log @ [bs])))"
      "\<lambda>bs log. (True, log @ [bs])" 2 "Some [0x12, 0x34]" initial_transmit_state "[]"]
  by (simp add: FrameTransport_def size_consts payload_ok_def payload_bytes_def transmit_ok_initial)

text \<open>
  The error paths of \<open>Send\<close>: a null payload with a size is refused before anything
  happens; a missing callback or a payload over \<open>kMaxFrameSize\<close> is refused without
  running the callback or touching a buffer, but the sequence number is used up.
\<close>

theorem Send_error_paths:
  "(0 < n \<longrightarrow> Send ft None n tx w = Some (False, ft, tx, w)) \<and>
   (ft_write ft = None \<or> kMaxFrameSize < m \<longrightarrow>
     Send ft (Some mem) m tx w = Some (False, snd (NextSequence ft), tx, w))"
  by (simp add: Send_null Send_refused)

theorem Send_error_paths_witness:
  "Send (FrameTransport None) None 1 initial_transmit_state () = Some (False, FrameTransport None, initial_transmit_state, ())
   \<and> Send (FrameTransport None) (Some [7]) 1 initial_transmit_state ()
     = Some (False, snd (NextSequence (FrameTransport None)), initial_transmit_state, ())"
  using Send_error_paths [of 1 "FrameTransport None" initial_transmit_state "()" 1 "[7]"]
  by (simp add: FrameTransport_def)

text \<open>
  C31. \<open>BuildFrame\<close> never writes outside the first \<open>capacity\<close> bytes: it either reports 0 and
  leaves the buffer alone, or reports the frame's length, at most the capacity, with the data
  frame in front and every byte behind it unchanged; a readable, non-null payload that fits
  is always framed.
\<close>

theorem BuildFrame_bounds:
  assumes "capacity \<le> length buf" and "n \<le> length mem"
  shows "BuildFrame seq (Some mem) n (Some buf) capacity =
     (if n \<le> kMaxFrameSize \<and> 12 + n \<le> capacity
      then Some (12 + n, Some (data_frame seq (take n mem) @ drop (12 + n) buf))
      else Some (0, Some buf))"
proof (cases "n \<le> kMaxFrameSize \<and> 12 + n \<le> capacity")
  case True
  then show ?thesis
    using BuildFrame_ok [of n capacity buf "Some mem" seq] assms
    by (simp add: payload_ok_def payload_bytes_def)
next
  case False
  then show ?thesis by (auto simp: BuildFrame_def size_consts Let_def)
qed

theorem BuildFrame_bounds_witness:
  "BuildFrame 7 (Some [0xAA]) 1 (Some (replicate 20 0)) 16
     = Some (13, Some (data_frame 7 [0xAA] @ replicate 7 0))"
  using BuildFrame_bounds [of 16 "replicate 20 0" 1 "[0xAA]" 7]
  by (simp add: size_consts)

text \<open>
  The two frame writers agree: the bytes \<open>Send\<close> gives to the write callback are those
  \<open>BuildFrame\<close> puts into a caller's buffer for the same sequence number and payload.
\<close>

theorem Send_agrees_with_BuildFrame:
  assumes "n \<le> kMaxFrameSize" and "n \<le> length mem" and "12 + n \<le> capacity" and "capacity \<le> length buf"
    and "transmit_ok tx" and "ft_write ft = Some (\<lambda>bs log. (True, log @ [bs]))"
  shows "\<exists>ft' tx' out. BuildFrame (ft_next_sequence ft) (Some mem) n (Some buf) capacity = Some (12 + n, Some out)
     \<and> Send ft (Some mem) n tx log = Some (True, ft', tx', log @ [take (12 + n) out])"
proof -
  have ok: "payload_ok (Some mem) n" using assms(2) by (simp add: payload_ok_def)
  show ?thesis
    using BuildFrame_ok [OF assms(1,3,4) ok] Send_ok [OF assms(6,1) ok assms(5)] assms(2)
    by (simp add: payload_bytes_def Let_def)
qed

theorem Send_agrees_with_BuildFrame_witness:
  "\<exists>ft' tx' out. BuildFrame 1 (Some [5, 6]) 2 (Some (replicate 16 0)) 16 = Some (14, Some out)
     \<and> Send (FrameTransport (Some (\<lambda>bs log. (True, log @ [bs])))) (Some [5, 6]) 2 initial_transmit_state []
       = Some (True, ft', tx', [take 14 out])"
  using Send_agrees_with_BuildFrame [of 2 "[5, 6]" 16 "replicate 16 0" initial_transmit_state
      "FrameTransport (Some (\<lambda>bs log. (True, log @ [bs])))" "[]"]
  by (simp add: FrameTransport_def size_consts transmit_ok_initial)

text \<open>
  C7. Round trip: what \<open>Send\<close> gives to the write callback, \<open>HandleIncoming\<close> on the other
  side accepts, calling its handler exactly once with the payload and its size and returning
  the handler's answer. The width of \<open>size_t\<close> may be 32 bits or more.
\<close>

theorem Send_HandleIncoming_roundtrip:
  assumes "32 \<le> szw" and "n \<le> kMaxFrameSize" and "n \<le> length mem" and "transmit_ok tx"
    and "ft_write ft = Some (\<lambda>bs log. (True, log @ [bs]))"
    and "Send ft (Some mem) n tx log = Some (ok, ft', tx', log')"
  shows "ok \<and> (\<exists>bs rest. log' = log @ [bs] \<and>
     HandleIncoming szw (Some bs) (length bs) (Some h) w = h (take n mem @ rest) n w)"
proof -
  let ?fr = "data_frame (ft_next_sequence ft) (take n mem)"
  have "payload_ok (Some mem) n" using assms(3) by (simp add: payload_ok_def)
  then have "ok \<and> log' = log @ [?fr]"
    using Send_ok [OF assms(5,2) _ assms(4), of "Some mem" log] assms(6)
    by (simp add: Let_def payload_bytes_def)
  moreover have "(2::nat) ^ 32 \<le> 2 ^ szw"
    by (rule power_increasing) (use assms(1) in simp_all)
  then have "HandleIncoming szw (Some ?fr) (length ?fr) (Some h) w
      = h (take n mem @ drop (8 + n) ?fr) n w"
    using HandleIncoming_data_frame [of szw "take n mem" "ft_next_sequence ft" "[]" h w] assms(1-3)
    by (simp add: size_consts)
  ultimately show ?thesis by blast
qed

theorem Send_HandleIncoming_roundtrip_witness:
  "HandleIncoming 32 (Some (data_frame 1 [0x9D, 0x40])) 14 (Some (\<lambda>mem n w. Some (True, take n mem))) []
     = Some (True, [0x9D, 0x40])"
proof -
  let ?ft = "FrameTransport (Some (\<lambda>bs log. (True, log @ [bs])))"
  have s: "Send ?ft (Some [0x9D, 0x40]) 2 initial_transmit_state []
      = Some (True, snd (NextSequence ?ft), store_frame initial_transmit_state (data_frame 1 [0x9D, 0x40]),
          [data_frame 1 [0x9D, 0x40]])"
    by (simp add: Send_ok FrameTransport_def size_consts payload_ok_def payload_bytes_def Let_def
        transmit_ok_initial)
  show ?thesis
    using Send_HandleIncoming_roundtrip [OF _ _ _ transmit_ok_initial _ s, of 32
        "\<lambda>mem n w. Some (True, take n mem)" "[]"]
    by (simp add: FrameTransport_def size_consts)
qed

text \<open>
  C8. Acceptance is exact: on any memory and any size within it, \<open>HandleIncoming\<close> runs the
  handler if and only if the received bytes are a data frame that the transport could have
  built, and otherwise answers false with no effect.
\<close>

theorem HandleIncoming_exact:
  assumes "32 \<le> szw" and "n < 2 ^ szw" and "n \<le> length mem"
  shows "HandleIncoming szw (Some mem) n (Some h) w =
     (if \<exists>seq p. length p < 2 ^ 32 \<and> take n mem = data_frame seq p
      then h (drop 8 mem) (n - 12) w else Some (False, w))"
  by (simp only: HandleIncoming_eq [OF assms] frame_ok_iff option.case)

theorem HandleIncoming_exact_witness:
  "HandleIncoming 32 (Some (replicate 12 0)) 12 (Some (\<lambda>mem n w. Some (True, ()))) () = Some (False, ())"
proof -
  have "take 12 (replicate 12 0) \<noteq> data_frame seq p" for seq p
    by (simp add: frame_bytes_alt frame_header_def frame_consts numeral_nat)
  then show ?thesis
    using HandleIncoming_exact [of 32 12 "replicate 12 0" "\<lambda>mem n w. Some (True, ())" "()"] by simp
qed

text \<open>
  C9. Every corruption of a frame that stays within four consecutive bytes (header, payload
  or CRC field) is detected: the handler does not run and the answer is false.
\<close>

theorem HandleIncoming_detects_burst:
  assumes "data_frame seq p = pre @ xs @ post" and "length p < 2 ^ 32" and "12 + length p < 2 ^ szw"
    and "32 \<le> szw" and "length ys = length xs" and "length xs \<le> 4" and "ys \<noteq> xs"
  shows "HandleIncoming szw (Some (pre @ ys @ post)) (length (pre @ ys @ post)) oh w = Some (False, w)"
proof -
  have "length (pre @ ys @ post) = length (data_frame seq p)"
    using assms(1,5) by simp
  then have n: "length (pre @ ys @ post) < 2 ^ szw" using assms(3) by simp
  have "frame_ok (pre @ xs @ post)"
    using assms(1,2) frame_ok_data_frame by metis
  then have "\<not> frame_ok (pre @ ys @ post)"
    using frame_ok_burst [of pre ys post xs] assms(5-7) by auto
  then show ?thesis
    using HandleIncoming_eq [OF assms(4) n order_refl] by simp
qed

theorem HandleIncoming_detects_burst_witness:
  "HandleIncoming 32 (Some ([1, 1] @ drop 2 (data_frame 1 [9]))) (length ([1, 1] @ drop 2 (data_frame 1 [9])))
     (Some (\<lambda>mem n w. Some (True, ()))) () = Some (False, ())"
proof -
  have "data_frame 1 [9] = [1] @ [0] @ drop 2 (data_frame 1 [9])"
    by (simp add: frame_bytes_alt frame_header_def frame_consts)
  from HandleIncoming_detects_burst [OF this, of 32 "[1]"] show ?thesis by simp
qed

text \<open>
  Sequence numbers: the k-th number allocated after a number s is
  \<open>(s - 1 + k) mod 65535 + 1\<close>, so the reserved 0 is never allocated and 65535 consecutive
  allocations are pairwise different.
\<close>

theorem sequence_numbers:
  assumes "sequence_ok ft"
  shows "unat (fst (NextSequence (allocate k ft))) = (unat (ft_next_sequence ft) - 1 + k) mod 65535 + 1"
  using assms by (simp add: NextSequence_allocated unat_allocate)

theorem sequence_numbers_witness:
  "unat (fst (NextSequence (allocate 65535 (FrameTransport (None :: unit write_callback option))))) = 1"
  using sequence_numbers [of "FrameTransport (None :: unit write_callback option)" 65535, OF sequence_ok_new]
  by (simp add: FrameTransport_def)

text \<open>
  Memory safety of the receiver: for every size that fits the memory behind the pointer,
  whatever the bytes are and whatever width \<open>size_t\<close> has, \<open>HandleIncoming\<close> reads nothing
  outside it (its handler doing the same).
\<close>

theorem HandleIncoming_memory_safe:
  assumes "n \<le> length mem" and "\<And>k v. h (drop 8 mem) k v \<noteq> None"
  shows "HandleIncoming szw (Some mem) n (Some h) w \<noteq> None"
proof (cases "12 \<le> n")
  case True
  with assms show ?thesis
    by (cases "n = frame_total szw (of_le (take 4 (drop 4 mem)))")
       (simp_all add: HandleIncoming_def size_consts mem_simps Let_def del: not_None_eq)
qed simp

theorem HandleIncoming_memory_safe_witness:
  "HandleIncoming 16 (Some (replicate 20 1)) 13 (Some (\<lambda>mem n w. Some (True, w))) () \<noteq> None"
  using HandleIncoming_memory_safe [of 13 "replicate 20 1" "\<lambda>mem n w. Some (True, w)" 16 "()"] by simp

text \<open>
  C32. Any run of sends keeps the transport and the static buffers well-formed, and in that
  state \<open>Send\<close> on a readable argument writes and reads inside its buffers only.
\<close>

theorem Send_runs_memory_safe:
  assumes "link_ok s" and "readable payload n"
  shows "link_ok (fold send_step args s) \<and>
     (case fold send_step args s of (ft, tx, w) \<Rightarrow> Send ft payload n tx w \<noteq> None)"
proof -
  have ok: "link_ok (fold send_step args s)"
    using assms(1) by (rule sends.run_inv)
  obtain ft tx w where s': "fold send_step args s = (ft, tx, w)" by (metis prod_cases3)
  show ?thesis
    using ok Send_link_ok [of ft tx w payload n] assms(2) by (auto simp: s')
qed

theorem Send_runs_memory_safe_witness:
  "link_ok (fold send_step [(Some [1], 1), (None, 3)] (FrameTransport None, initial_transmit_state, ()))"
proof -
  have "link_ok (FrameTransport None, initial_transmit_state, ())"
    by (simp add: link_ok_def sequence_ok_new transmit_ok_initial)
  moreover have "readable None 0" by (simp add: readable_def)
  ultimately show ?thesis
    using Send_runs_memory_safe [of _ None 0 "[(Some [1], 1), (None, 3)]"] by blast
qed

text \<open>
  Double buffering: after two successful sends the earlier frame is still intact in the
  static buffer it was transmitted from (a receiver that kept the pointer can still read it).
\<close>

theorem Send_keeps_previous_frame:
  assumes "transmit_ok tx" and "ft_write ft = Some write"
    and "n \<le> kMaxFrameSize" and "payload_ok payload n" and "n' \<le> kMaxFrameSize" and "payload_ok payload' n'"
    and "Send ft payload n tx w = Some (ok, ft1, tx1, w1)"
    and "Send ft1 payload' n' tx1 w1 = Some (ok', ft2, tx2, w2)"
  shows "take (12 + n) (transmitBuffers tx2 ! activeBufferIndex tx)
       = data_frame (ft_next_sequence ft) (payload_bytes payload n)"
proof -
  let ?fr = "data_frame (ft_next_sequence ft) (payload_bytes payload n)"
  have tx1: "tx1 = store_frame tx ?fr" and ft1: "ft_write ft1 = Some write"
    using assms(7) Send_ok [OF assms(2-4,1), of w] assms(2) by (auto simp: Let_def split_beta)
  have ok1: "transmit_ok tx1"
    unfolding tx1 using assms(1,3,4) by (intro store_frame_ok frame_fits)
  have "\<exists>fr. tx2 = store_frame tx1 fr"
    using assms(8) Send_ok [OF ft1 assms(5,6) ok1, of w1] by (auto simp: Let_def split_beta)
  moreover have "activeBufferIndex tx \<noteq> (activeBufferIndex tx + 1) mod 2" by presburger
  ultimately show ?thesis
    using assms(1,4) by (auto simp: tx1 store_frame_def Let_def PING_PONG_BUFFER_COUNT_def transmit_ok_def)
qed

theorem Send_keeps_previous_frame_witness:
  "\<exists>tx2 :: transmit_state. take 13 (transmitBuffers tx2 ! 0) = data_frame 1 [0xAA]"
proof -
  let ?ft = "FrameTransport (Some (\<lambda>bs log. (True, log @ [bs])))"
  have ft: "ft_write ?ft = Some (\<lambda>bs log. (True, log @ [bs]))" by (simp add: FrameTransport_def)
  have p: "payload_ok (Some [x]) 1" for x :: u8 by (simp add: payload_ok_def)
  have n: "1 \<le> kMaxFrameSize" by (simp add: size_consts)
  have l: "link_ok (?ft, initial_transmit_state, [])"
    by (simp add: link_ok_def sequence_ok_new transmit_ok_initial)
  have r: "readable (Some [x]) 1" for x :: u8 by (simp add: readable_def)
  obtain ok ft1 tx1 w1 where 1: "Send ?ft (Some [0xAA]) 1 initial_transmit_state [] = Some (ok, ft1, tx1, w1)"
    and l1: "link_ok (ft1, tx1, w1)"
    using Send_link_ok [OF l r] by blast
  obtain ok' ft2 tx2 w2 where 2: "Send ft1 (Some [0xBB]) 1 tx1 w1 = Some (ok', ft2, tx2, w2)"
    using Send_link_ok [OF l1 r] by blast
  from Send_keeps_previous_frame [OF transmit_ok_initial ft n p n p 1 2] show ?thesis
    by (auto simp: FrameTransport_def payload_bytes_def initial_transmit_state_def)
qed

end
