(* ===== verification/Stream_Processor.thy ===== *)
theory Stream_Processor
  imports Frame_Transport
begin

section \<open>The stream processor (src/stream_processor.cpp)\<close>

text \<open>
  \<open>StreamProcessor\<close> reassembles frames from a byte stream: \<open>feed\<close> appends a chunk to a
  fixed buffer and \<open>extractFrames\<close> takes complete frames off its front, resynchronising on
  the next protocol-version byte after a bad header or a failed check. The state keeps the
  whole buffer array, stale bytes included; \<open>contents\<close> is the part in use.

  The loop of \<open>extractFrames\<close> is a \<open>partial_function\<close>: its result is \<open>None\<close> if it does
  not return (or accesses memory outside the buffer). For every \<open>size_t\<close> of at least 32 bits it
  refines a scanner on byte lists, which is \<open>None\<close> exactly if it meets a header that makes the loop
  run forever: with more than 32 bits there is none, with 32 bits it is one whose declared size
  makes the frame size wrap to 0.
\<close>

subsection \<open>State\<close>

datatype ErrorType = BufferOverflow | InvalidFrameSize | CrcFailure | InvalidHeader | SyncRecoveryAttempt

fun error_code :: "ErrorType \<Rightarrow> int" where
  "error_code BufferOverflow = 0"
| "error_code InvalidFrameSize = 1"
| "error_code CrcFailure = 2"
| "error_code InvalidHeader = 3"
| "error_code SyncRecoveryAttempt = 4"

definition kBufferCapacity :: nat where
  "kBufferCapacity = kHeaderSize + kMaxFrameSize + kCrcSize"

definition kMinimumFrameSize :: nat where
  "kMinimumFrameSize = kHeaderSize + kCrcSize"

lemmas stream_consts = kBufferCapacity_def kMinimumFrameSize_def size_consts

text \<open>The frame callback is given the payload bytes its (pointer, size) arguments denote.\<close>

record 'w stream_processor =
  sp_buffer :: "u8 list"
  sp_size :: nat
  frameCallback :: "(u8 list \<Rightarrow> 'w \<Rightarrow> 'w) option"
  errorCallback :: "(int \<Rightarrow> string \<Rightarrow> 'w \<Rightarrow> 'w) option"
  writeCallback :: "'w write_callback option"

definition StreamProcessor :: "'w write_callback option \<Rightarrow> 'w stream_processor" where
  "StreamProcessor write =
     \<lparr>sp_buffer = replicate kBufferCapacity 0, sp_size = 0,
      frameCallback = None, errorCallback = None, writeCallback = write\<rparr>"

subsection \<open>Operations\<close>

definition setFrameCallback :: "(u8 list \<Rightarrow> 'w \<Rightarrow> 'w) option \<Rightarrow> 'w stream_processor \<Rightarrow> 'w stream_processor" where
  "setFrameCallback cb sp = sp\<lparr>frameCallback := cb\<rparr>"

definition setErrorCallback :: "(int \<Rightarrow> string \<Rightarrow> 'w \<Rightarrow> 'w) option \<Rightarrow> 'w stream_processor \<Rightarrow> 'w stream_processor" where
  "setErrorCallback cb sp = sp\<lparr>errorCallback := cb\<rparr>"

definition getBufferUsage :: "'w stream_processor \<Rightarrow> nat" where
  "getBufferUsage sp = sp_size sp"

definition sp_reset :: "'w stream_processor \<Rightarrow> 'w stream_processor" where
  "sp_reset sp = sp\<lparr>sp_size := 0\<rparr>"

definition reportError :: "'w stream_processor \<Rightarrow> ErrorType \<Rightarrow> string \<Rightarrow> 'w \<Rightarrow> 'w" where
  "reportError sp e message w =
     (case errorCallback sp of None \<Rightarrow> w | Some cb \<Rightarrow> cb (error_code e) message w)"

text \<open>\<open>etl::copy(begin + from, begin + size, begin)\<close>: move the rest of the contents to the front.\<close>

definition move_down :: "nat \<Rightarrow> 'w stream_processor \<Rightarrow> 'w stream_processor option" where
  "move_down k sp = do {
     bs \<leftarrow> read_at (sp_buffer sp) k (sp_size sp - k);
     b \<leftarrow> write_at (sp_buffer sp) 0 bs;
     Some (sp\<lparr>sp_buffer := b, sp_size := sp_size sp - k\<rparr>)
   }"

definition trySync :: "'w stream_processor \<Rightarrow> 'w \<Rightarrow> (bool \<times> 'w stream_processor \<times> 'w) option" where
  "trySync sp w =
     (let w1 = reportError sp SyncRecoveryAttempt ''Searching for frame header'' w in do {
        used \<leftarrow> read_at (sp_buffer sp) 0 (sp_size sp);
        case find (\<lambda>searchPos. used ! searchPos = 1) [1..<sp_size sp] of
          Some searchPos \<Rightarrow> do { sp1 \<leftarrow> move_down searchPos sp; Some (True, sp1, w1) }
        | None \<Rightarrow> Some (False, sp, w1)
      })"

text \<open>The lambda \<open>extractFrames\<close> passes to \<open>HandleIncoming\<close>.\<close>

definition dataHandler :: "'w stream_processor \<Rightarrow> 'w data_handler" where
  "dataHandler sp payload payloadSize w = do {
     cb \<leftarrow> frameCallback sp;
     bs \<leftarrow> read_at payload 0 payloadSize;
     Some (True, cb bs w)
   }"

text \<open>The remaining bytes after \<open>expected\<close> of them have been dealt with.\<close>

definition consume :: "nat \<Rightarrow> 'w stream_processor \<Rightarrow> 'w stream_processor option" where
  "consume expected sp =
     (let remaining = sp_size sp - expected in
      if remaining > 0 then move_down expected sp else Some (sp\<lparr>sp_size := remaining\<rparr>))"

datatype 's iteration = Break 's | Continue 's

text \<open>One pass through the \<open>while\<close> loop, on (extractedAny, processor, world).\<close>

definition extract_iteration ::
  "nat \<Rightarrow> bool \<times> 'w stream_processor \<times> 'w \<Rightarrow> (bool \<times> 'w stream_processor \<times> 'w) iteration option" where
  "extract_iteration szw s =
     (case s of (any, sp, w) \<Rightarrow>
      if sp_size sp < kHeaderSize then Some (Break (any, sp, w))
      else do {
        payloadSize \<leftarrow> map_option of_le (read_at (sp_buffer sp) 4 4);
        let expected = frame_total szw payloadSize in
        if expected > kBufferCapacity then do {
          let w1 = reportError sp InvalidFrameSize ''Frame size exceeds buffer capacity'' w;
          (found, sp1, w2) \<leftarrow> trySync sp w1;
          Some (if found then Continue (any, sp1, w2) else Break (any, sp1\<lparr>sp_size := 0\<rparr>, w2))
        }
        else if sp_size sp < kMinimumFrameSize then Some (Break (any, sp, w))
        else if sp_size sp < expected then Some (Break (any, sp, w))
        else do {
          (ok, w1) \<leftarrow> HandleIncoming szw (Some (sp_buffer sp)) expected (Some (dataHandler sp)) w;
          if ok then do { sp1 \<leftarrow> consume expected sp; Some (Continue (True, sp1, w1)) }
          else do {
            let w2 = reportError sp CrcFailure ''Frame validation failed'' w1;
            (found, sp1, w3) \<leftarrow> trySync sp w2;
            if found then Some (Continue (any, sp1, w3))
            else do { sp2 \<leftarrow> consume expected sp1; Some (Continue (any, sp2, w3)) }
          }
        }
      })"

partial_function (option) extract_loop ::
  "nat \<Rightarrow> bool \<times> 'w stream_processor \<times> 'w \<Rightarrow> (bool \<times> 'w stream_processor \<times> 'w) option" where
  "extract_loop szw s = do {
     r \<leftarrow> extract_iteration szw s;
     case r of Break s' \<Rightarrow> Some s' | Continue s' \<Rightarrow> extract_loop szw s'
   }"

definition extractFrames :: "nat \<Rightarrow> 'w stream_processor \<Rightarrow> 'w \<Rightarrow> (bool \<times> 'w stream_processor \<times> 'w) option" where
  "extractFrames szw sp w = extract_loop szw (False, sp, w)"

text \<open>The end of \<open>feed\<close>: append the chunk and extract.\<close>

definition append_chunk :: "nat \<Rightarrow> u8 list \<Rightarrow> nat \<Rightarrow> 'w stream_processor \<Rightarrow> 'w \<Rightarrow> ('w stream_processor \<times> 'w) option" where
  "append_chunk szw mem n sp w = do {
     bs \<leftarrow> read_at mem 0 n;
     b \<leftarrow> write_at (sp_buffer sp) (sp_size sp) bs;
     (any, sp1, w1) \<leftarrow> extractFrames szw (sp\<lparr>sp_buffer := b, sp_size := sp_size sp + n\<rparr>) w;
     Some (sp1, w1)
   }"

definition feed :: "nat \<Rightarrow> ptr \<Rightarrow> nat \<Rightarrow> 'w stream_processor \<Rightarrow> 'w \<Rightarrow> ('w stream_processor \<times> 'w) option" where
  "feed szw data n sp w =
     (case data of
        None \<Rightarrow> Some (sp, w)
      | Some mem \<Rightarrow>
          if n = 0 then Some (sp, w)
          else if frameCallback sp = None
          then Some (sp, reportError sp InvalidHeader ''Frame callback not registered'' w)
          else if n > kBufferCapacity - sp_size sp then do {
            let w1 = reportError sp BufferOverflow ''Insufficient buffer space'' w;
            (found, sp1, w2) \<leftarrow> trySync sp w1;
            let sp2 = (if found then sp1 else sp1\<lparr>sp_size := 0\<rparr>);
            if n > kBufferCapacity - sp_size sp2 then Some (sp2, w2)
            else append_chunk szw mem n sp2 w2
          }
          else append_chunk szw mem n sp w)"

subsection \<open>Specification: a scanner on byte lists\<close>

text \<open>
  What the processor does to the bytes it holds, as a function of those bytes alone: the
  calls it makes, in order, and the bytes it keeps.
\<close>

datatype stream_event = Deliver "u8 list" | Report ErrorType string

definition resync :: "u8 list \<Rightarrow> u8 list option" where
  "resync xs = (case dropWhile (\<lambda>b. b \<noteq> 1) (tl xs) of [] \<Rightarrow> None | ys \<Rightarrow> Some ys)"

lemma resync_SomeD: "resync xs = Some ys \<Longrightarrow>
  \<exists>zs. zs \<noteq> [] \<and> 1 \<notin> set (tl zs) \<and> xs = zs @ ys \<and> ys \<noteq> [] \<and> hd ys = 1"
proof -
  assume r: "resync xs = Some ys"
  then obtain x xs' where xs: "xs = x # xs'" by (cases xs) (auto simp: resync_def)
  with r have ys: "dropWhile (\<lambda>b. b \<noteq> 1) xs' = ys" "ys \<noteq> []"
    by (auto simp: resync_def split: list.splits)
  then have "xs' = takeWhile (\<lambda>b. b \<noteq> 1) xs' @ ys" by (metis takeWhile_dropWhile_id)
  moreover have "1 \<notin> set (takeWhile (\<lambda>b. b \<noteq> 1) xs')" by (auto dest: set_takeWhileD)
  moreover have "hd ys = 1" using ys hd_dropWhile [of "\<lambda>b. b \<noteq> 1" xs'] by auto
  ultimately show ?thesis
    using xs ys(2) by (intro exI [of _ "x # takeWhile (\<lambda>b. b \<noteq> 1) xs'"]) auto
qed

lemma resync_length: "resync xs = Some ys \<Longrightarrow> length ys < length xs"
  by (auto dest!: resync_SomeD)

lemma resync_NoneD: "resync xs = None \<Longrightarrow> 1 \<notin> set (tl xs)"
  by (auto simp: resync_def split: list.splits)

abbreviation size_error :: stream_event where
  "size_error \<equiv> Report InvalidFrameSize ''Frame size exceeds buffer capacity''"
abbreviation crc_error :: stream_event where
  "crc_error \<equiv> Report CrcFailure ''Frame validation failed''"
abbreviation sync_attempt :: stream_event where
  "sync_attempt \<equiv> Report SyncRecoveryAttempt ''Searching for frame header''"

text \<open>A 64-bit \<open>size_t\<close> (33 bits suffice) holds every declared frame length.\<close>

lemma frame_total_wide:
  assumes "33 \<le> szw"
  shows "frame_total szw d = 12 + unat d"
proof -
  have "12 + unat d < 2 ^ 33" using unsigned_less [of d, where 'a = nat] by simp
  also have "(2::nat) ^ 33 \<le> 2 ^ szw" by (rule power_increasing) (use assms in simp_all)
  finally show ?thesis by (simp add: frame_total_def size_consts ac_simps)
qed

text \<open>
  The total frame length a header announces, as \<open>size_t\<close> holds it: at 32 bits the sum can wrap.
  If it wraps to 0, the processor makes no progress on a header it cannot resynchronise from:
  the contents are \<open>stuck\<close>, and the scanner stops there.
\<close>

definition announced :: "nat \<Rightarrow> u8 list \<Rightarrow> nat" where
  "announced szw xs = frame_total szw (declared_size xs)"

definition stuck :: "nat \<Rightarrow> u8 list \<Rightarrow> bool" where
  "stuck szw xs \<longleftrightarrow> 12 \<le> length xs \<and> announced szw xs = 0 \<and> resync xs = None"

lemma frame_ok_nonempty: "frame_ok (take n xs) \<Longrightarrow> 0 < n"
  by (cases n) (auto simp: frame_ok_def)

function scan :: "nat \<Rightarrow> u8 list \<Rightarrow> stream_event list \<times> u8 list" where
  "scan szw xs =
     (let n = announced szw xs; fr = take n xs; rest = drop n xs in
      if length xs < 8 then ([], xs)
      else if n > kBufferCapacity
      then (case resync xs of
              None \<Rightarrow> ([size_error, sync_attempt], [])
            | Some ys \<Rightarrow> (case scan szw ys of (evs, r) \<Rightarrow> (size_error # sync_attempt # evs, r)))
      else if length xs < 12 \<or> length xs < n then ([], xs)
      else if frame_ok fr
      then (case scan szw rest of (evs, r) \<Rightarrow> (Deliver (frame_payload fr) # evs, r))
      else if stuck szw xs then ([], xs)
      else (case scan szw (case resync xs of Some ys \<Rightarrow> ys | None \<Rightarrow> rest) of
              (evs, r) \<Rightarrow> (crc_error # sync_attempt # evs, r)))"
  by pat_completeness auto
termination
  by (relation "measure (\<lambda>(szw, xs). length xs)")
     (auto simp: resync_length stuck_def dest: frame_ok_nonempty split: option.splits)

declare scan.simps [simp del]

lemma scan_cases [case_names short oversize waiting whole stuck bad]:
  obtains "length xs < 8"
    | "\<not> length xs < 8" "announced szw xs > kBufferCapacity"
    | "\<not> length xs < 8" "\<not> announced szw xs > kBufferCapacity" "length xs < 12 \<or> length xs < announced szw xs"
    | "\<not> length xs < 8" "\<not> announced szw xs > kBufferCapacity" "\<not> (length xs < 12 \<or> length xs < announced szw xs)"
      "frame_ok (take (announced szw xs) xs)"
    | "stuck szw xs"
    | "\<not> length xs < 8" "\<not> announced szw xs > kBufferCapacity" "\<not> (length xs < 12 \<or> length xs < announced szw xs)"
      "\<not> frame_ok (take (announced szw xs) xs)" "\<not> stuck szw xs"
proof (cases "stuck szw xs")
  case False
  show thesis
  proof (cases "length xs < 8 \<or> announced szw xs > kBufferCapacity \<or> length xs < 12 \<or> length xs < announced szw xs")
    case True
    with that(1-3) show thesis by fastforce
  next
    case ok: False
    with False that(4,6) show thesis by fastforce
  qed
qed (rule that(5))

lemma scan_short: "length xs < 8 \<Longrightarrow> scan szw xs = ([], xs)"
  by (subst scan.simps) (simp add: Let_def)

lemma scan_oversize:
  assumes "\<not> length xs < 8" and "announced szw xs > kBufferCapacity"
  shows "scan szw xs = (case resync xs of None \<Rightarrow> ([size_error, sync_attempt], [])
     | Some ys \<Rightarrow> (size_error # sync_attempt # fst (scan szw ys), snd (scan szw ys)))"
  by (subst scan.simps) (simp only: Let_def assms if_True if_False split_beta)

lemma scan_waiting:
  assumes "\<not> announced szw xs > kBufferCapacity" and "length xs < 12 \<or> length xs < announced szw xs"
  shows "scan szw xs = ([], xs)"
  by (subst scan.simps) (simp only: Let_def assms if_True if_False if_cancel)

lemma scan_whole:
  assumes "\<not> length xs < 8" "\<not> announced szw xs > kBufferCapacity" "\<not> (length xs < 12 \<or> length xs < announced szw xs)"
    and "frame_ok (take (announced szw xs) xs)"
  shows "scan szw xs = (Deliver (frame_payload (take (announced szw xs) xs)) # fst (scan szw (drop (announced szw xs) xs)),
     snd (scan szw (drop (announced szw xs) xs)))"
  by (subst scan.simps) (simp only: Let_def assms if_True if_False split_beta)

lemma scan_stuck:
  assumes "stuck szw xs"
  shows "scan szw xs = ([], xs)"
proof -
  have "\<not> length xs < 8" "\<not> announced szw xs > kBufferCapacity" "\<not> (length xs < 12 \<or> length xs < announced szw xs)"
    "\<not> frame_ok (take (announced szw xs) xs)"
    using assms frame_ok_nonempty [of 0 xs] by (auto simp: stuck_def)
  then show ?thesis
    by (subst scan.simps) (simp only: Let_def assms if_True if_False)
qed

lemma scan_bad:
  assumes "\<not> length xs < 8" "\<not> announced szw xs > kBufferCapacity" "\<not> (length xs < 12 \<or> length xs < announced szw xs)"
    and "\<not> frame_ok (take (announced szw xs) xs)" and "\<not> stuck szw xs"
    and "ys = (case resync xs of Some ys \<Rightarrow> ys | None \<Rightarrow> drop (announced szw xs) xs)"
  shows "scan szw xs = (crc_error # sync_attempt # fst (scan szw ys), snd (scan szw ys))"
  unfolding assms(6) by (subst scan.simps) (simp only: Let_def assms(1-5) if_True if_False split_beta)

lemma not_stuck_short: "length xs < 12 \<Longrightarrow> \<not> stuck szw xs"
  by (simp add: stuck_def)

text \<open>At 33 bits and above nothing wraps, so nothing is stuck.\<close>

lemma announced_wide: "33 \<le> szw \<Longrightarrow> announced szw xs = frame_length xs"
  by (simp add: announced_def frame_total_wide frame_length_def)

lemma not_stuck_wide: "33 \<le> szw \<Longrightarrow> \<not> stuck szw xs"
  by (simp add: stuck_def announced_wide frame_length_def)

lemma announced_small:
  assumes "32 \<le> szw" and "frame_length xs \<le> kBufferCapacity"
  shows "announced szw xs = frame_length xs"
proof -
  have "frame_length xs < 2 ^ 32" using assms(2) by (simp add: kBufferCapacity_def size_consts)
  also have "(2::nat) ^ 32 \<le> 2 ^ szw" by (rule power_increasing) (use assms(1) in simp_all)
  finally show ?thesis by (simp add: announced_def frame_total_def frame_length_def size_consts ac_simps)
qed

text \<open>Performing the calls on the world, through the registered callbacks.\<close>

fun perform :: "'w stream_processor \<Rightarrow> stream_event \<Rightarrow> 'w \<Rightarrow> 'w" where
  "perform sp (Deliver p) w = (case frameCallback sp of None \<Rightarrow> w | Some cb \<Rightarrow> cb p w)"
| "perform sp (Report e m) w = reportError sp e m w"

definition sp_contents :: "'w stream_processor \<Rightarrow> u8 list" where
  "sp_contents sp = take (sp_size sp) (sp_buffer sp)"

definition sp_ok :: "'w stream_processor \<Rightarrow> bool" where
  "sp_ok sp \<longleftrightarrow> length (sp_buffer sp) = kBufferCapacity \<and> sp_size sp \<le> kBufferCapacity"

text \<open>The processor with these contents and everything else as before.\<close>

definition holds :: "'w stream_processor \<Rightarrow> 'w stream_processor \<Rightarrow> u8 list \<Rightarrow> bool" where
  "holds sp sp' xs \<longleftrightarrow>
     sp_ok sp' \<and> sp_contents sp' = xs \<and> frameCallback sp' = frameCallback sp \<and>
     errorCallback sp' = errorCallback sp \<and> writeCallback sp' = writeCallback sp"

lemma holds_self: "sp_ok sp \<Longrightarrow> holds sp sp (sp_contents sp)"
  by (simp add: holds_def)

lemma holds_trans: "holds sp sp1 xs \<Longrightarrow> holds sp1 sp2 ys \<Longrightarrow> holds sp sp2 ys"
  by (simp add: holds_def)

lemma length_contents: "sp_ok sp \<Longrightarrow> length (sp_contents sp) = sp_size sp"
  by (simp add: sp_contents_def sp_ok_def)

lemma perform_cong: "holds sp sp' xs \<Longrightarrow> perform sp' e w = perform sp e w"
  by (cases e) (simp_all add: holds_def reportError_def)

lemma fold_perform_cong: "holds sp sp' xs \<Longrightarrow> fold (perform sp') evs w = fold (perform sp) evs w"
  by (induction evs arbitrary: w) (simp_all add: perform_cong)

subsection \<open>The operations on the contents\<close>

lemma read_contents:
  assumes "sp_ok sp" and "k + n \<le> sp_size sp"
  shows "read_at (sp_buffer sp) k n = Some (take n (drop k (sp_contents sp)))"
  using assms by (simp add: sp_ok_def sp_contents_def mem_simps drop_take min_def)

lemma move_down_holds:
  assumes "sp_ok sp" and "k \<le> sp_size sp"
  shows "\<exists>sp'. move_down k sp = Some sp' \<and> holds sp sp' (drop k (sp_contents sp))"
proof -
  let ?bs = "take (sp_size sp - k) (drop k (sp_contents sp))"
  have bs: "?bs = drop k (sp_contents sp)" and len: "length ?bs = sp_size sp - k"
    using assms by (simp_all add: length_contents)
  have r: "read_at (sp_buffer sp) k (sp_size sp - k) = Some ?bs"
    using assms by (intro read_contents) simp_all
  have le: "sp_size sp - k \<le> kBufferCapacity" and b: "length (sp_buffer sp) = kBufferCapacity"
    using assms by (auto simp: sp_ok_def)
  have w: "write_at (sp_buffer sp) 0 ?bs = Some (?bs @ drop (sp_size sp - k) (sp_buffer sp))"
    using le b len by (simp add: write_at_def)
  from le b show ?thesis
    using assms len
    by (simp add: length_contents [OF assms(1)] move_down_def r [unfolded bs] w [unfolded bs] holds_def sp_ok_def sp_contents_def [of "sp\<lparr>sp_buffer := _, sp_size := _\<rparr>"])
qed

lemma consume_holds:
  assumes "sp_ok sp" and "k \<le> sp_size sp"
  shows "\<exists>sp'. consume k sp = Some sp' \<and> holds sp sp' (drop k (sp_contents sp))"
proof (cases "k < sp_size sp")
  case True
  with move_down_holds [OF assms] show ?thesis by (simp add: consume_def)
next
  case False
  with assms show ?thesis
    by (simp add: consume_def holds_def sp_ok_def) (simp add: sp_contents_def)
qed

lemma find_resync:
  "(case find (\<lambda>i. xs ! i = 1) [1..<length xs] of
      Some k \<Rightarrow> 1 \<le> k \<and> k < length xs \<and> resync xs = Some (drop k xs)
    | None \<Rightarrow> resync xs = None)"
proof (cases "find (\<lambda>i. xs ! i = 1) [1..<length xs]")
  case None
  then have "\<forall>i \<in> set [1..<length xs]. xs ! i \<noteq> 1" by (simp add: find_None_iff)
  then have "\<forall>b \<in> set (tl xs). b \<noteq> 1"
    by (auto simp: in_set_conv_nth nth_tl)
  then have "dropWhile (\<lambda>b. b \<noteq> 1) (tl xs) = []" by (simp add: dropWhile_eq_Nil_conv)
  then show ?thesis by (simp only: resync_def None option.case list.case)
next
  case (Some k)
  then obtain i where i: "i < length [1..<length xs]" "xs ! ([1..<length xs] ! i) = 1"
    "k = [1..<length xs] ! i" "\<forall>j<i. xs ! ([1..<length xs] ! j) \<noteq> 1"
    by (auto simp: find_Some_iff)
  then have k: "k = Suc i" "k < length xs" "xs ! k = 1" by auto
  have "takeWhile (\<lambda>b. b \<noteq> 1) (tl xs) = take i (tl xs)"
    by (rule takeWhile_eq_take_P_nth) (use i(4) k in \<open>auto simp: nth_tl\<close>)
  moreover have "length (take i (tl xs)) = i" using k by simp
  ultimately have d: "dropWhile (\<lambda>b. b \<noteq> 1) (tl xs) = drop k xs"
    using k by (simp add: dropWhile_eq_drop drop_Suc)
  moreover have "drop k xs \<noteq> []" using k by simp
  ultimately show ?thesis
    using Some k by (auto simp: resync_def split: list.splits)
qed

lemma trySync_holds:
  assumes "sp_ok sp"
  shows "case resync (sp_contents sp) of
      None \<Rightarrow> trySync sp w = Some (False, sp, perform sp sync_attempt w)
    | Some ys \<Rightarrow> \<exists>sp'. trySync sp w = Some (True, sp', perform sp sync_attempt w) \<and> holds sp sp' ys"
proof -
  let ?xs = "sp_contents sp"
  have used: "read_at (sp_buffer sp) 0 (sp_size sp) = Some ?xs"
    using assms by (subst read_contents) (simp_all add: length_contents)
  show ?thesis
  proof (cases "find (\<lambda>i. ?xs ! i = 1) [1..<sp_size sp]")
    case None
    with find_resync [of ?xs] assms show ?thesis
      by (simp add: length_contents trySync_def used)
  next
    case (Some k)
    with find_resync [of ?xs] assms have k: "k < sp_size sp" "resync ?xs = Some (drop k ?xs)"
      by (simp_all add: length_contents)
    obtain sp' where "move_down k sp = Some sp'" "holds sp sp' (drop k ?xs)"
      using move_down_holds [OF assms, of k] k by auto
    with k Some show ?thesis by (simp add: trySync_def used)
  qed
qed

lemma declared_size_contents:
  assumes "sp_ok sp" and "8 \<le> sp_size sp"
  shows "map_option of_le (read_at (sp_buffer sp) 4 4) = Some (declared_size (sp_contents sp))"
  using assms by (simp add: read_contents declared_size_def)

lemma handle_front:
  assumes "sp_ok sp" and "frameCallback sp = Some cb" and "32 \<le> szw" and "n \<le> sp_size sp"
  shows "HandleIncoming szw (Some (sp_buffer sp)) n (Some (dataHandler sp)) w =
    (let fr = take n (sp_contents sp) in
     if frame_ok fr then Some (True, perform sp (Deliver (frame_payload fr)) w) else Some (False, w))"
proof -
  have n: "n \<le> length (sp_buffer sp)" "n \<le> 4108"
    using assms by (simp_all add: sp_ok_def stream_consts)
  have "(4108::nat) < 2 ^ 32" by simp
  also have "(2::nat) ^ 32 \<le> 2 ^ szw" by (rule power_increasing) (use assms in simp_all)
  finally have lt: "n < 2 ^ szw" using n by linarith
  have front: "take n (sp_buffer sp) = take n (sp_contents sp)"
    using assms(4) by (simp add: sp_contents_def min_def)
  have "frame_payload (take n (sp_contents sp)) = take (n - 12) (drop 8 (sp_buffer sp))"
    using n by (simp add: frame_payload_def drop_take flip: front)
  moreover have "n - 12 \<le> length (drop 8 (sp_buffer sp))" using n by simp
  ultimately have "dataHandler sp (drop 8 (sp_buffer sp)) (n - 12) w
      = Some (True, perform sp (Deliver (frame_payload (take n (sp_contents sp)))) w)"
    using assms(2) by (simp add: dataHandler_def mem_simps)
  moreover have "HandleIncoming szw (Some (sp_buffer sp)) n (Some (dataHandler sp)) w =
      (if frame_ok (take n (sp_contents sp)) then dataHandler sp (drop 8 (sp_buffer sp)) (n - 12) w
       else Some (False, w))"
    using HandleIncoming_eq [OF assms(3) lt n(1), of "Some (dataHandler sp)" w] front by simp
  ultimately show ?thesis by (simp add: Let_def)
qed

lemma handle_tiny:
  "n < 12 \<Longrightarrow> HandleIncoming szw (Some mem) n oh w = Some (False, w)"
  by (simp add: HandleIncoming_def size_consts)


subsection \<open>The loop refines the scanner\<close>

definition is_delivery :: "stream_event \<Rightarrow> bool" where
  "is_delivery e = (case e of Deliver p \<Rightarrow> True | Report t m \<Rightarrow> False)"

lemma is_delivery_simps [simp]: "is_delivery (Deliver p)" "\<not> is_delivery (Report t m)"
  by (simp_all add: is_delivery_def)

text \<open>
  What it means that the loop did what the scanner says, starting from \<open>sp\<close>: it returns, unless
  the scanner ends in stuck contents.
\<close>

definition scanned ::
  "nat \<Rightarrow> 'w stream_processor \<Rightarrow> bool \<Rightarrow> stream_event list \<times> u8 list \<Rightarrow> 'w \<Rightarrow>
   (bool \<times> 'w stream_processor \<times> 'w) option \<Rightarrow> bool" where
  "scanned szw sp any er w r \<longleftrightarrow>
     (if stuck szw (snd er) then r = None
      else \<exists>sp'. r = Some (any \<or> list_ex is_delivery (fst er), sp', fold (perform sp) (fst er) w) \<and>
            holds sp sp' (snd er))"

lemma scanned_step:
  assumes "holds sp sp1 ys" and "scanned szw sp1 any' er w1 r"
    and "w1 = fold (perform sp) evs w" and "any' = (any \<or> list_ex is_delivery evs)"
  shows "scanned szw sp any (evs @ fst er, snd er) w r"
  using assms holds_trans [OF assms(1)]
  by (auto simp: scanned_def fold_perform_cong [OF assms(1)] split: if_splits)

lemma scanned_stop:
  "holds sp sp' ys \<Longrightarrow> any' = (any \<or> list_ex is_delivery evs) \<Longrightarrow> w' = fold (perform sp) evs w \<Longrightarrow> \<not> stuck szw ys \<Longrightarrow>
   scanned szw sp any (evs, ys) w (Some (any', sp', w'))"
  by (simp add: scanned_def)

lemma holds_empty: "holds sp sp1 xs \<Longrightarrow> holds sp (sp1\<lparr>sp_size := 0\<rparr>) []"
  by (simp add: holds_def sp_ok_def sp_contents_def)

lemma frame_length_ge: "12 \<le> frame_length xs"
  by (simp add: frame_length_def)

lemma extract_loop_continue:
  "extract_iteration szw s = Some (Continue s') \<Longrightarrow> extract_loop szw s = extract_loop szw s'"
  by (subst extract_loop.simps) simp

lemma extract_loop_break:
  "extract_iteration szw s = Some (Break s') \<Longrightarrow> extract_loop szw s = Some s'"
  by (subst extract_loop.simps) simp


text \<open>One pass of the loop, case by case as the scanner has them.\<close>

lemma iteration_short:
  "sp_size sp < 8 \<Longrightarrow> extract_iteration szw (any, sp, w) = Some (Break (any, sp, w))"
  by (simp add: extract_iteration_def size_consts)

lemma iteration_oversize:
  assumes "sp_ok sp" and "8 \<le> sp_size sp" and "announced szw (sp_contents sp) > kBufferCapacity"
  shows "case resync (sp_contents sp) of
      None \<Rightarrow> extract_iteration szw (any, sp, w) =
        Some (Break (any, sp\<lparr>sp_size := 0\<rparr>, fold (perform sp) [size_error, sync_attempt] w))
    | Some ys \<Rightarrow> \<exists>sp'. holds sp sp' ys \<and> extract_iteration szw (any, sp, w) =
        Some (Continue (any, sp', fold (perform sp) [size_error, sync_attempt] w))"
  using assms trySync_holds [OF assms(1), of "perform sp size_error w"]
  by (auto simp: extract_iteration_def declared_size_contents announced_def size_consts split: option.splits)

lemma iteration_waiting:
  assumes "sp_ok sp" and "8 \<le> sp_size sp" and "\<not> announced szw (sp_contents sp) > kBufferCapacity"
    and "sp_size sp < 12 \<or> sp_size sp < announced szw (sp_contents sp)"
  shows "extract_iteration szw (any, sp, w) = Some (Break (any, sp, w))"
  using assms by (auto simp: extract_iteration_def declared_size_contents announced_def stream_consts Let_def)

lemma iteration_whole:
  assumes "sp_ok sp" and "8 \<le> sp_size sp" and "32 \<le> szw" and "frameCallback sp = Some cb"
    and "n = announced szw (sp_contents sp)"
    and "\<not> n > kBufferCapacity" and "\<not> (sp_size sp < 12 \<or> sp_size sp < n)" and "frame_ok (take n (sp_contents sp))"
  shows "\<exists>sp'. holds sp sp' (drop n (sp_contents sp)) \<and> extract_iteration szw (any, sp, w) =
      Some (Continue (True, sp', perform sp (Deliver (frame_payload (take n (sp_contents sp)))) w))"
proof -
  have n: "n \<le> sp_size sp" using assms(7) by simp
  obtain sp' where c: "consume n sp = Some sp'" "holds sp sp' (drop n (sp_contents sp))"
    using consume_holds [OF assms(1) n] by auto
  with handle_front [OF assms(1,4,3) n, of w] assms(1,2,5-8) show ?thesis
    by (simp add: extract_iteration_def declared_size_contents size_consts kMinimumFrameSize_def announced_def)
qed

lemma iteration_bad:
  assumes "sp_ok sp" and "8 \<le> sp_size sp" and "n = announced szw (sp_contents sp)"
    and "\<not> n > kBufferCapacity" and "\<not> (sp_size sp < 12 \<or> sp_size sp < n)"
    and "HandleIncoming szw (Some (sp_buffer sp)) n (Some (dataHandler sp)) w = Some (False, w)"
  shows "\<exists>sp'. holds sp sp' (case resync (sp_contents sp) of Some ys \<Rightarrow> ys | None \<Rightarrow> drop n (sp_contents sp)) \<and>
      extract_iteration szw (any, sp, w) = Some (Continue (any, sp', fold (perform sp) [crc_error, sync_attempt] w))"
proof -
  have n: "n \<le> sp_size sp" using assms(5) by simp
  obtain sp' where c: "consume n sp = Some sp'" "holds sp sp' (drop n (sp_contents sp))"
    using consume_holds [OF assms(1) n] by auto
  note it = extract_iteration_def declared_size_contents size_consts kMinimumFrameSize_def announced_def
  note t = trySync_holds [OF assms(1), of "perform sp crc_error w"]
  show ?thesis
  proof (cases "resync (sp_contents sp)")
    case None
    with t assms c show ?thesis by (simp add: it)
  next
    case (Some ys)
    with t obtain sp1 where "holds sp sp1 ys"
      "trySync sp (perform sp crc_error w) = Some (True, sp1, fold (perform sp) [crc_error, sync_attempt] w)"
      by auto
    with Some assms show ?thesis by (simp add: it)
  qed
qed

text \<open>Stuck contents: pass after pass leaves them as they are.\<close>

lemma iteration_stuck:
  assumes "sp_ok sp" and "stuck szw (sp_contents sp)"
  shows "\<exists>sp' w'. extract_iteration szw (any, sp, w) = Some (Continue (any, sp', w')) \<and>
    holds sp sp' (sp_contents sp)"
proof -
  have size: "12 \<le> sp_size sp" "8 \<le> sp_size sp" and zero: "0 = announced szw (sp_contents sp)"
    and none: "resync (sp_contents sp) = None"
    using assms by (simp_all add: stuck_def length_contents)
  from iteration_bad [OF assms(1) size(2) zero, of w any] size none show ?thesis
    by (auto simp: handle_tiny)
qed

lemma extract_loop_stuck:
  assumes "sp_ok sp" and "stuck szw (sp_contents sp)"
  shows "extract_loop szw (any, sp, w) = None"
proof -
  have "\<forall>any sp w. s = (any, sp, w) \<and> sp_ok sp \<longrightarrow> \<not> stuck szw (sp_contents sp)"
    if "extract_loop szw s = Some y" for szw and s :: "bool \<times> 'a stream_processor \<times> 'a" and y
  proof (rule extract_loop.raw_induct [OF _ that], intro allI impI notI)
    fix loop :: "nat \<Rightarrow> bool \<times> 'a stream_processor \<times> 'a \<Rightarrow> (bool \<times> 'a stream_processor \<times> 'a) option"
      and szw s y any sp and w :: 'a
    assume ih: "\<And>szw s y. loop szw s = Some y \<Longrightarrow>
        \<forall>any sp w. s = (any, sp, w) \<and> sp_ok sp \<longrightarrow> \<not> stuck szw (sp_contents sp)"
      and body: "do { r \<leftarrow> extract_iteration szw s;
        case r of Break s' \<Rightarrow> Some s' | Continue s' \<Rightarrow> loop szw s' } = Some y"
      and s: "s = (any, sp, w) \<and> sp_ok sp" and st: "stuck szw (sp_contents sp)"
    obtain sp' w' where "extract_iteration szw (any, sp, w) = Some (Continue (any, sp', w'))"
      and h: "holds sp sp' (sp_contents sp)"
      using iteration_stuck [of sp szw any w] s st by blast
    with body s have "loop szw (any, sp', w') = Some y" by simp
    from ih [OF this] h st show False by (simp add: holds_def)
  qed
  with assms show ?thesis by (cases "extract_loop szw (any, sp, w)") auto
qed

lemma extract_loop_scan:
  assumes "32 \<le> szw" and "sp_ok sp" and "frameCallback sp = Some cb"
  shows "scanned szw sp any (scan szw (sp_contents sp)) w (extract_loop szw (any, sp, w))"
  using assms(2,3)
proof (induction "length (sp_contents sp)" arbitrary: sp any w rule: less_induct)
  case less
  note ok = less(2) and cb = less(3)
  let ?xs = "sp_contents sp" and ?n = "announced szw (sp_contents sp)"
  have len: "length ?xs = sp_size sp" using ok by (rule length_contents)
  have go_on: "scanned szw sp any (evs @ fst (scan szw ys), snd (scan szw ys)) w (extract_loop szw (any, sp, w))"
    if "holds sp sp' ys" and "length ys < length ?xs"
      and "extract_iteration szw (any, sp, w) = Some (Continue (any \<or> list_ex is_delivery evs, sp', fold (perform sp) evs w))"
    for sp' ys evs
    unfolding extract_loop_continue [OF that(3)]
    by (rule scanned_step [OF that(1) _ refl refl]) (use less(1) [of sp'] that cb in \<open>simp add: holds_def\<close>)
  show ?case
  proof (cases rule: scan_cases [where xs = ?xs and szw = szw])
    case short
    then show ?thesis
      using len by (auto simp: scan_short not_stuck_short extract_loop_break [OF iteration_short]
        intro!: scanned_stop holds_self ok)
  next
    case oversize
    note it = iteration_oversize [OF ok _ oversize(2), of any w]
    show ?thesis
    proof (cases "resync ?xs")
      case None
      with it oversize(1) len show ?thesis
        by (auto simp: scan_oversize [OF oversize] extract_loop_break not_stuck_short
          intro!: scanned_stop holds_empty [OF holds_self [OF ok]])
    next
      case (Some ys)
      with it oversize(1) len obtain sp' where "holds sp sp' ys"
        "extract_iteration szw (any, sp, w) = Some (Continue (any, sp', fold (perform sp) [size_error, sync_attempt] w))"
        by auto
      with go_on [of sp' ys "[size_error, sync_attempt]"] Some resync_length show ?thesis
        by (simp add: scan_oversize [OF oversize])
    qed
  next
    case waiting
    then have "\<not> stuck szw ?xs" by (auto simp: stuck_def)
    with waiting show ?thesis
      using len iteration_waiting [OF ok _ waiting(2), of any w]
      by (auto simp: scan_waiting extract_loop_break intro!: scanned_stop holds_self ok)
  next
    case whole
    then have size: "8 \<le> sp_size sp" "\<not> (sp_size sp < 12 \<or> sp_size sp < ?n)" by (simp_all add: len)
    from iteration_whole [OF ok size(1) assms(1) cb refl whole(2) size(2) whole(4), of any w]
    obtain sp' where "holds sp sp' (drop ?n ?xs)" "extract_iteration szw (any, sp, w) =
        Some (Continue (True, sp', perform sp (Deliver (frame_payload (take ?n ?xs))) w))"
      by auto
    moreover have "length (drop ?n ?xs) < length ?xs"
      using frame_ok_nonempty [OF whole(4)] size len by simp
    ultimately show ?thesis
      using go_on [of sp' "drop ?n ?xs" "[Deliver (frame_payload (take ?n ?xs))]"] by (simp add: scan_whole [OF whole])
  next
    case stuck
    then show ?thesis by (simp add: scan_stuck scanned_def extract_loop_stuck [OF ok])
  next
    case bad
    then have size: "8 \<le> sp_size sp" "\<not> (sp_size sp < 12 \<or> sp_size sp < ?n)" by (simp_all add: len)
    let ?ys = "case resync ?xs of Some ys \<Rightarrow> ys | None \<Rightarrow> drop ?n ?xs"
    from handle_front [OF ok cb assms(1), of ?n w] size bad(4)
    have "HandleIncoming szw (Some (sp_buffer sp)) ?n (Some (dataHandler sp)) w = Some (False, w)" by simp
    from iteration_bad [OF ok size(1) refl bad(2) size(2) this, of any] obtain sp' where
      "holds sp sp' ?ys" "extract_iteration szw (any, sp, w) =
        Some (Continue (any, sp', fold (perform sp) [crc_error, sync_attempt] w))"
      by blast
    moreover have "length ?ys < length ?xs"
      using bad(3,5) by (auto simp: stuck_def resync_length split: option.splits)
    ultimately show ?thesis
      using go_on [of sp' ?ys "[crc_error, sync_attempt]"] by (simp add: scan_bad [OF bad refl])
  qed
qed

lemma extractFrames_scan:
  assumes "32 \<le> szw" and "sp_ok sp" and "frameCallback sp = Some cb"
  shows "scanned szw sp False (scan szw (sp_contents sp)) w (extractFrames szw sp w)"
  unfolding extractFrames_def by (rule extract_loop_scan [OF assms])

lemma extract_loop_scanD:
  assumes "32 \<le> szw" and "sp_ok sp" and "frameCallback sp = Some cb" and "\<not> stuck szw (snd (scan szw (sp_contents sp)))"
  obtains sp' where
    "extractFrames szw sp w = Some (list_ex is_delivery (fst (scan szw (sp_contents sp))), sp',
       fold (perform sp) (fst (scan szw (sp_contents sp))) w)"
    and "holds sp sp' (snd (scan szw (sp_contents sp)))"
  using extractFrames_scan [OF assms(1-3), of w] assms(4) by (auto simp: scanned_def)

lemma extract_stuck:
  assumes "32 \<le> szw" and "sp_ok sp" and "frameCallback sp = Some cb"
  shows "extractFrames szw sp w = None \<longleftrightarrow> stuck szw (snd (scan szw (sp_contents sp)))"
  using extractFrames_scan [OF assms, of w] by (auto simp: scanned_def split: if_splits)

text \<open>Where the scanner does nothing and is not stuck, the first pass leaves the loop.\<close>

lemma scan_idle_cases:
  assumes "scan szw xs = ([], xs)" and "\<not> stuck szw xs"
  shows "length xs < 8 \<or> \<not> announced szw xs > kBufferCapacity \<and> (length xs < 12 \<or> length xs < announced szw xs)"
proof (cases rule: scan_cases [where xs = xs and szw = szw])
  case oversize
  with assms show ?thesis by (simp add: scan_oversize split: option.splits)
next
  case whole
  with assms show ?thesis by (simp add: scan_whole)
next
  case bad
  with assms show ?thesis by (simp add: scan_bad [OF bad refl])
qed (use assms in auto)

lemma extract_idle:
  assumes "sp_ok sp" and "scan szw (sp_contents sp) = ([], sp_contents sp)" and "\<not> stuck szw (sp_contents sp)"
  shows "extractFrames szw sp w = Some (False, sp, w)"
proof (cases "sp_size sp < 8")
  case True
  then show ?thesis by (simp add: extractFrames_def extract_loop_break [OF iteration_short])
next
  case False
  with scan_idle_cases [OF assms(2,3)] length_contents [OF assms(1)]
  have "8 \<le> sp_size sp" "\<not> announced szw (sp_contents sp) > kBufferCapacity"
    "sp_size sp < 12 \<or> sp_size sp < announced szw (sp_contents sp)"
    by simp_all
  from iteration_waiting [OF assms(1) this] show ?thesis
    by (simp add: extractFrames_def extract_loop_break)
qed

subsection \<open>The specification of \<open>feed\<close>\<close>

definition prepend :: "stream_event list \<Rightarrow> stream_event list \<times> u8 list \<Rightarrow> stream_event list \<times> u8 list" where
  "prepend evs er = (evs @ fst er, snd er)"

abbreviation overflow_error :: stream_event where
  "overflow_error \<equiv> Report BufferOverflow ''Insufficient buffer space''"

definition after_resync :: "u8 list \<Rightarrow> u8 list" where
  "after_resync xs = (case resync xs of None \<Rightarrow> [] | Some ys \<Rightarrow> ys)"

text \<open>
  What a chunk does to the bytes held: the calls made, and the bytes held afterwards; \<open>None\<close>
  if the scanner gets stuck, so that \<open>feed\<close> does not return.
\<close>

definition scan_result :: "nat \<Rightarrow> u8 list \<Rightarrow> (stream_event list \<times> u8 list) option" where
  "scan_result szw xs = (if stuck szw (snd (scan szw xs)) then None else Some (scan szw xs))"

definition receive :: "nat \<Rightarrow> u8 list \<Rightarrow> u8 list \<Rightarrow> (stream_event list \<times> u8 list) option" where
  "receive szw xs chunk =
     (if length xs + length chunk \<le> kBufferCapacity then scan_result szw (xs @ chunk)
      else map_option (prepend [overflow_error, sync_attempt])
        (if length (after_resync xs) + length chunk \<le> kBufferCapacity
         then scan_result szw (after_resync xs @ chunk) else Some ([], after_resync xs)))"

lemma scan_result_wide: "33 \<le> szw \<Longrightarrow> scan_result szw xs = Some (scan szw xs)"
  by (simp add: scan_result_def not_stuck_wide)

lemma receive_wide: "33 \<le> szw \<Longrightarrow> receive szw xs chunk \<noteq> None"
  by (simp add: receive_def scan_result_wide del: not_None_eq)

definition fed ::
  "'w stream_processor \<Rightarrow> (stream_event list \<times> u8 list) option \<Rightarrow> 'w \<Rightarrow> ('w stream_processor \<times> 'w) option \<Rightarrow> bool" where
  "fed sp er w r \<longleftrightarrow>
     (case er of None \<Rightarrow> r = None
      | Some (evs, ys) \<Rightarrow> \<exists>sp'. r = Some (sp', fold (perform sp) evs w) \<and> holds sp sp' ys)"

lemma fed_prepend:
  assumes "holds sp sp1 ys" and "fed sp1 er (fold (perform sp) evs w) r"
  shows "fed sp (map_option (prepend evs) er) w r"
  using assms holds_trans [OF assms(1)]
  by (auto simp: fed_def prepend_def fold_perform_cong [OF assms(1)] split: option.splits)

lemma append_chunk_scan:
  assumes "32 \<le> szw" and "sp_ok sp" and "frameCallback sp = Some cb"
    and "n \<le> length mem" and "sp_size sp + n \<le> kBufferCapacity"
  shows "fed sp (scan_result szw (sp_contents sp @ take n mem)) w (append_chunk szw mem n sp w)"
proof -
  let ?b = "take (sp_size sp) (sp_buffer sp) @ take n mem @ drop (sp_size sp + n) (sp_buffer sp)"
  let ?sp = "sp\<lparr>sp_buffer := ?b, sp_size := sp_size sp + n\<rparr>"
  have len: "length (sp_buffer sp) = kBufferCapacity" "sp_size sp \<le> kBufferCapacity"
    using assms(2) by (simp_all add: sp_ok_def)
  have ok: "sp_ok ?sp" and con: "sp_contents ?sp = sp_contents sp @ take n mem"
    and cb: "frameCallback ?sp = Some cb"
    using assms len by (simp_all add: sp_ok_def sp_contents_def)
  have base: "holds sp ?sp (sp_contents ?sp)" using ok by (simp add: holds_def)
  have b: "write_at (sp_buffer sp) (sp_size sp) (take n mem) = Some ?b"
    using assms(4,5) len by (simp add: write_at_def)
  have "append_chunk szw mem n sp w = map_option snd (extractFrames szw ?sp w)"
    using assms(4) b by (simp add: append_chunk_def mem_simps split: bind_split)
  then show ?thesis
    using extractFrames_scan [OF assms(1) ok cb, of w] holds_trans [OF base]
    by (auto simp: scanned_def fed_def scan_result_def con fold_perform_cong [OF base] split: if_splits prod.split)
qed

lemma feed_receive:
  assumes "32 \<le> szw" and "sp_ok sp" and "frameCallback sp = Some cb"
    and "0 < n" and "n \<le> length mem"
  shows "fed sp (receive szw (sp_contents sp) (take n mem)) w (feed szw (Some mem) n sp w)"
proof (cases "sp_size sp + n \<le> kBufferCapacity")
  case True
  moreover from True assms have "\<not> n > kBufferCapacity - sp_size sp" by simp
  ultimately show ?thesis
    using append_chunk_scan [OF assms(1-3,5), of w] assms
    by (simp add: feed_def receive_def length_contents)
next
  case False
  let ?w = "fold (perform sp) [overflow_error, sync_attempt] w"
  have full: "n > kBufferCapacity - sp_size sp" using False assms(2) by (auto simp: sp_ok_def)
  obtain sp1 found where sync: "trySync sp (perform sp overflow_error w) = Some (found, sp1, ?w)"
    and h: "holds sp (if found then sp1 else sp1\<lparr>sp_size := 0\<rparr>) (after_resync (sp_contents sp))"
    using trySync_holds [OF assms(2), of "perform sp overflow_error w"] holds_empty [OF holds_self [OF assms(2)]]
    by (cases "resync (sp_contents sp)") (force simp: after_resync_def)+
  define sp2 where "sp2 = (if found then sp1 else sp1\<lparr>sp_size := 0\<rparr>)"
  note h = h [folded sp2_def]
  have sp2: "sp_ok sp2" "frameCallback sp2 = Some cb" "sp_contents sp2 = after_resync (sp_contents sp)"
    using h assms(3) by (simp_all add: holds_def)
  then have size2: "sp_size sp2 = length (after_resync (sp_contents sp))" "sp_size sp2 \<le> kBufferCapacity"
    using length_contents [OF sp2(1)] by (simp_all add: sp_ok_def)
  have f: "feed szw (Some mem) n sp w =
      (if n > kBufferCapacity - sp_size sp2 then Some (sp2, ?w) else append_chunk szw mem n sp2 ?w)"
    using assms(3,4) full sync by (simp add: feed_def sp2_def Let_def)
  show ?thesis
  proof (cases "sp_size sp2 + n \<le> kBufferCapacity")
    case fits: True
    then have "\<not> n > kBufferCapacity - sp_size sp2" by simp
    with fed_prepend [OF h append_chunk_scan [OF assms(1) sp2(1,2) assms(5) fits, of ?w]] f show ?thesis
      using False fits assms size2 sp2(3) by (simp add: receive_def length_contents)
  next
    case over: False
    then have "n > kBufferCapacity - sp_size sp2" using size2 by simp
    with f h show ?thesis
      using False over assms size2
      by (simp add: receive_def prepend_def length_contents fed_def)
  qed
qed


subsection \<open>What the scanner finds\<close>

primrec deliveries :: "stream_event list \<Rightarrow> u8 list list" where
  "deliveries [] = []"
| "deliveries (e # es) = (case e of Deliver p \<Rightarrow> p # deliveries es | Report t m \<Rightarrow> deliveries es)"

lemma deliveries_map_Deliver [simp]: "deliveries (map Deliver ps) = ps"
  by (induction ps) simp_all

text \<open>Whole frames are delivered in order and a part of the next is kept.\<close>

lemma scan_part:
  assumes "32 \<le> szw" and "wire.part_of part hs" and "wire.within hs"
  shows "scan szw part = ([], part)" and "\<not> stuck szw part"
proof -
  have "length part < 8 \<or> \<not> announced szw part > kBufferCapacity \<and> length part < announced szw part"
  proof (cases "length part < 8")
    case False
    then have "8 \<le> length part" by simp
    from wire.part_total [OF assms(2,3) this] obtain s p where
      p: "length p \<le> kMaxFrameSize" "frame_length part = length (data_frame s p)" "length part < length (data_frame s p)"
      by blast
    then have "announced szw part = frame_length part"
      by (intro announced_small assms(1)) (simp add: stream_consts)
    with p show ?thesis by (simp add: stream_consts)
  qed simp
  then show "scan szw part = ([], part)" "\<not> stuck szw part"
    by (auto simp: scan_short scan_waiting stuck_def)
qed

lemma announced_frame:
  assumes "32 \<le> szw" and "length p \<le> kMaxFrameSize"
  shows "announced szw (data_frame s p @ xs) = length (data_frame s p)"
proof -
  have "frame_length (data_frame s p @ xs) = length (data_frame s p)"
    using wire.total_append [OF wire.hdr_enc, of s p xs] wire.total_enc [OF assms(2), of s] by simp
  with announced_small [OF assms(1), of "data_frame s p @ xs"] assms(2) show ?thesis
    by (simp add: stream_consts)
qed

lemma scan_stream:
  assumes "32 \<le> szw" and "wire.within gs"
  shows "scan szw (wire.stream gs @ part) = (map (Deliver \<circ> snd) gs @ fst (scan szw part), snd (scan szw part))"
  using assms(2)
proof (induction gs)
  case Nil
  then show ?case by simp
next
  case (Cons g gs)
  obtain s p where g: "g = (s, p)" by force
  with Cons.prems have p: "length p \<le> kMaxFrameSize" and gs: "wire.within gs" by simp_all
  let ?xs = "data_frame s p @ (wire.stream gs @ part)"
  note n = announced_frame [OF assms(1) p]
  have "\<not> length ?xs < 8" "\<not> announced szw ?xs > kBufferCapacity"
    "\<not> (length ?xs < 12 \<or> length ?xs < announced szw ?xs)" "frame_ok (take (announced szw ?xs) ?xs)"
    using p wire.valid_enc [OF p, of s] unfolding n by (simp_all add: stream_consts)
  from scan_whole [OF this] Cons.IH [OF gs] show ?case
    unfolding n using wire.payload_enc [OF p, of s] by (simp add: g)
qed

lemma scan_result_stream:
  assumes "32 \<le> szw" and "wire.within gs" and "wire.part_of part hs" and "wire.within hs"
  shows "scan_result szw (wire.stream gs @ part) = Some (map (Deliver \<circ> snd) gs, part)"
  using scan_stream [OF assms(1,2), of part] scan_part [OF assms(1,3,4)] by (simp add: scan_result_def)

lemma frame_ok_prefix:
  assumes "frame_ok (take n xs)" and "n \<le> kBufferCapacity"
  obtains s where "take n xs = data_frame s (frame_payload (take n xs))"
    and "length (frame_payload (take n xs)) \<le> kMaxFrameSize"
proof -
  obtain s p where p: "length p < 2 ^ 32" "take n xs = data_frame s p"
    using assms(1) frame_ok_iff by blast
  have "length (take n xs) \<le> 4108" using assms(2) by (simp add: stream_consts)
  then have l: "length p \<le> kMaxFrameSize" unfolding p(2) by (simp add: size_consts)
  from that [of s] l show thesis
    unfolding p(2) by (simp add: wire.payload_enc)
qed

text \<open>Nothing is delivered that was not a whole frame of the bytes, and no byte is used twice.\<close>

definition segmented :: "u8 list \<Rightarrow> stream_event list \<times> u8 list \<Rightarrow> bool" where
  "segmented xs er \<longleftrightarrow> (\<exists>segs gap.
     xs = concat (map (\<lambda>(gap, s, p). gap @ data_frame s p) segs) @ gap @ snd er \<and>
     deliveries (fst er) = map (\<lambda>(gap, s, p). p) segs \<and>
     (\<forall>(gap, s, p) \<in> set segs. length p \<le> kMaxFrameSize))"

lemma segmented_none: "deliveries evs = [] \<Longrightarrow> segmented (gap @ r) (evs, r)"
  by (auto simp: segmented_def intro!: exI [of _ "[]"] exI [of _ gap])

lemma deliveries_append: "deliveries (es @ es') = deliveries es @ deliveries es'"
  by (induction es) (auto split: stream_event.split)

lemma segmented_skip:
  assumes "segmented ys er" and "deliveries evs = []"
  shows "segmented (zs @ ys) (evs @ fst er, snd er)"
proof -
  obtain segs gap where P: "ys = concat (map (\<lambda>(gap, s, p). gap @ data_frame s p) segs) @ gap @ snd er"
    "deliveries (fst er) = map (\<lambda>(gap, s, p). p) segs" "\<forall>(gap, s, p) \<in> set segs. length p \<le> kMaxFrameSize"
    using assms(1) unfolding segmented_def by blast
  show ?thesis
  proof (cases segs)
    case Nil
    with P assms(2) show ?thesis
      unfolding segmented_def by (intro exI [of _ "[]"] exI [of _ "zs @ gap"]) (simp add: deliveries_append)
  next
    case (Cons a segs')
    obtain g s p where "a = (g, s, p)" by (cases a)
    with P Cons assms(2) show ?thesis
      unfolding segmented_def
      by (intro exI [of _ "(zs @ g, s, p) # segs'"] exI [of _ gap]) (simp add: deliveries_append)
  qed
qed

lemma segmented_frame:
  assumes "segmented ys er" and "length p \<le> kMaxFrameSize"
  shows "segmented (data_frame s p @ ys) (Deliver p # fst er, snd er)"
proof -
  obtain segs gap where "ys = concat (map (\<lambda>(gap, s, p). gap @ data_frame s p) segs) @ gap @ snd er"
    "deliveries (fst er) = map (\<lambda>(gap, s, p). p) segs" "\<forall>(gap, s, p) \<in> set segs. length p \<le> kMaxFrameSize"
    using assms(1) unfolding segmented_def by blast
  with assms(2) show ?thesis
    unfolding segmented_def by (intro exI [of _ "([], s, p) # segs"] exI [of _ gap]) simp
qed

lemma scan_segments: "segmented xs (scan szw xs)"
proof (induction "length xs" arbitrary: xs rule: less_induct)
  case less
  let ?n = "announced szw xs"
  have stop: "segmented xs ([], xs)" using segmented_none [of "[]" "[]" xs] by simp
  have step: "segmented xs (evs @ fst (scan szw ys), snd (scan szw ys))"
    if "xs = zs @ ys" "length ys < length xs" "deliveries evs = []" for evs zs ys
    using segmented_skip [OF less [OF that(2)] that(3), of zs] that(1) by simp
  show ?case
  proof (cases rule: scan_cases [where xs = xs and szw = szw])
    case oversize
    show ?thesis
    proof (cases "resync xs")
      case None
      then show ?thesis using segmented_none [of "[size_error, sync_attempt]" xs "[]"] by (simp add: scan_oversize [OF oversize])
    next
      case (Some ys)
      from resync_SomeD [OF Some] obtain zs where "xs = zs @ ys" by blast
      from step [OF this resync_length [OF Some], of "[size_error, sync_attempt]"] Some show ?thesis
        by (simp add: scan_oversize [OF oversize])
    qed
  next
    case whole
    obtain s where s: "take ?n xs = data_frame s (frame_payload (take ?n xs))" "length (frame_payload (take ?n xs)) \<le> kMaxFrameSize"
      using frame_ok_prefix [OF whole(4)] whole(2) by (metis not_less)
    have "length (drop ?n xs) < length xs" using whole(3) frame_ok_nonempty [OF whole(4)] by auto
    from segmented_frame [OF less [OF this] s(2), of s, folded s(1)] show ?thesis
      by (simp add: scan_whole [OF whole])
  next
    case bad
    let ?ys = "case resync xs of Some ys \<Rightarrow> ys | None \<Rightarrow> drop ?n xs"
    have "\<exists>zs. xs = zs @ ?ys"
      by (cases "resync xs") (auto dest: resync_SomeD intro: exI [of _ "take ?n xs"])
    moreover have "length ?ys < length xs"
      using bad(3,5) by (auto simp: stuck_def resync_length split: option.splits)
    ultimately show ?thesis using step [of _ ?ys "[crc_error, sync_attempt]"] by (auto simp: scan_bad [OF bad refl])
  qed (use stop in \<open>simp_all add: scan_short scan_waiting scan_stuck\<close>)
qed

lemma scan_idle: "scan szw (snd (scan szw xs)) = ([], snd (scan szw xs))"
proof (induction "length xs" arbitrary: xs rule: less_induct)
  case less
  show ?case
  proof (cases rule: scan_cases [where xs = xs and szw = szw])
    case oversize
    then show ?thesis
      by (cases "resync xs") (simp_all add: scan_oversize scan_short less resync_length)
  next
    case whole
    have "length (drop (announced szw xs) xs) < length xs" using whole(3) frame_ok_nonempty [OF whole(4)] by auto
    from less [OF this] show ?thesis by (simp add: scan_whole [OF whole])
  next
    case bad
    have "length (case resync xs of Some ys \<Rightarrow> ys | None \<Rightarrow> drop (announced szw xs) xs) < length xs"
      using bad(3,5) by (auto simp: stuck_def resync_length split: option.splits)
    from less [OF this] show ?thesis by (simp add: scan_bad [OF bad refl])
  qed (simp_all add: scan_short scan_waiting scan_stuck)
qed

text \<open>Bytes before a run of frames, none of them a protocol version byte, are skipped.\<close>

lemma resync_garbage:
  assumes "g \<noteq> []" and "1 \<notin> set g" and "ys \<noteq> []" and "hd ys = 1"
  shows "resync (g @ ys) = Some ys"
proof -
  have "dropWhile (\<lambda>b. b \<noteq> 1) (tl g @ ys) = dropWhile (\<lambda>b. b \<noteq> 1) ys"
    using assms(1,2) by (intro dropWhile_append2) (auto dest: list.set_sel(2))
  also have "\<dots> = ys" using assms(3,4) by (cases ys) simp_all
  finally show ?thesis using assms by (simp add: resync_def split: list.splits)
qed

lemma data_frame_Cons: "\<exists>t. data_frame s p = 1 # t"
  by (simp add: frame_bytes_def frame_header_def frame_consts)

lemma scan_garbage:
  assumes "32 \<le> szw" and "g \<noteq> []" and "1 \<notin> set g" and "wire.within fs" and "fs \<noteq> []"
    and "wire.part_of part hs" and "wire.within hs" and "xs = g @ wire.stream fs @ part"
    and "announced szw xs \<le> length xs \<or> announced szw xs > kBufferCapacity"
  shows "\<exists>evs. scan_result szw xs = Some (evs, part) \<and> deliveries evs = map snd fs"
proof -
  let ?ys = "wire.stream fs @ part"
  obtain s p fs' where fs: "fs = (s, p) # fs'" using assms(5) by (cases fs) auto
  obtain t where t: "?ys = 1 # t" using data_frame_Cons [of s p] fs by auto
  have "?ys \<noteq> []" "hd ?ys = 1" by (simp_all only: t list.distinct list.sel not_False_eq_True)
  then have rs: "resync xs = Some ?ys" unfolding assms(8) by (rule resync_garbage [OF assms(2,3)])
  have sc: "scan szw ?ys = (map (Deliver \<circ> snd) fs, part)"
    using scan_stream [OF assms(1,4), of part] scan_part [OF assms(1,6,7)] by simp
  have del: "deliveries (map (Deliver \<circ> snd) fs) = map snd fs"
    using deliveries_map_Deliver [of "map snd fs"] by simp
  have long: "\<not> length xs < 8" "\<not> length xs < 12" using fs assms(8) by simp_all
  have bad: "\<not> frame_ok (take (announced szw xs) xs)"
  proof
    assume ok: "frame_ok (take (announced szw xs) xs)"
    then obtain s' p' where "take (announced szw xs) xs = data_frame s' p'"
      using frame_ok_iff by blast
    with data_frame_Cons [of s' p'] obtain t where "take (announced szw xs) xs = 1 # t" by auto
    moreover obtain g0 g' where "g = g0 # g'" using assms(2) by (cases g) auto
    ultimately show False
      using assms(3,8) frame_ok_nonempty [OF ok] by (cases "announced szw xs") auto
  qed
  have ns: "\<not> stuck szw xs" using rs by (simp add: stuck_def)
  have end_ok: "\<not> stuck szw part" by (rule scan_part [OF assms(1,6,7)])
  show ?thesis
  proof (cases "announced szw xs > kBufferCapacity")
    case True
    from scan_oversize [OF long(1) this] rs sc del end_ok show ?thesis
      by (simp add: scan_result_def)
  next
    case False
    then have "\<not> (length xs < 12 \<or> length xs < announced szw xs)" using assms(9) long by linarith
    from scan_bad [OF long(1) False this bad ns refl] rs sc del end_ok show ?thesis
      by (simp add: scan_result_def)
  qed
qed

subsection \<open>Streams cut into chunks\<close>

primrec feed_chunks :: "nat \<Rightarrow> u8 list list \<Rightarrow> 'w stream_processor \<Rightarrow> 'w \<Rightarrow> ('w stream_processor \<times> 'w) option" where
  "feed_chunks szw [] sp w = Some (sp, w)"
| "feed_chunks szw (c # cs) sp w = do {
     (sp1, w1) \<leftarrow> feed szw (Some c) (length c) sp w;
     feed_chunks szw cs sp1 w1
   }"

text \<open>A chunk that fits completes some frames and leaves a part of the next.\<close>

lemma receive_chunk:
  assumes "32 \<le> szw" and "held @ chunk @ rest = wire.stream fs" and "wire.within fs"
    and "length held + length chunk \<le> kBufferCapacity"
  obtains gs hs part where "fs = gs @ hs" and "receive szw held chunk = Some (map (Deliver \<circ> snd) gs, part)"
    and "wire.part_of part hs" and "part @ rest = wire.stream hs"
proof -
  have eq: "(held @ chunk) @ rest = wire.stream fs" using assms(2) by simp
  obtain gs hs part where s: "fs = gs @ hs" "held @ chunk = wire.stream gs @ part"
    "part @ rest = wire.stream hs" "wire.part_of part hs"
    using wire.split_stream [OF eq] by blast
  have within: "wire.within gs" "wire.within hs" using assms(3) s(1) by simp_all
  have "receive szw held chunk = scan_result szw (wire.stream gs @ part)"
    using assms(4) s(2) by (simp add: receive_def)
  also have "\<dots> = Some (map (Deliver \<circ> snd) gs, part)"
    by (rule scan_result_stream [OF assms(1) within(1) s(4) within(2)])
  finally show thesis using that s by blast
qed

lemma part_length:
  assumes "wire.part_of part hs" and "\<forall>(s, p) \<in> set hs. length p \<le> m"
  shows "length part < 12 + m"
  by (rule wire.length_part [OF assms(1)]) (use assms(2) in auto)

lemma feed_chunks_stream:
  assumes "32 \<le> szw" and "m \<le> kMaxFrameSize"
    and "\<forall>(s, p) \<in> set fs. length p \<le> m" and "\<forall>c \<in> set cs. m + length c \<le> kMaxFrameSize + 1"
    and "sp_contents sp @ concat cs = wire.stream fs" and "wire.part_of (sp_contents sp) fs"
    and "sp_ok sp" and "frameCallback sp = Some cb"
  shows "\<exists>sp'. feed_chunks szw cs sp w = Some (sp', fold cb (map snd fs) w) \<and> holds sp sp' []"
  using assms(3-)
proof (induction cs arbitrary: fs sp w)
  case Nil
  then have "sp_contents sp = wire.stream fs" by simp
  moreover have fs: "wire.within fs" using Nil.prems(1) assms(2) by (force simp: wire.within_def)
  ultimately have "scan szw (sp_contents sp) = (map (Deliver \<circ> snd) fs, [])" "scan szw (sp_contents sp) = ([], sp_contents sp)"
    using scan_stream [OF assms(1) fs, of "[]"] scan_part [OF assms(1) Nil.prems(4) fs] by (simp_all add: scan_short)
  then have "fs = []" "sp_contents sp = []" by simp_all
  with Nil.prems holds_self [of sp] show ?case by simp
next
  case (Cons c cs)
  note ok = Cons.prems(5) and cb = Cons.prems(6)
  have fs: "wire.within fs" using Cons.prems(1) assms(2) by (force simp: wire.within_def)
  show ?case
  proof (cases "c = []")
    case True
    then have "feed szw (Some c) (length c) sp w = Some (sp, w)" by (simp add: feed_def)
    with True Cons.IH [of fs sp w] Cons.prems show ?thesis by simp
  next
    case False
    have "length (sp_contents sp) < 12 + m" using part_length [OF Cons.prems(4,1)] .
    moreover have "m + length c \<le> kMaxFrameSize + 1" using Cons.prems(2) by simp
    ultimately have fits: "length (sp_contents sp) + length c \<le> kBufferCapacity"
      by (simp add: stream_consts)
    obtain gs hs part where s: "fs = gs @ hs" "receive szw (sp_contents sp) c = Some (map (Deliver \<circ> snd) gs, part)"
      "wire.part_of part hs" "part @ concat cs = wire.stream hs"
      using receive_chunk [OF assms(1) _ fs fits, of "concat cs"] Cons.prems(3) by auto
    obtain sp1 where f: "feed szw (Some c) (length c) sp w =
        Some (sp1, fold (perform sp) (map (Deliver \<circ> snd) gs) w)" and h: "holds sp sp1 part"
      using feed_receive [OF assms(1) ok cb, of "length c" c w] False s(2) by (auto simp: fed_def)
    have w1: "fold (perform sp) (map (Deliver \<circ> snd) gs) w = fold cb (map snd gs) w"
      using cb by (induction gs arbitrary: w) simp_all
    have "\<exists>sp'. feed_chunks szw cs sp1 (fold cb (map snd gs) w) =
        Some (sp', fold cb (map snd hs) (fold cb (map snd gs) w)) \<and> holds sp1 sp' []"
      using h cb s Cons.prems(1,2) by (intro Cons.IH) (auto simp: holds_def)
    with f w1 s(1) h show ?thesis by (auto dest: holds_trans)
  qed
qed


subsection \<open>Runs of the public operations\<close>

datatype 'w stream_op =
    Feed ptr nat
  | Reset
  | SetFrameCallback "(u8 list \<Rightarrow> 'w \<Rightarrow> 'w) option"
  | SetErrorCallback "(int \<Rightarrow> string \<Rightarrow> 'w \<Rightarrow> 'w) option"

fun readable_op :: "'w stream_op \<Rightarrow> bool" where
  "readable_op (Feed data n) = readable data n"
| "readable_op op = True"

fun stream_op_result :: "nat \<Rightarrow> 'w stream_op \<Rightarrow> 'w stream_processor \<times> 'w \<Rightarrow> ('w stream_processor \<times> 'w) option" where
  "stream_op_result szw (Feed data n) (sp, w) = feed szw data n sp w"
| "stream_op_result szw Reset (sp, w) = Some (sp_reset sp, w)"
| "stream_op_result szw (SetFrameCallback cb) (sp, w) = Some (setFrameCallback cb sp, w)"
| "stream_op_result szw (SetErrorCallback cb) (sp, w) = Some (setErrorCallback cb sp, w)"

text \<open>A step of a run; \<open>None\<close> once a call has not returned.\<close>

definition stream_step :: "nat \<Rightarrow> 'w stream_op \<Rightarrow> ('w stream_processor \<times> 'w) option \<Rightarrow> ('w stream_processor \<times> 'w) option" where
  "stream_step szw op s = (if readable_op op then do { s1 \<leftarrow> s; stream_op_result szw op s1 } else s)"

lemma sp_ok_new: "sp_ok (StreamProcessor wr)"
  by (simp add: sp_ok_def StreamProcessor_def)

lemma sp_contents_new [simp]: "sp_contents (StreamProcessor wr) = []"
  by (simp add: sp_contents_def StreamProcessor_def)

lemma sp_setters [simp]:
  "sp_ok (setFrameCallback cb sp) = sp_ok sp"
  "sp_ok (setErrorCallback ecb sp) = sp_ok sp"
  "sp_contents (setFrameCallback cb sp) = sp_contents sp"
  "sp_contents (setErrorCallback ecb sp) = sp_contents sp"
  "frameCallback (setFrameCallback cb sp) = cb"
  "errorCallback (setErrorCallback ecb sp) = ecb"
  "frameCallback (setErrorCallback ecb sp) = frameCallback sp"
  by (simp_all add: setFrameCallback_def setErrorCallback_def sp_ok_def sp_contents_def)

lemma sp_ok_reset: "sp_ok sp \<Longrightarrow> sp_ok (sp_reset sp)"
  by (simp add: sp_reset_def sp_ok_def)

lemma feed_trivial:
  "feed szw None n sp w = Some (sp, w)"
  "feed szw (Some mem) 0 sp w = Some (sp, w)"
  "frameCallback sp = None \<Longrightarrow> 0 < n \<Longrightarrow>
     feed szw (Some mem) n sp w = Some (sp, reportError sp InvalidHeader ''Frame callback not registered'' w)"
  by (simp_all add: feed_def)

lemma feed_safe:
  assumes "32 \<le> szw" and "sp_ok sp" and "readable data n"
  shows "case feed szw data n sp w of None \<Rightarrow> szw = 32 | Some (sp', w') \<Rightarrow> sp_ok sp'"
proof (cases "data = None \<or> n = 0 \<or> frameCallback sp = None")
  case True
  with assms(2) show ?thesis by (cases data; cases "n = 0") (auto simp: feed_trivial)
next
  case False
  then obtain mem cb where "data = Some mem" "0 < n" "frameCallback sp = Some cb" by auto
  moreover from this assms(3) have "n \<le> length mem" by (simp add: readable_def)
  ultimately have "fed sp (receive szw (sp_contents sp) (take n mem)) w (feed szw data n sp w)"
    using feed_receive [OF assms(1,2), of cb n mem w] by simp
  moreover have "szw = 32" if "receive szw (sp_contents sp) (take n mem) = None"
    using receive_wide [of szw "sp_contents sp" "take n mem"] that assms(1) by fastforce
  ultimately show ?thesis by (auto simp: holds_def fed_def split: option.splits)
qed

interpretation streams: invariant_run "stream_step szw"
  "\<lambda>s. 32 \<le> szw \<longrightarrow> (case s of None \<Rightarrow> szw = 32 | Some (sp, w) \<Rightarrow> sp_ok sp)"
proof
  fix s :: "('w stream_processor \<times> 'w) option" and x
  assume inv: "32 \<le> szw \<longrightarrow> (case s of None \<Rightarrow> szw = 32 | Some (sp, w) \<Rightarrow> sp_ok sp)"
  show "32 \<le> szw \<longrightarrow> (case stream_step szw x s of None \<Rightarrow> szw = 32 | Some (sp, w) \<Rightarrow> sp_ok sp)"
  proof (cases s)
    case None
    with inv show ?thesis by (simp add: stream_step_def)
  next
    case (Some s1)
    then obtain sp w where s: "s = Some (sp, w)" by (cases s1) auto
    with inv feed_safe [of szw sp _ _ w] show ?thesis
      by (cases x) (auto simp: stream_step_def sp_ok_reset)
  qed
qed

subsection \<open>The loop pass by pass\<close>

text \<open>The state of the loop after at most \<open>k\<close> passes.\<close>

primrec extract_passes ::
  "nat \<Rightarrow> nat \<Rightarrow> bool \<times> 'w stream_processor \<times> 'w \<Rightarrow> (bool \<times> 'w stream_processor \<times> 'w) iteration option" where
  "extract_passes szw 0 s = Some (Continue s)"
| "extract_passes szw (Suc k) s = do {
     r \<leftarrow> extract_iteration szw s;
     case r of Break s' \<Rightarrow> Some (Break s') | Continue s' \<Rightarrow> extract_passes szw k s'
   }"

text \<open>No pass accesses memory outside the buffer.\<close>

lemma iteration_safe:
  assumes "32 \<le> szw" and "sp_ok sp" and "frameCallback sp = Some cb"
  shows "\<exists>any' sp' w'. sp_ok sp' \<and> frameCallback sp' = Some cb \<and>
    extract_iteration szw (any, sp, w) \<in> {Some (Break (any', sp', w')), Some (Continue (any', sp', w'))}"
proof -
  let ?xs = "sp_contents sp" and ?n = "announced szw (sp_contents sp)"
  have len: "length ?xs = sp_size sp" using assms(2) by (rule length_contents)
  have cb: "holds sp sp' ys \<Longrightarrow> sp_ok sp' \<and> frameCallback sp' = Some cb" for sp' ys
    using assms(3) by (simp add: holds_def)
  consider "sp_size sp < 8" | "8 \<le> sp_size sp" "?n > kBufferCapacity"
    | "8 \<le> sp_size sp" "\<not> ?n > kBufferCapacity" "sp_size sp < 12 \<or> sp_size sp < ?n"
    | "8 \<le> sp_size sp" "\<not> ?n > kBufferCapacity" "\<not> (sp_size sp < 12 \<or> sp_size sp < ?n)"
    by linarith
  then show ?thesis
  proof cases
    case 1
    with assms show ?thesis by (auto simp: iteration_short)
  next
    case 2
    note it = iteration_oversize [OF assms(2) 2, of any w]
    show ?thesis
    proof (cases "resync ?xs")
      case None
      with it cb [OF holds_empty [OF holds_self [OF assms(2)]]] show ?thesis by simp
    next
      case (Some ys)
      with it obtain sp' where "holds sp sp' ys" "extract_iteration szw (any, sp, w) =
          Some (Continue (any, sp', fold (perform sp) [size_error, sync_attempt] w))" by auto
      with cb show ?thesis by blast
    qed
  next
    case 3
    with assms show ?thesis by (auto simp: iteration_waiting)
  next
    case 4
    show ?thesis
    proof (cases "frame_ok (take ?n ?xs)")
      case True
      from iteration_whole [OF assms(2) 4(1) assms(1,3) refl 4(2,3) True, of any w] cb show ?thesis by blast
    next
      case False
      then have "HandleIncoming szw (Some (sp_buffer sp)) ?n (Some (dataHandler sp)) w = Some (False, w)"
        using handle_front [OF assms(2,3,1), of ?n w] 4 by simp
      from iteration_bad [OF assms(2) 4(1) refl 4(2,3) this, of any] cb show ?thesis by blast
    qed
  qed
qed

lemma passes_safe:
  assumes "32 \<le> szw" and "sp_ok sp" and "frameCallback sp = Some cb"
  shows "extract_passes szw k (any, sp, w) \<noteq> None"
  using assms(2,3)
proof (induction k arbitrary: any sp w)
  case (Suc k)
  from iteration_safe [OF assms(1) Suc.prems, of any w] Suc.IH show ?case by fastforce
qed simp

text \<open>
  \<open>feed\<close> up to \<open>k\<close> passes of its loop: \<open>Break\<close> if it has returned by then, \<open>Continue\<close> if it is
  still running, \<open>None\<close> if it has accessed memory outside the buffer and the chunk.
\<close>

definition append_upto ::
  "nat \<Rightarrow> nat \<Rightarrow> u8 list \<Rightarrow> nat \<Rightarrow> 'w stream_processor \<Rightarrow> 'w \<Rightarrow> (bool \<times> 'w stream_processor \<times> 'w) iteration option" where
  "append_upto szw k mem n sp w = do {
     bs \<leftarrow> read_at mem 0 n;
     b \<leftarrow> write_at (sp_buffer sp) (sp_size sp) bs;
     extract_passes szw k (False, sp\<lparr>sp_buffer := b, sp_size := sp_size sp + n\<rparr>, w)
   }"

definition feed_upto ::
  "nat \<Rightarrow> nat \<Rightarrow> ptr \<Rightarrow> nat \<Rightarrow> 'w stream_processor \<Rightarrow> 'w \<Rightarrow> (bool \<times> 'w stream_processor \<times> 'w) iteration option" where
  "feed_upto szw k data n sp w =
     (case data of
        None \<Rightarrow> Some (Break (False, sp, w))
      | Some mem \<Rightarrow>
          if n = 0 then Some (Break (False, sp, w))
          else if frameCallback sp = None
          then Some (Break (False, sp, reportError sp InvalidHeader ''Frame callback not registered'' w))
          else if n > kBufferCapacity - sp_size sp then do {
            let w1 = reportError sp BufferOverflow ''Insufficient buffer space'' w;
            (found, sp1, w2) \<leftarrow> trySync sp w1;
            let sp2 = (if found then sp1 else sp1\<lparr>sp_size := 0\<rparr>);
            if n > kBufferCapacity - sp_size sp2 then Some (Break (False, sp2, w2))
            else append_upto szw k mem n sp2 w2
          }
          else append_upto szw k mem n sp w)"

lemma extract_loop_passes:
  "extract_loop szw s = Some y \<Longrightarrow> \<exists>k. extract_passes szw k s = Some (Break y)"
proof (rule extract_loop.raw_induct)
  fix loop :: "nat \<Rightarrow> bool \<times> 'a stream_processor \<times> 'a \<Rightarrow> (bool \<times> 'a stream_processor \<times> 'a) option" and szw s y
  assume ih: "\<And>szw s y. loop szw s = Some y \<Longrightarrow> \<exists>k. extract_passes szw k s = Some (Break y)"
    and body: "do { r \<leftarrow> extract_iteration szw s; case r of Break s' \<Rightarrow> Some s' | Continue s' \<Rightarrow> loop szw s' } = Some y"
  show "\<exists>k. extract_passes szw k s = Some (Break y)"
  proof (cases "extract_iteration szw s")
    case None
    with body show ?thesis by simp
  next
    case (Some r)
    show ?thesis
    proof (cases r)
      case (Break s')
      with Some body show ?thesis by (intro exI [of _ "Suc 0"]) simp
    next
      case (Continue s')
      with Some body have "loop szw s' = Some y" by simp
      from ih [OF this] obtain k where "extract_passes szw k s' = Some (Break y)" ..
      with Some Continue show ?thesis by (intro exI [of _ "Suc k"]) simp
    qed
  qed
qed

lemma passes_extract_loop:
  "extract_passes szw k s = Some (Break y) \<Longrightarrow> extract_loop szw s = Some y"
proof (induction k arbitrary: s)
  case (Suc k)
  from Suc.prems obtain r where r: "extract_iteration szw s = Some r"
    "(case r of Break s' \<Rightarrow> Some (Break s') | Continue s' \<Rightarrow> extract_passes szw k s') = Some (Break y)"
    by (auto simp: bind_eq_Some_conv)
  then show ?case
    using Suc.IH extract_loop_break [of szw s] extract_loop_continue [of szw s] by (cases r) simp_all
qed simp

lemma append_chunk_upto:
  "append_chunk szw mem n sp w = Some s \<longleftrightarrow> (\<exists>k any. append_upto szw k mem n sp w = Some (Break (any, s)))"
proof (cases "do { bs \<leftarrow> read_at mem 0 n; write_at (sp_buffer sp) (sp_size sp) bs }")
  case None
  then show ?thesis by (auto simp: append_chunk_def append_upto_def bind_eq_Some_conv)
next
  case (Some b)
  define s0 where "s0 = (False, sp\<lparr>sp_buffer := b, sp_size := sp_size sp + n\<rparr>, w)"
  have "append_chunk szw mem n sp w = map_option snd (extract_loop szw s0)"
    and "append_upto szw k mem n sp w = extract_passes szw k s0" for k
    using Some by (auto simp: append_chunk_def append_upto_def extractFrames_def s0_def bind_eq_Some_conv split: bind_splits)
  moreover have "extract_loop szw s0 = Some (any, s) \<longleftrightarrow> (\<exists>k. extract_passes szw k s0 = Some (Break (any, s)))" for any
    by (blast intro: extract_loop_passes passes_extract_loop)
  moreover have "append_chunk szw mem n sp w = Some s \<longleftrightarrow> (\<exists>any. extract_loop szw s0 = Some (any, s))"
    by (cases s) (auto simp: calculation(1))
  ultimately show ?thesis by auto
qed

lemma feed_iff_upto:
  "feed szw data n sp w = Some s \<longleftrightarrow> (\<exists>k any. feed_upto szw k data n sp w = Some (Break (any, s)))"
  by (auto simp: feed_def feed_upto_def append_chunk_upto Let_def split: option.splits prod.splits bind_split)

lemma append_upto_safe:
  assumes "32 \<le> szw" and "sp_ok sp" and "frameCallback sp = Some cb" and "n \<le> length mem" and "sp_size sp + n \<le> kBufferCapacity"
  shows "append_upto szw k mem n sp w \<noteq> None"
proof -
  let ?b = "take (sp_size sp) (sp_buffer sp) @ take n mem @ drop (sp_size sp + n) (sp_buffer sp)"
  have len: "length (sp_buffer sp) = kBufferCapacity" "sp_size sp \<le> kBufferCapacity"
    using assms(2) by (simp_all add: sp_ok_def)
  then have "write_at (sp_buffer sp) (sp_size sp) (take n mem) = Some ?b"
    using assms(4,5) by (simp add: write_at_def)
  moreover have "sp_ok (sp\<lparr>sp_buffer := ?b, sp_size := sp_size sp + n\<rparr>)"
    using assms len by (simp add: sp_ok_def)
  ultimately show ?thesis
    using assms(1,3,4) passes_safe [of szw "sp\<lparr>sp_buffer := ?b, sp_size := sp_size sp + n\<rparr>" cb k False w]
    by (simp add: append_upto_def mem_simps del: not_None_eq)
qed

lemma feed_upto_safe:
  assumes "32 \<le> szw" and "sp_ok sp" and "readable data n"
  shows "feed_upto szw k data n sp w \<noteq> None"
proof (cases "data = None \<or> n = 0 \<or> frameCallback sp = None")
  case True
  then show ?thesis by (cases data) (auto simp: feed_upto_def)
next
  case False
  then obtain mem cb where d: "data = Some mem" "0 < n" "frameCallback sp = Some cb" by auto
  with assms(3) have n: "n \<le> length mem" by (simp add: readable_def)
  show ?thesis
  proof (cases "n > kBufferCapacity - sp_size sp")
    case False
    with assms(2) have "sp_size sp + n \<le> kBufferCapacity" unfolding sp_ok_def by linarith
    with append_upto_safe [OF assms(1,2) d(3) n] d False show ?thesis by (simp add: feed_upto_def del: not_None_eq)
  next
    case True
    obtain sp1 found w2 where sync: "trySync sp (reportError sp BufferOverflow ''Insufficient buffer space'' w) = Some (found, sp1, w2)"
      and h: "\<exists>ys. holds sp (if found then sp1 else sp1\<lparr>sp_size := 0\<rparr>) ys"
      using trySync_holds [OF assms(2), of "reportError sp BufferOverflow ''Insufficient buffer space'' w"]
        holds_empty [OF holds_self [OF assms(2)]]
      by (cases "resync (sp_contents sp)") force+
    define sp2 where "sp2 = (if found then sp1 else sp1\<lparr>sp_size := 0\<rparr>)"
    have sp2: "sp_ok sp2" "frameCallback sp2 = Some cb"
      using h d(3) unfolding sp2_def [symmetric] by (auto simp: holds_def)
    have "feed_upto szw k data n sp w =
        (if n > kBufferCapacity - sp_size sp2 then Some (Break (False, sp2, w2)) else append_upto szw k mem n sp2 w2)"
      using d True sync by (simp add: feed_upto_def sp2_def Let_def)
    moreover have "sp_size sp2 + n \<le> kBufferCapacity" if "\<not> n > kBufferCapacity - sp_size sp2"
      using that sp2(1) unfolding sp_ok_def by linarith
    ultimately show ?thesis using append_upto_safe [OF assms(1) sp2 n] by (simp del: not_None_eq)
  qed
qed

lemma passes_stuck:
  assumes "sp_ok sp" and "stuck szw (sp_contents sp)"
  shows "\<exists>sp' w'. extract_passes szw k (any, sp, w) = Some (Continue (any, sp', w'))"
  using assms
proof (induction k arbitrary: sp w)
  case (Suc k)
  obtain sp' w' where it: "extract_iteration szw (any, sp, w) = Some (Continue (any, sp', w'))"
    and h: "holds sp sp' (sp_contents sp)"
    using iteration_stuck [OF Suc.prems] by blast
  then show ?case using Suc.IH [of sp' w'] Suc.prems(2) by (simp add: holds_def)
qed simp

text \<open>At 32 bits this is a header that declares \<open>2\<^sup>3\<^sup>2 - 12\<close> payload bytes, and no other version byte.\<close>

lemma resync_None: "1 \<notin> set (tl xs) \<Longrightarrow> resync xs = None"
proof (cases "resync xs")
  case (Some ys)
  then obtain zs where zs: "zs \<noteq> []" "xs = zs @ ys" "ys \<noteq> []" "hd ys = 1"
    using resync_SomeD by blast
  then have "1 \<in> set (tl xs)" by (metis hd_in_set in_set_conv_decomp tl_append2 append_assoc)
  moreover assume "1 \<notin> set (tl xs)"
  ultimately show ?thesis by simp
qed

lemma stuck_32: "stuck 32 xs \<longleftrightarrow> 12 \<le> length xs \<and> declared_size xs = 0xFFFFFFF4 \<and> 1 \<notin> set (tl xs)"
proof -
  have "announced 32 xs = 0 \<longleftrightarrow> declared_size xs = 0xFFFFFFF4"
  proof
    assume zero: "announced 32 xs = 0"
    have "unat (declared_size xs) < 2 ^ 32" using unsigned_less [of "declared_size xs", where 'a = nat] by simp
    have eq: "(12 + unat (declared_size xs)) mod 2 ^ 32 = 0"
      using zero by (simp add: announced_def frame_total_def size_consts ac_simps)
    have "unat (declared_size xs) = 0xFFFFFFF4"
    proof (cases "12 + unat (declared_size xs) < 2 ^ 32")
      case True
      with eq show ?thesis by (simp only: mod_less)
    next
      case False
      with eq \<open>unat (declared_size xs) < 2 ^ 32\<close> show ?thesis by (simp add: le_mod_geq)
    qed
    then have "of_nat (unat (declared_size xs)) = (of_nat 0xFFFFFFF4 :: u32)" by (simp only:)
    then show "declared_size xs = 0xFFFFFFF4" by simp
  qed (simp add: announced_def frame_total_def size_consts)
  then show ?thesis using resync_NoneD [of xs] resync_None [of xs] by (auto simp: stuck_def)
qed

subsection \<open>Properties\<close>

text \<open>
  C2. Refinement: with a frame callback registered, for any width of \<open>size_t\<close> from 32 bits on,
  \<open>feed\<close> touches only its buffer, makes exactly the callback calls the scanner of byte lists
  lists, in that order, and keeps exactly the bytes the scanner keeps; or the scanner gets stuck
  and \<open>feed\<close> does not return. The buffer array, its stale bytes and the moves within it are not
  visible. This covers the overflow branch too.
\<close>

theorem feed_refines_scanner:
  assumes "32 \<le> szw" and "sp_ok sp" and "frameCallback sp = Some cb" and "0 < n" and "n \<le> length mem"
  shows "case receive szw (sp_contents sp) (take n mem) of
      None \<Rightarrow> feed szw (Some mem) n sp w = None
    | Some (evs, ys) \<Rightarrow> \<exists>sp'. feed szw (Some mem) n sp w = Some (sp', fold (perform sp) evs w) \<and> holds sp sp' ys"
  using feed_receive [OF assms, of w] by (simp add: fed_def)

theorem feed_refines_scanner_witness:
  "\<exists>sp'. feed 32 (Some [1, 0]) 2 (setFrameCallback (Some (#)) (StreamProcessor None)) [] = Some (sp', [])
     \<and> sp_contents sp' = [1, 0]"
proof -
  let ?sp = "setFrameCallback (Some (#)) (StreamProcessor None)"
  have "receive 32 (sp_contents ?sp) (take 2 [1, 0]) = Some ([], [1, 0])"
    by (simp add: receive_def scan_result_def stream_consts scan_short not_stuck_short)
  with feed_refines_scanner [of 32 ?sp "(#)" 2 "[1, 0]" "[]"] show ?thesis
    by (auto simp: sp_ok_new holds_def)
qed

text \<open>
  C4. Reassembly: a stream of frames whose payloads have at most \<open>m\<close> bytes, cut at any places into
  chunks of at most \<open>4097 - m\<close> bytes each (empty ones included), fed to a processor that
  holds nothing, runs the frame callback on exactly the payloads sent, in order, makes no
  error report, and leaves the buffer empty. \<open>size_t\<close> may have 32 bits or more. The bound is what
  lets every chunk fit behind a part of a frame; a larger chunk can overflow the buffer and cost the
  frame at its front, which the overflow property below makes precise.
\<close>

theorem feed_reassembles_stream:
  assumes "32 \<le> szw" and "m \<le> kMaxFrameSize"
    and "\<forall>(s, p) \<in> set fs. length p \<le> m" and "\<forall>c \<in> set cs. m + length c \<le> kMaxFrameSize + 1"
    and "concat cs = wire.stream fs"
    and "sp_ok sp" and "sp_contents sp = []" and "frameCallback sp = Some cb"
  shows "\<exists>sp'. feed_chunks szw cs sp w = Some (sp', fold cb (map snd fs) w) \<and> sp_ok sp' \<and> getBufferUsage sp' = 0"
proof -
  obtain sp' where f: "feed_chunks szw cs sp w = Some (sp', fold cb (map snd fs) w)" and h: "holds sp sp' []"
    using feed_chunks_stream [OF assms(1-4), of sp cb w] assms(5-) by auto
  from h have "sp_ok sp'" "sp_contents sp' = []" by (simp_all add: holds_def)
  with length_contents [of sp'] have "getBufferUsage sp' = 0" by (simp add: getBufferUsage_def)
  with f \<open>sp_ok sp'\<close> show ?thesis by blast
qed

theorem feed_reassembles_stream_witness:
  "\<exists>sp'. feed_chunks 32 (map (\<lambda>b. [b]) (data_frame 1 [5] @ data_frame 2 []))
      (setFrameCallback (Some (\<lambda>p log. log @ [p])) (StreamProcessor None)) [] = Some (sp', [[5], []])"
proof -
  have c: "concat (map (\<lambda>b. [b]) xs) = xs" for xs :: "u8 list" by (induction xs) simp_all
  have s: "wire.stream [(1, [5]), (2, [])] = data_frame 1 [5] @ data_frame 2 []" by simp
  have l: "\<forall>c \<in> set (map (\<lambda>b. [b]) xs). 1 + length c \<le> kMaxFrameSize + 1" for xs :: "u8 list"
    by (auto simp: size_consts)
  show ?thesis
    using feed_reassembles_stream [of 32 1 "[(1, [5]), (2, [])]" "map (\<lambda>b. [b]) (data_frame 1 [5] @ data_frame 2 [])"
        "setFrameCallback (Some (\<lambda>p log. log @ [p])) (StreamProcessor None)" "\<lambda>p log. log @ [p]" "[]"]
      c s l [of "data_frame 1 [5] @ data_frame 2 []"]
    by (simp add: size_consts sp_ok_new del: map_append set_map) blast
qed

text \<open>
  C11. Only frames are delivered: if a call of \<open>extractFrames\<close> returns, the bytes it starts from
  are gaps, whole valid frames and a tail, in that order; the callback gets exactly the payloads
  of those frames, in order, so no payload is made up, repeated or read across a frame, and what
  is kept is the end of the tail. The result says whether anything was delivered. It does
  return if \<open>size_t\<close> has more than 32 bits.
\<close>

theorem extractFrames_delivers_frames:
  assumes "32 \<le> szw" and "sp_ok sp" and "frameCallback sp = Some cb"
    and "33 \<le> szw \<or> extractFrames szw sp w \<noteq> None"
  shows "\<exists>evs sp' segs gap. extractFrames szw sp w = Some (segs \<noteq> [], sp', fold (perform sp) evs w) \<and>
     deliveries evs = map (\<lambda>(gap, seq, p). p) segs \<and>
     (\<forall>(gap, seq, p) \<in> set segs. length p \<le> kMaxFrameSize) \<and>
     sp_contents sp = concat (map (\<lambda>(gap, seq, p). gap @ data_frame seq p) segs) @ gap @ sp_contents sp'"
proof -
  let ?er = "scan szw (sp_contents sp)"
  have "\<not> stuck szw (snd ?er)"
    using assms(4) not_stuck_wide [of szw] extract_stuck [OF assms(1-3), of w] by auto
  then obtain sp' where e: "extractFrames szw sp w = Some (list_ex is_delivery (fst ?er), sp', fold (perform sp) (fst ?er) w)"
    and h: "holds sp sp' (snd ?er)"
    using extract_loop_scanD [OF assms(1-3)] by blast
  obtain segs gap where s: "sp_contents sp = concat (map (\<lambda>(gap, seq, p). gap @ data_frame seq p) segs) @ gap @ snd ?er"
    "deliveries (fst ?er) = map (\<lambda>(gap, seq, p). p) segs"
    "\<forall>(gap, seq, p) \<in> set segs. length p \<le> kMaxFrameSize"
    using scan_segments [of "sp_contents sp" szw] unfolding segmented_def by blast
  have "list_ex is_delivery evs \<longleftrightarrow> deliveries evs \<noteq> []" for evs
    by (induction evs) (auto simp: is_delivery_def split: stream_event.splits)
  with s(2) have "list_ex is_delivery (fst ?er) \<longleftrightarrow> segs \<noteq> []" by simp
  with e s h show ?thesis
    by (intro exI [of _ "fst ?er"] exI [of _ sp'] exI [of _ segs] exI [of _ gap]) (simp add: holds_def)
qed

theorem extractFrames_delivers_frames_witness:
  "extractFrames 64 ((setFrameCallback (Some (#)) (StreamProcessor None))\<lparr>sp_size := 20\<rparr>) [] \<noteq> None"
  using extractFrames_delivers_frames [of 64 "(setFrameCallback (Some (#)) (StreamProcessor None))\<lparr>sp_size := 20\<rparr>" "(#)" "[]"]
  by (auto simp: sp_ok_def StreamProcessor_def setFrameCallback_def stream_consts)

text \<open>
  C12. Termination, and nothing is left to do: with a \<open>size_t\<close> of more than 32 bits the
  extraction loop returns from every well-formed state; and whenever it has returned, running it
  again at once makes no call and changes nothing.
\<close>

theorem extractFrames_terminates:
  assumes "33 \<le> szw" and "sp_ok sp" and "frameCallback sp = Some cb"
  shows "\<exists>any sp' w'. extractFrames szw sp w = Some (any, sp', w') \<and> sp_ok sp' \<and>
     (\<forall>w''. extractFrames szw sp' w'' = Some (False, sp', w''))"
proof -
  let ?er = "scan szw (sp_contents sp)"
  have "32 \<le> szw" using assms(1) by simp
  from extract_loop_scanD [OF this assms(2,3) not_stuck_wide [OF assms(1)]]
  obtain sp' where e: "extractFrames szw sp w = Some (list_ex is_delivery (fst ?er), sp', fold (perform sp) (fst ?er) w)"
    and h: "holds sp sp' (snd ?er)" .
  have ok: "sp_ok sp'" and idle: "scan szw (sp_contents sp') = ([], sp_contents sp')"
    using h scan_idle [of szw "sp_contents sp"] by (simp_all add: holds_def)
  have "extractFrames szw sp' w'' = Some (False, sp', w'')" for w''
    by (rule extract_idle [OF ok idle not_stuck_wide [OF assms(1)]])
  with e ok show ?thesis by blast
qed

theorem extractFrames_terminates_witness:
  "extractFrames 64 (setFrameCallback (Some (#)) (StreamProcessor None)) [] \<noteq> None"
  using extractFrames_terminates [of 64 "setFrameCallback (Some (#)) (StreamProcessor None)" "(#)" "[]"]
  by (auto simp: sp_ok_new)


text \<open>
  Recovery: line noise without a protocol version byte, followed by whole frames and a
  part of another, costs none of the frames: once the processor holds as many bytes as the
  noise announces (or the noise announces more than fits), every payload is delivered in order
  and the part is kept.
\<close>

theorem feed_recovers_from_noise:
  assumes "32 \<le> szw" and "sp_ok sp" and "sp_contents sp = []" and "frameCallback sp = Some cb"
    and "noise \<noteq> []" and "1 \<notin> set noise" and "fs \<noteq> []" and "wire.within (fs @ hs)" and "wire.part_of part hs"
    and "chunk = noise @ wire.stream fs @ part" and "length chunk \<le> kBufferCapacity"
    and "announced szw chunk \<le> length chunk \<or> announced szw chunk > kBufferCapacity"
  shows "\<exists>sp' evs. feed szw (Some chunk) (length chunk) sp w = Some (sp', fold (perform sp) evs w) \<and>
     deliveries evs = map snd fs \<and> sp_contents sp' = part"
proof -
  have within: "wire.within fs" "wire.within hs" using assms(8) by simp_all
  have n: "0 < length chunk" using assms(5,10) by simp
  have r: "receive szw [] chunk = scan_result szw chunk" using assms(11) by (simp add: receive_def)
  from scan_garbage [OF assms(1,5,6) within(1) assms(7,9) within(2) assms(10,12)]
  obtain evs where "scan_result szw chunk = Some (evs, part)" "deliveries evs = map snd fs" by blast
  with feed_receive [OF assms(1,2,4) n, of chunk w] assms(3) r show ?thesis
    by (auto simp: holds_def fed_def)
qed

theorem feed_recovers_from_noise_witness:
  "\<exists>sp' evs. feed 32 (Some ([0, 0, 0, 0, 0xFF, 0xFF, 0xFF, 0xFF] @ data_frame 7 [3])) 21
       (setFrameCallback (Some (#)) (StreamProcessor None)) [] =
     Some (sp', fold (perform (setFrameCallback (Some (#)) (StreamProcessor None))) evs []) \<and> deliveries evs = [[3]]"
proof -
  let ?chunk = "[0, 0, 0, 0, 0xFF, 0xFF, 0xFF, 0xFF] @ data_frame 7 [3]"
  have "announced 32 ?chunk \<le> length ?chunk"
    by (simp add: announced_def frame_total_def declared_size_def stream_consts push_bit_eq_mult)
  moreover have "21 \<le> kBufferCapacity" "Suc 0 \<le> kMaxFrameSize" by (simp_all add: stream_consts)
  ultimately show ?thesis
    using feed_recovers_from_noise [of 32 "setFrameCallback (Some (#)) (StreamProcessor None)" "(#)"
      "[0, 0, 0, 0, 0xFF, 0xFF, 0xFF, 0xFF]" "[(7, [3])]" "[]" "[]" ?chunk "[]"]
    by (auto simp: sp_ok_new)
qed



text \<open>
  C13. With a 32-bit \<open>size_t\<close> (the STM32 and ESP32 targets) the sum of header, declared payload and
  checksum sizes can wrap to 0. Exactly when the scanner comes to bytes that start with a header
  declaring \<open>0xFFFFFFF4\<close> payload bytes and hold no other version byte, the extraction loop does
  not return; from there on it makes pass after pass: every number of passes leaves it running.
\<close>

theorem extractFrames_hangs_32:
  assumes "sp_ok sp" and "frameCallback sp = Some cb" and "rest = snd (scan 32 (sp_contents sp))"
  shows "(extractFrames 32 sp w = None \<longleftrightarrow> 12 \<le> length rest \<and> declared_size rest = 0xFFFFFFF4 \<and> 1 \<notin> set (tl rest)) \<and>
     (sp_contents sp = rest \<and> extractFrames 32 sp w = None \<longrightarrow>
       (\<forall>k. \<exists>sp' w'. extract_passes 32 k (False, sp, w) = Some (Continue (False, sp', w'))))"
  using extract_stuck [OF _ assms(1,2), of 32 w] passes_stuck [OF assms(1), of 32 _ False w] stuck_32 [of rest] assms(3)
  by auto

theorem extractFrames_hangs_32_witness:
  "extractFrames 32 ((setFrameCallback (Some (\<lambda>p w. w)) (StreamProcessor None))
     \<lparr>sp_buffer := [1, 0, 9, 0, 0xF4, 0xFF, 0xFF, 0xFF] @ replicate 4100 0, sp_size := 12\<rparr>) () = None"
proof -
  let ?sp = "(setFrameCallback (Some (\<lambda>p w. w)) (StreamProcessor None))
    \<lparr>sp_buffer := [1, 0, 9, 0, 0xF4, 0xFF, 0xFF, 0xFF] @ replicate 4100 0, sp_size := 12\<rparr>"
  let ?c = "[1, 0, 9, 0, 0xF4, 0xFF, 0xFF, 0xFF, 0, 0, 0, 0] :: u8 list"
  have c: "sp_contents ?sp = ?c" by (simp add: sp_contents_def eval_nat_numeral)
  have ok: "sp_ok ?sp" by (simp add: sp_ok_def stream_consts)
  have cb: "frameCallback ?sp = Some (\<lambda>p w. w)" by (simp add: setFrameCallback_def)
  have f4: "declared_size ?c = 0xFFFFFFF4" by (simp add: declared_size_def push_bit_eq_mult)
  then have "stuck 32 ?c" by (simp add: stuck_32)
  then have "?c = snd (scan 32 (sp_contents ?sp))" unfolding c by (simp add: scan_stuck)
  from extractFrames_hangs_32 [OF ok cb this, of "()"] f4 show ?thesis by simp
qed

text \<open>
  C15. Memory safety, for a \<open>size_t\<close> of 32 bits or more and callbacks that leave the processor alone.
  After every run of \<open>feed\<close> (on readable chunks), \<open>reset\<close> and the two setters, from a new
  processor on, the buffer has its capacity and the size is within it; and whatever readable chunk
  comes next, \<open>feed\<close> touches no memory outside the buffer and the chunk after any number of
  passes of its loop, whether it returns after some number of them or never. With more than 32 bits
  the run and the \<open>feed\<close> do return.
\<close>

theorem stream_runs_memory_safe:
  assumes "32 \<le> szw"
  shows "case fold (stream_step szw) ops (Some (StreamProcessor write, w)) of
      None \<Rightarrow> szw = 32
    | Some (sp, w') \<Rightarrow> sp_ok sp \<and> getBufferUsage sp \<le> kBufferCapacity \<and>
        (\<forall>data n. readable data n \<longrightarrow>
          (\<forall>k. feed_upto szw k data n sp w' \<noteq> None) \<and>
          (\<forall>s. feed szw data n sp w' = Some s \<longleftrightarrow> (\<exists>k any. feed_upto szw k data n sp w' = Some (Break (any, s)))) \<and>
          (feed szw data n sp w' = None \<longrightarrow> szw = 32))"
proof (cases "fold (stream_step szw) ops (Some (StreamProcessor write, w))")
  case None
  with streams.run_inv [of szw "Some (StreamProcessor write, w)" ops] assms sp_ok_new show ?thesis by auto
next
  case (Some s)
  then obtain sp w' where r: "fold (stream_step szw) ops (Some (StreamProcessor write, w)) = Some (sp, w')" by (cases s) auto
  have ok: "sp_ok sp"
    using streams.run_inv [of szw "Some (StreamProcessor write, w)" ops] assms sp_ok_new r by auto
  have "szw = 32" if "readable data n" and "feed szw data n sp w' = None" for data n
    using feed_safe [OF assms ok that(1), of w'] that(2) by simp
  with ok feed_upto_safe [OF assms ok] feed_iff_upto [of szw _ _ sp w'] show ?thesis
    by (simp add: r getBufferUsage_def sp_ok_def)
qed

theorem stream_runs_memory_safe_witness:
  "case fold (stream_step 64) [SetFrameCallback (Some (#)), Feed (Some [1]) 1, Reset] (Some (StreamProcessor None, [])) of
     None \<Rightarrow> False | Some (sp, w') \<Rightarrow> feed 64 (Some [2, 3]) 2 sp w' \<noteq> None"
proof -
  define r where "r = fold (stream_step 64) [SetFrameCallback (Some (#)), Feed (Some [1]) 1, Reset] (Some (StreamProcessor None, []))"
  have wide: "(32::nat) \<le> 64" by simp
  note safe = stream_runs_memory_safe [OF wide, of "[SetFrameCallback (Some (#)), Feed (Some [1]) 1, Reset]" None "[]", folded r_def]
  have readable: "readable (Some [2, 3]) 2" by (simp add: readable_def)
  show ?thesis
  proof (cases r)
    case None
    with safe show ?thesis by simp
  next
    case (Some s)
    have "\<forall>data n. readable data n \<longrightarrow> (feed 64 data n (fst s) (snd s) = None \<longrightarrow> (64::nat) = 32)"
      using safe unfolding Some option.case split_beta by blast
    with readable have "feed 64 (Some [2, 3]) 2 (fst s) (snd s) \<noteq> None" by fastforce
    then show ?thesis unfolding r_def [symmetric] Some option.case split_beta .
  qed
qed

text \<open>
  The early returns of \<open>feed\<close>: a null pointer or no bytes changes nothing and reports
  nothing; without a frame callback nothing is buffered and the error callback, if any, gets
  code 3 (\<open>InvalidHeader\<close>) with its message.
\<close>

theorem feed_early_returns:
  "feed szw None n sp w = Some (sp, w) \<and> feed szw (Some mem) 0 sp w = Some (sp, w) \<and>
   feed szw (Some mem) (Suc n) (setErrorCallback (Some ecb) (setFrameCallback None sp)) w =
     Some (setErrorCallback (Some ecb) (setFrameCallback None sp), ecb 3 ''Frame callback not registered'' w)"
  by (simp add: feed_trivial reportError_def)

end
