(* ===== verification/Ota_Messages.thy ===== *)
theory Ota_Messages
  imports Prelude
begin

section \<open>The OTA messages (schemas/ota_messages.fbs)\<close>

text \<open>
  The enums, tables and union of the schema the generated header gives types for. A string or
  vector field that is absent from the message is \<open>None\<close> (a null pointer in C++). The message of
  an envelope is a union: its tag may be \<open>NONE\<close> or a value the schema does not have, and its
  value may be absent. A verified buffer may hold any byte in a field of enumeration type: \<open>Other\<close> is
  one that is no enumerator.
\<close>

datatype Target = Stm32 | Esp32 | Target_Other u8

datatype OtaStatus = Idle | Preparing | Receiving | Verifying | Applying | Rebooting | Error
  | OtaStatus_Other u8

fun OtaStatus_code :: "OtaStatus \<Rightarrow> nat" where
  "OtaStatus_code Idle = 0"
| "OtaStatus_code Preparing = 1"
| "OtaStatus_code Receiving = 2"
| "OtaStatus_code Verifying = 3"
| "OtaStatus_code Applying = 4"
| "OtaStatus_code Rebooting = 5"
| "OtaStatus_code Error = 6"
| "OtaStatus_code (OtaStatus_Other n) = unat n"

text \<open>The enumerators in their order, and after them what is none.\<close>

definition OtaStatus_rank :: "OtaStatus \<Rightarrow> nat" where
  "OtaStatus_rank s = (case s of OtaStatus_Other n \<Rightarrow> 7 + unat n | _ \<Rightarrow> OtaStatus_code s)"

lemma OtaStatus_rank_inject: "OtaStatus_rank a = OtaStatus_rank b \<Longrightarrow> a = b"
  by (cases a; cases b) (simp_all add: OtaStatus_rank_def word_unat_eq_iff)

instantiation OtaStatus :: linorder
begin

definition less_eq_OtaStatus :: "OtaStatus \<Rightarrow> OtaStatus \<Rightarrow> bool" where
  "less_eq_OtaStatus a b \<longleftrightarrow> OtaStatus_rank a \<le> OtaStatus_rank b"

definition less_OtaStatus :: "OtaStatus \<Rightarrow> OtaStatus \<Rightarrow> bool" where
  "less_OtaStatus a b \<longleftrightarrow> OtaStatus_rank a < OtaStatus_rank b"

instance
  by standard (auto simp: less_eq_OtaStatus_def less_OtaStatus_def intro: OtaStatus_rank_inject)

end

record OtaBegin =
  begin_target :: Target
  firmware_size :: u32
  firmware_crc32 :: u32
  version_string :: "string option"
  total_chunks :: u16
  compressed_size :: u32
  compressed_crc32 :: u32

record OtaData =
  data_target :: Target
  chunk_index :: u16
  chunk_data :: "u8 list option"

record OtaEnd =
  end_target :: Target

record OtaProgress =
  progress_target :: Target
  progress_status :: OtaStatus
  chunks_received :: u16
  progress_total_chunks :: u16
  error_message :: "string option"

record OtaAbort =
  abort_target :: Target
  abort_reason :: "string option"

text \<open>\<open>c_str()\<close> read as a C string: up to the first null character.\<close>

definition c_str :: "string \<Rightarrow> string" where
  "c_str s = takeWhile (\<lambda>c. c \<noteq> CHR 0x00) s"

end
