(* ===== verification/Ota_Manager.thy ===== *)
theory Ota_Manager
  imports Ota_Messages
begin

section \<open>The OTA manager (src/ota_manager.cpp)\<close>

text \<open>
  The state machine of a firmware update: begin, numbered chunks, end, abort. The flash
  writer is an abstract interface of the code (\<open>IFlashWriter\<close>): here a record of functions on
  the world, any of which may fail at any call. A null \<open>sendProgress\<close> is \<open>None\<close>.

  The properties are about runs of commands with an arbitrary writer whose calls are recorded:
  the sequence of commands, writer calls and progress reports of every run is accepted by a
  small session automaton, and its history shows what must have happened before an activation.
\<close>

subsection \<open>State\<close>

record 'w flash_writer =
  fw_begin :: "u32 \<Rightarrow> 'w \<Rightarrow> bool \<times> 'w"
  fw_writeChunk :: "u16 \<Rightarrow> u8 list \<Rightarrow> 'w \<Rightarrow> bool \<times> 'w"
  fw_finish :: "'w \<Rightarrow> bool \<times> 'w"
  fw_verify :: "u32 \<Rightarrow> 'w \<Rightarrow> bool \<times> 'w"
  fw_activate :: "'w \<Rightarrow> bool \<times> 'w"
  fw_abort :: "'w \<Rightarrow> 'w"
  fw_maxFirmwareSize :: "'w \<Rightarrow> u32"

type_synonym 'w send_progress = "Target \<Rightarrow> OtaStatus \<Rightarrow> u16 \<Rightarrow> u16 \<Rightarrow> string option \<Rightarrow> 'w \<Rightarrow> 'w"

record 'w ota_manager =
  om_writer :: "'w flash_writer"
  om_target :: Target
  om_sendProgress :: "'w send_progress option"
  om_status :: OtaStatus
  om_expectedCrc32 :: u32
  om_totalChunks :: u16
  om_receivedChunks :: u16

definition OtaManager :: "'w flash_writer \<Rightarrow> Target \<Rightarrow> 'w send_progress option \<Rightarrow> 'w ota_manager" where
  "OtaManager wr target progress =
     \<lparr>om_writer = wr, om_target = target, om_sendProgress = progress, om_status = Idle,
      om_expectedCrc32 = 0, om_totalChunks = 0, om_receivedChunks = 0\<rparr>"

definition status :: "'w ota_manager \<Rightarrow> OtaStatus" where
  "status m = om_status m"

definition totalChunks :: "'w ota_manager \<Rightarrow> u16" where
  "totalChunks m = om_totalChunks m"

subsection \<open>Operations\<close>

definition report_progress :: "string option \<Rightarrow> 'w ota_manager \<Rightarrow> 'w \<Rightarrow> 'w" where
  "report_progress msg m w =
     (case om_sendProgress m of
        None \<Rightarrow> w
      | Some send \<Rightarrow> send (om_target m) (om_status m) (om_receivedChunks m) (om_totalChunks m) msg w)"

definition transitionTo :: "OtaStatus \<Rightarrow> string option \<Rightarrow> 'w ota_manager \<times> 'w \<Rightarrow> 'w ota_manager \<times> 'w" where
  "transitionTo newStatus msg s =
     (case s of (m, w) \<Rightarrow>
        let m1 = m\<lparr>om_status := newStatus\<rparr> in (m1, report_progress msg m1 w))"

text \<open>\<open>transitionTo(Error, msg); status_ = Idle\<close>, after \<open>writer_.abort()\<close> where the code calls it.\<close>

definition report_error :: "string \<Rightarrow> 'w ota_manager \<times> 'w \<Rightarrow> 'w ota_manager \<times> 'w" where
  "report_error msg s =
     (case transitionTo Error (Some msg) s of (m, w) \<Rightarrow> (m\<lparr>om_status := Idle\<rparr>, w))"

definition abort_with :: "string \<Rightarrow> 'w ota_manager \<times> 'w \<Rightarrow> 'w ota_manager \<times> 'w" where
  "abort_with msg s = (case s of (m, w) \<Rightarrow> report_error msg (m, fw_abort (om_writer m) w))"

definition handleBegin :: "u32 \<Rightarrow> u32 \<Rightarrow> u16 \<Rightarrow> 'w ota_manager \<times> 'w \<Rightarrow> 'w ota_manager \<times> 'w" where
  "handleBegin firmwareSize firmwareCrc32 chunks s =
     (let (m, w) =
        (case s of (m, w) \<Rightarrow>
           if om_status m \<noteq> Idle
           then (m\<lparr>om_status := Idle, om_receivedChunks := 0, om_totalChunks := 0\<rparr>, fw_abort (om_writer m) w)
           else (m, w)) in
      if om_status m \<noteq> Idle then transitionTo Error (Some ''OtaBegin received while not idle'') (m, w)
      else
        let maxSize = fw_maxFirmwareSize (om_writer m) w in
        if firmwareSize = 0 \<or> firmwareSize > maxSize
        then report_error ''Firmware too large for target'' (m, w)
        else
          let (m1, w1) = transitionTo Preparing None
                (m\<lparr>om_expectedCrc32 := firmwareCrc32, om_totalChunks := chunks, om_receivedChunks := 0\<rparr>, w);
              (ok, w2) = fw_begin (om_writer m1) firmwareSize w1 in
          if \<not> ok then abort_with ''Flash erase failed'' (m1, w2)
          else transitionTo Receiving None (m1, w2))"

definition kProgressReportInterval :: u16 where "kProgressReportInterval = 50"

text \<open>The writer is given the chunk's bytes; \<open>None\<close> if the arguments do not denote readable bytes.\<close>

definition handleData :: "u16 \<Rightarrow> ptr \<Rightarrow> nat \<Rightarrow> 'w ota_manager \<times> 'w \<Rightarrow> ('w ota_manager \<times> 'w) option" where
  "handleData chunkIndex data dataSize s =
     (case s of (m, w) \<Rightarrow>
      if om_status m \<noteq> Receiving then Some (m, w)
      else if chunkIndex \<noteq> om_receivedChunks m then Some (abort_with ''Unexpected chunk index'' (m, w))
      else case data of
        None \<Rightarrow> Some (abort_with ''Empty chunk data'' (m, w))
      | Some mem \<Rightarrow>
          if dataSize = 0 then Some (abort_with ''Empty chunk data'' (m, w))
          else do {
            bs \<leftarrow> read_at mem 0 dataSize;
            let (ok, w1) = fw_writeChunk (om_writer m) chunkIndex bs w;
            Some (if \<not> ok then abort_with ''Flash write failed'' (m, w1)
              else
                let m1 = m\<lparr>om_receivedChunks := om_receivedChunks m + 1\<rparr>;
                    isLastChunk = (om_receivedChunks m1 = om_totalChunks m1);
                    isReportDue = (om_receivedChunks m1 mod kProgressReportInterval = 0) in
                (m1, if isLastChunk \<or> isReportDue then report_progress None m1 w1 else w1))
          })"

definition handleEnd :: "'w ota_manager \<times> 'w \<Rightarrow> 'w ota_manager \<times> 'w" where
  "handleEnd s =
     (case s of (m, w) \<Rightarrow>
      if om_status m \<noteq> Receiving then (m, w)
      else if om_receivedChunks m \<noteq> om_totalChunks m then abort_with ''Chunk count mismatch'' (m, w)
      else
        let (ok, w1) = fw_finish (om_writer m) w in
        if \<not> ok then abort_with ''Flash finalization failed'' (m, w1)
        else
          let (m2, w2) = transitionTo Verifying None (m, w1);
              (ok2, w3) = fw_verify (om_writer m2) (om_expectedCrc32 m2) w2 in
          if \<not> ok2 then abort_with ''CRC32 verification failed'' (m2, w3)
          else
            let (m4, w4) = transitionTo Rebooting None (transitionTo Applying None (m2, w3));
                (ok3, w5) = fw_activate (om_writer m4) w4 in
            if \<not> ok3 then abort_with ''Slot activation failed'' (m4, w5)
            else (m4, w5))"

definition handleAbort :: "string option \<Rightarrow> 'w ota_manager \<times> 'w \<Rightarrow> 'w ota_manager \<times> 'w" where
  "handleAbort reason s =
     (case s of (m, w) \<Rightarrow>
      if om_status m = Idle then (m, w)
      else abort_with (case reason of Some r \<Rightarrow> r | None \<Rightarrow> ''Aborted by host'') (m, w))"

text \<open>The overloads on decoded messages.\<close>

definition handleBegin_msg :: "OtaBegin \<Rightarrow> 'w ota_manager \<times> 'w \<Rightarrow> 'w ota_manager \<times> 'w" where
  "handleBegin_msg msg s = handleBegin (firmware_size msg) (firmware_crc32 msg) (total_chunks msg) s"

definition handleData_msg :: "OtaData \<Rightarrow> 'w ota_manager \<times> 'w \<Rightarrow> ('w ota_manager \<times> 'w) option" where
  "handleData_msg msg s =
     (case chunk_data msg of
        None \<Rightarrow> Some (abort_with ''Empty chunk data'' s)
      | Some bs \<Rightarrow>
          if length bs = 0 then Some (abort_with ''Empty chunk data'' s)
          else handleData (chunk_index msg) (Some bs) (length bs) s)"

definition handleEnd_msg :: "OtaEnd \<Rightarrow> 'w ota_manager \<times> 'w \<Rightarrow> 'w ota_manager \<times> 'w" where
  "handleEnd_msg msg s = handleEnd s"

definition handleAbort_msg :: "OtaAbort \<Rightarrow> 'w ota_manager \<times> 'w \<Rightarrow> 'w ota_manager \<times> 'w" where
  "handleAbort_msg msg s = handleAbort (map_option c_str (abort_reason msg)) s"

text \<open>The commands a host can give, as one step; a chunk that is not readable is not one.\<close>

datatype ota_command =
    Begin u32 u32 u16
  | Data u16 ptr nat
  | DataMsg OtaData
  | End
  | Abort "string option"

fun ota_op :: "ota_command \<Rightarrow> 'w ota_manager \<times> 'w \<Rightarrow> 'w ota_manager \<times> 'w" where
  "ota_op (Begin n crc chunks) s = handleBegin n crc chunks s"
| "ota_op (Data i data n) s = (case handleData i data n s of Some s' \<Rightarrow> s' | None \<Rightarrow> s)"
| "ota_op (DataMsg msg) s = (case handleData_msg msg s of Some s' \<Rightarrow> s' | None \<Rightarrow> s)"
| "ota_op End s = handleEnd s"
| "ota_op (Abort reason) s = handleAbort reason s"

lemma handleData_readable:
  assumes "case data of None \<Rightarrow> True | Some mem \<Rightarrow> n \<le> length mem"
  shows "handleData i data n s \<noteq> None"
  using assms by (auto simp: handleData_def mem_simps split_beta split: option.splits)

lemma handleData_msg_safe: "handleData_msg msg s \<noteq> None"
proof (cases "chunk_data msg")
  case (Some bs)
  have "handleData (chunk_index msg) (Some bs) (length bs) s \<noteq> None"
    by (rule handleData_readable) simp
  with Some show ?thesis by (simp add: handleData_msg_def)
qed (simp add: handleData_msg_def)

subsection \<open>Recorded runs\<close>

datatype flash_call =
    CallBegin u32 bool
  | CallChunk u16 "u8 list" bool
  | CallFinish bool
  | CallVerify u32 bool
  | CallActivate bool
  | CallAbort

datatype ota_event =
    Cmd ota_command
  | Call flash_call
  | Progress OtaStatus u16 u16 "string option"

text \<open>A writer that records its calls and their results in front of the world of another.\<close>

definition record_call ::
  "(bool \<Rightarrow> flash_call) \<Rightarrow> ('w \<Rightarrow> bool \<times> 'w) \<Rightarrow> ota_event list \<times> 'w \<Rightarrow> bool \<times> ota_event list \<times> 'w" where
  "record_call c f s = (case s of (tr, w) \<Rightarrow> case f w of (ok, w') \<Rightarrow> (ok, tr @ [Call (c ok)], w'))"

definition recorded :: "'w flash_writer \<Rightarrow> (ota_event list \<times> 'w) flash_writer" where
  "recorded wr =
     \<lparr>fw_begin = \<lambda>n. record_call (CallBegin n) (fw_begin wr n),
      fw_writeChunk = \<lambda>i bs. record_call (CallChunk i bs) (fw_writeChunk wr i bs),
      fw_finish = record_call CallFinish (fw_finish wr),
      fw_verify = \<lambda>crc. record_call (CallVerify crc) (fw_verify wr crc),
      fw_activate = record_call CallActivate (fw_activate wr),
      fw_abort = \<lambda>(tr, w). (tr @ [Call CallAbort], fw_abort wr w),
      fw_maxFirmwareSize = \<lambda>(tr, w). fw_maxFirmwareSize wr w\<rparr>"

definition recorded_progress :: "'w send_progress \<Rightarrow> (ota_event list \<times> 'w) send_progress" where
  "recorded_progress send t st received total_n msg s =
     (case s of (tr, w) \<Rightarrow> (tr @ [Progress st received total_n msg], send t st received total_n msg w))"

definition recorded_manager :: "'w flash_writer \<Rightarrow> Target \<Rightarrow> 'w send_progress \<Rightarrow> (ota_event list \<times> 'w) ota_manager" where
  "recorded_manager wr target send = OtaManager (recorded wr) target (Some (recorded_progress send))"

definition recorded_step ::
  "ota_command \<Rightarrow> (ota_event list \<times> 'w) ota_manager \<times> ota_event list \<times> 'w \<Rightarrow>
   (ota_event list \<times> 'w) ota_manager \<times> ota_event list \<times> 'w" where
  "recorded_step c s = (case s of (m, tr, w) \<Rightarrow> ota_op c (m, tr @ [Cmd c], w))"

subsection \<open>The session automaton\<close>

datatype session =
    Closed
  | Aborted
  | Reopening u32 u32 u16
  | Requested u32 u32 u16
  | Open u32 u16 nat
  | Finished u32
  | Verified
  | Active
  | Failed

fun session_command :: "session \<Rightarrow> ota_command \<Rightarrow> session option" where
  "session_command Closed c = (case c of Begin n crc t \<Rightarrow> Some (Requested n crc t) | _ \<Rightarrow> Some Closed)"
| "session_command (Requested n' crc' t') c =
     (case c of Begin n crc t \<Rightarrow> Some (Requested n crc t) | _ \<Rightarrow> Some (Requested n' crc' t'))"
| "session_command (Open crc' t' k) c =
     (case c of Begin n crc t \<Rightarrow> Some (Reopening n crc t) | _ \<Rightarrow> Some (Open crc' t' k))"
| "session_command Active c = (case c of Begin n crc t \<Rightarrow> Some (Reopening n crc t) | _ \<Rightarrow> Some Active)"
| "session_command (Reopening n crc t) c = None"
| "session_command Aborted c = None"
| "session_command (Finished crc) c = None"
| "session_command Verified c = None"
| "session_command Failed c = None"

fun session_call :: "session \<Rightarrow> flash_call \<Rightarrow> session option" where
  "session_call Closed c = (if c = CallAbort then Some Aborted else None)"
| "session_call Aborted c = None"
| "session_call (Reopening n crc t) c = (if c = CallAbort then Some (Requested n crc t) else None)"
| "session_call (Requested n crc t) c =
     (case c of
        CallBegin n' ok \<Rightarrow> if n' = n then Some (if ok then Open crc t 0 else Failed) else None
      | CallAbort \<Rightarrow> Some Aborted
      | _ \<Rightarrow> None)"
| "session_call (Open crc t k) c =
     (case c of
        CallChunk i bs ok \<Rightarrow>
          if i = of_nat k \<and> bs \<noteq> [] then Some (if ok then Open crc t (Suc k) else Failed) else None
      | CallFinish ok \<Rightarrow> if of_nat k = t then Some (if ok then Finished crc else Failed) else None
      | CallAbort \<Rightarrow> Some Aborted
      | _ \<Rightarrow> None)"
| "session_call (Finished crc) c =
     (case c of
        CallVerify crc' ok \<Rightarrow> if crc' = crc then Some (if ok then Verified else Failed) else None
      | _ \<Rightarrow> None)"
| "session_call Verified c = (case c of CallActivate ok \<Rightarrow> Some (if ok then Active else Failed) | _ \<Rightarrow> None)"
| "session_call Active c = (if c = CallAbort then Some Aborted else None)"
| "session_call Failed c = (if c = CallAbort then Some Aborted else None)"

text \<open>Which statuses may be reported in which state of a session, and with what.\<close>

fun session_report :: "session \<Rightarrow> OtaStatus \<Rightarrow> u16 \<Rightarrow> u16 \<Rightarrow> string option \<Rightarrow> bool" where
  "session_report Aborted st r n msg = (st = Error \<and> msg \<noteq> None)"
| "session_report Closed st r n msg = False"
| "session_report (Requested sz crc t) st r n msg =
     (st = Preparing \<and> r = 0 \<and> n = t \<and> msg = None \<or> st = Error \<and> msg = Some ''Firmware too large for target'')"
| "session_report (Open crc t k) st r n msg =
     (st = Receiving \<and> r = of_nat k \<and> n = t \<and> msg = None)"
| "session_report (Finished crc) st r n msg = (st = Verifying \<and> r = n \<and> msg = None)"
| "session_report Verified st r n msg = (st \<in> {Applying, Rebooting} \<and> r = n \<and> msg = None)"
| "session_report (Reopening sz crc t) st r n msg = False"
| "session_report Active st r n msg = False"
| "session_report Failed st r n msg = False"

fun session_step :: "session \<Rightarrow> ota_event \<Rightarrow> session option" where
  "session_step s (Cmd c) = session_command s c"
| "session_step s (Call c) = session_call s c"
| "session_step s (Progress st r t msg) = (if session_report s st r t msg then Some (if s = Aborted then Closed else s) else None)"

primrec session_run :: "session \<Rightarrow> ota_event list \<Rightarrow> session option" where
  "session_run s [] = Some s"
| "session_run s (e # es) = do { s' \<leftarrow> session_step s e; session_run s' es }"

lemma session_run_append [simp]:
  "session_run s (es @ es') = do { s' \<leftarrow> session_run s es; session_run s' es' }"
  by (induction es arbitrary: s) (simp_all split: bind_splits)

text \<open>The state of the manager a session state stands for.\<close>

fun session_of :: "'w ota_manager \<Rightarrow> session \<Rightarrow> bool" where
  "session_of m Closed = (om_status m = Idle)"
| "session_of m (Requested n crc t) = (om_status m = Idle)"
| "session_of m (Open crc t k) =
     (om_status m = Receiving \<and> om_expectedCrc32 m = crc \<and> om_totalChunks m = t \<and> om_receivedChunks m = of_nat k)"
| "session_of m Active = (om_status m = Rebooting)"
| "session_of m s = False"

definition session_inv ::
  "'w flash_writer \<Rightarrow> 'w send_progress \<Rightarrow> (ota_event list \<times> 'w) ota_manager \<times> ota_event list \<times> 'w \<Rightarrow> bool" where
  "session_inv wr send s = (case s of (m, tr, w) \<Rightarrow>
     om_writer m = recorded wr \<and> om_sendProgress m = Some (recorded_progress send) \<and>
     (\<exists>ss. session_run Closed tr = Some ss \<and> session_of m ss))"

subsection \<open>Every run is accepted\<close>

lemma recorded_simps [simp]:
  "fw_begin (recorded wr) n = record_call (CallBegin n) (fw_begin wr n)"
  "fw_writeChunk (recorded wr) i bs = record_call (CallChunk i bs) (fw_writeChunk wr i bs)"
  "fw_finish (recorded wr) = record_call CallFinish (fw_finish wr)"
  "fw_verify (recorded wr) crc = record_call (CallVerify crc) (fw_verify wr crc)"
  "fw_activate (recorded wr) = record_call CallActivate (fw_activate wr)"
  "fw_abort (recorded wr) (tr, w) = (tr @ [Call CallAbort], fw_abort wr w)"
  "fw_maxFirmwareSize (recorded wr) (tr, w) = fw_maxFirmwareSize wr w"
  by (simp_all add: recorded_def)

lemma record_call_split:
  obtains ok w' where "record_call c f (tr, w) = (ok, tr @ [Call (c ok)], w')"
  by (cases "f w") (simp add: record_call_def)

text \<open>A manager connected to the recorder, and what its actions add to the record.\<close>

definition wired :: "'w flash_writer \<Rightarrow> 'w send_progress \<Rightarrow> (ota_event list \<times> 'w) ota_manager \<Rightarrow> bool" where
  "wired wr send m \<longleftrightarrow> om_writer m = recorded wr \<and> om_sendProgress m = Some (recorded_progress send)"

lemma wired_update [simp]:
  "wired wr send (m\<lparr>om_status := st\<rparr>) = wired wr send m"
  "wired wr send (m\<lparr>om_receivedChunks := r\<rparr>) = wired wr send m"
  "wired wr send (m\<lparr>om_totalChunks := t\<rparr>) = wired wr send m"
  "wired wr send (m\<lparr>om_expectedCrc32 := c\<rparr>) = wired wr send m"
  by (simp_all add: wired_def)

lemma wired_writer: "wired wr send m \<Longrightarrow> om_writer m = recorded wr"
  by (simp add: wired_def)

lemma report_wired:
  assumes "wired wr send m"
  obtains w' where "report_progress msg m (tr, w) =
    (tr @ [Progress (om_status m) (om_receivedChunks m) (om_totalChunks m) msg], w')"
  using assms by (simp add: wired_def report_progress_def recorded_progress_def)

lemma transition_wired:
  assumes "wired wr send m"
  obtains w' where "transitionTo st msg (m, tr, w) =
    (m\<lparr>om_status := st\<rparr>, tr @ [Progress st (om_receivedChunks m) (om_totalChunks m) msg], w')"
  using assms by (simp add: wired_def report_progress_def recorded_progress_def transitionTo_def Let_def)

lemma error_wired:
  assumes "wired wr send m"
  obtains w' where "report_error msg (m, tr, w) =
    (m\<lparr>om_status := Idle\<rparr>, tr @ [Progress Error (om_receivedChunks m) (om_totalChunks m) (Some msg)], w')"
  using assms by (simp add: wired_def report_progress_def recorded_progress_def transitionTo_def report_error_def Let_def)

lemma abort_wired:
  assumes "wired wr send m"
  obtains w' where "abort_with msg (m, tr, w) =
    (m\<lparr>om_status := Idle\<rparr>, tr @ [Call CallAbort, Progress Error (om_receivedChunks m) (om_totalChunks m) (Some msg)], w')"
proof -
  obtain w' where "report_error msg (m, tr @ [Call CallAbort], fw_abort wr w) =
    (m\<lparr>om_status := Idle\<rparr>, (tr @ [Call CallAbort]) @ [Progress Error (om_receivedChunks m) (om_totalChunks m) (Some msg)], w')"
    using error_wired [OF assms] .
  then show thesis using that by (simp add: abort_with_def wired_writer [OF assms])
qed

text \<open>The outcome of a handler that leaves a record accepted from session state \<open>ss\<close> on.\<close>

definition accepted ::
  "'w flash_writer \<Rightarrow> 'w send_progress \<Rightarrow> session \<Rightarrow> ota_event list \<Rightarrow>
   (ota_event list \<times> 'w) ota_manager \<times> ota_event list \<times> 'w \<Rightarrow> bool" where
  "accepted wr send ss tr s' \<longleftrightarrow> (case s' of (m', tr', w') \<Rightarrow>
     wired wr send m' \<and> (\<exists>evs ss'. tr' = tr @ evs \<and> session_run ss evs = Some ss' \<and> session_of m' ss'))"

lemma acceptedI:
  "s' = (m', tr @ evs, w') \<Longrightarrow> wired wr send m' \<Longrightarrow> session_run ss evs = Some ss' \<Longrightarrow> session_of m' ss' \<Longrightarrow>
   accepted wr send ss tr s'"
  by (auto simp: accepted_def)

lemma abort_accepted:
  assumes "wired wr send m" and "session_call ss CallAbort = Some Aborted"
    and "session_run ss0 evs = Some ss"
  shows "accepted wr send ss0 tr (abort_with msg (m, tr @ evs, w))"
proof -
  obtain w' where "abort_with msg (m, tr @ evs, w) =
    (m\<lparr>om_status := Idle\<rparr>, (tr @ evs) @ [Call CallAbort, Progress Error (om_receivedChunks m) (om_totalChunks m) (Some msg)], w')"
    using abort_wired [OF assms(1)] .
  then show ?thesis using assms by (auto intro!: acceptedI [where ss' = Closed])
qed

text \<open>A begin in a session in progress is a begin of an idle manager after an abort.\<close>

lemma handleBegin_resets:
  assumes "wired wr send m"
  shows "handleBegin n crc k (m, tr, w) = handleBegin n crc k
    (if status m = Idle then (m, tr, w)
     else (m\<lparr>om_status := Idle, om_receivedChunks := 0, om_totalChunks := 0\<rparr>, tr @ [Call CallAbort], fw_abort wr w))"
  by (simp add: handleBegin_def status_def wired_writer [OF assms])

text \<open>So the second test for the idle status never fails, and its report is never made.\<close>

lemma idle_begin_events:
  assumes w: "wired wr send m" and "om_status m = Idle"
  obtains evs where "fst (snd (handleBegin n crc k (m, tr, w))) = tr @ evs"
    and "\<And>st r t. Progress st r t (Some ''OtaBegin received while not idle'') \<notin> set evs"
proof (cases "n = 0 \<or> n > fw_maxFirmwareSize wr w")
  case True
  obtain w' where "report_error ''Firmware too large for target'' (m, tr, w) =
      (m\<lparr>om_status := Idle\<rparr>, tr @ [Progress Error (om_receivedChunks m) (om_totalChunks m) (Some ''Firmware too large for target'')], w')"
    using error_wired [OF w] .
  then show thesis using True assms that by (simp add: handleBegin_def wired_writer [OF w])
next
  case False
  let ?m = "m\<lparr>om_expectedCrc32 := crc, om_totalChunks := k, om_receivedChunks := 0\<rparr>"
  have m: "wired wr send ?m" "wired wr send (?m\<lparr>om_status := Preparing\<rparr>)" using w by simp_all
  obtain w1 where t: "transitionTo Preparing None (?m, tr, w) =
      (?m\<lparr>om_status := Preparing\<rparr>, tr @ [Progress Preparing 0 k None], w1)"
    using transition_wired [OF m(1), of Preparing None tr w] by auto
  let ?tr = "tr @ [Progress Preparing 0 k None]"
  obtain ok w2 where b: "record_call (CallBegin n) (fw_begin wr n) (?tr, w1) = (ok, ?tr @ [Call (CallBegin n ok)], w2)"
    using record_call_split .
  obtain w3 where r: "transitionTo Receiving None (?m\<lparr>om_status := Preparing\<rparr>, ?tr @ [Call (CallBegin n ok)], w2) =
      (?m\<lparr>om_status := Receiving\<rparr>, (?tr @ [Call (CallBegin n ok)]) @ [Progress Receiving 0 k None], w3)"
    using transition_wired [OF m(2), of Receiving None "?tr @ [Call (CallBegin n ok)]" w2] by auto
  obtain w4 where a: "abort_with ''Flash erase failed'' (?m\<lparr>om_status := Preparing\<rparr>, ?tr @ [Call (CallBegin n ok)], w2) =
      (?m\<lparr>om_status := Idle\<rparr>, (?tr @ [Call (CallBegin n ok)]) @
        [Call CallAbort, Progress Error 0 k (Some ''Flash erase failed'')], w4)"
    using abort_wired [OF m(2), of "''Flash erase failed''" "?tr @ [Call (CallBegin n ok)]" w2] by auto
  show thesis
    using False assms(2) t b r a that by (cases ok) (simp_all add: handleBegin_def wired_writer [OF w])
qed

lemma begin_never_refused:
  assumes "wired wr send m"
  shows "Progress st r t (Some ''OtaBegin received while not idle'')
    \<notin> set (drop (length tr) (fst (snd (handleBegin n crc k (m, tr, w)))))"
proof (cases "om_status m = Idle")
  case True
  from idle_begin_events [OF assms this] show ?thesis by (metis append_eq_conv_conj)
next
  case False
  let ?m = "m\<lparr>om_status := Idle, om_receivedChunks := 0, om_totalChunks := 0\<rparr>"
  have "handleBegin n crc k (m, tr, w) = handleBegin n crc k (?m, tr @ [Call CallAbort], fw_abort wr w)"
    using handleBegin_resets [OF assms] False by (simp add: status_def)
  moreover obtain evs where "fst (snd (handleBegin n crc k (?m, tr @ [Call CallAbort], fw_abort wr w))) = (tr @ [Call CallAbort]) @ evs"
    and "\<And>st r t. Progress st r t (Some ''OtaBegin received while not idle'') \<notin> set evs"
    by (rule idle_begin_events [of wr send ?m n crc k "tr @ [Call CallAbort]" "fw_abort wr w"]) (use assms in simp_all)
  ultimately show ?thesis by simp
qed

lemma handleBegin_accepted:
  assumes "wired wr send m" and "session_of m ss" and "session_command ss (Begin sz crc chunks) = Some ss1"
  shows "accepted wr send ss1 tr (handleBegin sz crc chunks (m, tr, w))"
proof -
  text \<open>First the reset of a session in progress.\<close>
  define m1 where "m1 = (if om_status m \<noteq> Idle
      then m\<lparr>om_status := Idle, om_receivedChunks := 0, om_totalChunks := 0\<rparr> else m)"
  define pre where "pre = (if om_status m \<noteq> Idle then [Call CallAbort] else [])"
  define w1 where "w1 = (if om_status m \<noteq> Idle then fw_abort wr w else w)"
  have first: "(if om_status m \<noteq> Idle
      then (m\<lparr>om_status := Idle, om_receivedChunks := 0, om_totalChunks := 0\<rparr>, fw_abort (om_writer m) (tr, w))
      else (m, tr, w)) = (m1, tr @ pre, w1)"
    by (simp add: m1_def pre_def w1_def wired_writer [OF assms(1)])
  have m1: "wired wr send m1" "om_status m1 = Idle"
    using assms(1) by (simp_all add: m1_def wired_def)
  have pre: "session_run ss1 pre = Some (Requested sz crc chunks)"
    using assms(2,3) by (cases ss) (auto simp: pre_def)
  let ?m2 = "m1\<lparr>om_expectedCrc32 := crc, om_totalChunks := chunks, om_receivedChunks := 0\<rparr>"
  show ?thesis
  proof (cases "sz = 0 \<or> sz > fw_maxFirmwareSize wr w1")
    case True
    obtain w' where "report_error ''Firmware too large for target'' (m1, tr @ pre, w1) =
      (m1\<lparr>om_status := Idle\<rparr>, (tr @ pre) @ [Progress Error (om_receivedChunks m1) (om_totalChunks m1)
        (Some ''Firmware too large for target'')], w')"
      using error_wired [OF m1(1)] .
    then show ?thesis
      using True m1 pre wired_writer [OF m1(1)]
      by (auto simp: handleBegin_def first intro!: acceptedI [where ss' = "Requested sz crc chunks"])
  next
    case False
    have m2: "wired wr send ?m2" using m1(1) by simp
    obtain w2 where t1: "transitionTo Preparing None (?m2, tr @ pre, w1) =
        (?m2\<lparr>om_status := Preparing\<rparr>, (tr @ pre) @ [Progress Preparing 0 chunks None], w2)"
      using transition_wired [OF m2, of Preparing None "tr @ pre" w1] by auto
    let ?m3 = "?m2\<lparr>om_status := Preparing\<rparr>"
    let ?tr3 = "tr @ pre @ [Progress Preparing 0 chunks None]"
    obtain ok w3 where b: "fw_begin (om_writer ?m3) sz (?tr3, w2) = (ok, ?tr3 @ [Call (CallBegin sz ok)], w3)"
      using record_call_split [of "CallBegin sz" "fw_begin wr sz" ?tr3 w2] wired_writer [OF m1(1)] by auto
    have h: "handleBegin sz crc chunks (m, tr, w) =
        (if \<not> ok then abort_with ''Flash erase failed'' (?m3, ?tr3 @ [Call (CallBegin sz ok)], w3)
         else transitionTo Receiving None (?m3, ?tr3 @ [Call (CallBegin sz ok)], w3))"
      using False m1(2) t1 b wired_writer [OF m1(1)] by (simp add: handleBegin_def first Let_def)
    show ?thesis
    proof (cases ok)
      case True
      obtain w4 where "transitionTo Receiving None (?m3, ?tr3 @ [Call (CallBegin sz ok)], w3) =
          (?m3\<lparr>om_status := Receiving\<rparr>, (?tr3 @ [Call (CallBegin sz ok)]) @ [Progress Receiving 0 chunks None], w4)"
        using transition_wired [of wr send ?m3 Receiving None "?tr3 @ [Call (CallBegin sz ok)]" w3] m2 by auto
      then show ?thesis
        using True m2 pre by (auto simp: h intro!: acceptedI [where ss' = "Open crc chunks 0"])
    next
      case False
      have "accepted wr send ss1 tr (abort_with ''Flash erase failed''
          (?m3, tr @ (pre @ [Progress Preparing 0 chunks None, Call (CallBegin sz ok)]), w3))"
        by (rule abort_accepted [where ss = Failed]) (use m2 pre False in auto)
      with False show ?thesis by (simp add: h)
    qed
  qed
qed

lemma handleData_accepted:
  assumes "wired wr send m" and "session_of m ss" and "session_command ss c = Some ss" and
    "handleData i data n (m, tr, w) = Some s'"
  shows "accepted wr send ss tr s'"
proof (cases "om_status m = Receiving")
  case False
  with assms show ?thesis by (auto simp: handleData_def intro!: acceptedI [where evs = "[]"])
next
  case True
  with assms(2) obtain crc t k where ss: "ss = Open crc t k" and m: "om_receivedChunks m = of_nat k"
    "om_totalChunks m = t" "om_expectedCrc32 m = crc"
    by (cases ss) auto
  have ab: "accepted wr send ss tr (abort_with msg (m, tr @ [], w))" for msg
    by (rule abort_accepted [OF assms(1), where ss = ss]) (simp_all add: ss)
  show ?thesis
  proof (cases "i \<noteq> om_receivedChunks m \<or> data = None \<or> n = 0")
    case bad: True
    with True assms(4) ab show ?thesis
      by (auto simp: handleData_def split: if_splits option.splits)
  next
    case False
    then obtain mem where d: "data = Some mem" "n \<noteq> 0" "i = om_receivedChunks m" by auto
    with True assms(4) obtain bs where bs: "read_at mem 0 n = Some bs"
      by (auto simp: handleData_def split: bind_splits)
    then have ne: "bs \<noteq> []" using d(2) by (auto dest!: read_at_SomeD)
    obtain ok w1 where c: "fw_writeChunk (om_writer m) i bs (tr, w) = (ok, tr @ [Call (CallChunk i bs ok)], w1)"
      using record_call_split [of "CallChunk i bs" "fw_writeChunk wr i bs" tr w] wired_writer [OF assms(1)] by auto
    show ?thesis
    proof (cases ok)
      case False
      have "accepted wr send ss tr (abort_with ''Flash write failed'' (m, tr @ [Call (CallChunk i bs ok)], w1))"
        by (rule abort_accepted [OF assms(1), where ss = Failed]) (use d m ne False in \<open>simp_all add: ss\<close>)
      with False True assms(4) d bs c show ?thesis by (auto simp: handleData_def)
    next
      case ok: True
      let ?m1 = "m\<lparr>om_receivedChunks := om_receivedChunks m + 1\<rparr>"
      let ?tr1 = "tr @ [Call (CallChunk i bs ok)]"
      have wired: "wired wr send ?m1" using assms(1) by simp
      obtain w2 where r: "report_progress None ?m1 (?tr1, w1) =
          (?tr1 @ [Progress (om_status ?m1) (om_receivedChunks ?m1) (om_totalChunks ?m1) None], w2)"
        using report_wired [OF wired] .
      have s': "s' = (?m1, ?tr1, w1) \<or> s' = (?m1, report_progress None ?m1 (?tr1, w1))"
        using ok True assms(4) d bs c by (auto simp: handleData_def Let_def split: if_splits)
      have run: "session_run ss [Call (CallChunk i bs ok)] = Some (Open crc t (Suc k))"
        using d m ne ok by (simp add: ss)
      have of: "session_of ?m1 (Open crc t (Suc k))" using m True by simp
      from s' show ?thesis
      proof
        assume "s' = (?m1, ?tr1, w1)"
        from acceptedI [OF this wired run of] show ?thesis .
      next
        assume "s' = (?m1, report_progress None ?m1 (?tr1, w1))"
        then have "s' = (?m1, tr @ ([Call (CallChunk i bs ok)] @
            [Progress (om_status ?m1) (om_receivedChunks ?m1) (om_totalChunks ?m1) None]), w2)"
          using r by simp
        from acceptedI [OF this wired _ of] run m True show ?thesis by simp
      qed
    qed
  qed
qed

lemma handleEnd_accepted:
  assumes "wired wr send m" and "session_of m ss"
  shows "accepted wr send ss tr (handleEnd (m, tr, w))"
proof (cases "om_status m = Receiving")
  case False
  with assms show ?thesis by (auto simp: handleEnd_def intro!: acceptedI [where evs = "[]"])
next
  case True
  with assms(2) obtain crc t k where ss: "ss = Open crc t k" and m: "om_receivedChunks m = of_nat k"
    "om_totalChunks m = t" "om_expectedCrc32 m = crc"
    by (cases ss) auto
  show ?thesis
  proof (cases "om_receivedChunks m = om_totalChunks m")
    case False
    have "accepted wr send ss tr (abort_with ''Chunk count mismatch'' (m, tr @ [], w))"
      by (rule abort_accepted [OF assms(1), where ss = ss]) (simp_all add: ss)
    with True False show ?thesis by (simp add: handleEnd_def)
  next
    case all: True
    obtain ok w1 where f: "fw_finish (om_writer m) (tr, w) = (ok, tr @ [Call (CallFinish ok)], w1)"
      using record_call_split [of CallFinish "fw_finish wr" tr w] wired_writer [OF assms(1)] by auto
    let ?m2 = "m\<lparr>om_status := Verifying\<rparr>"
    obtain w2 where t2: "transitionTo Verifying None (m, tr @ [Call (CallFinish ok)], w1) =
        (?m2, (tr @ [Call (CallFinish ok)]) @ [Progress Verifying (om_receivedChunks m) (om_totalChunks m) None], w2)"
      using transition_wired [OF assms(1)] .
    let ?e2 = "[Call (CallFinish ok), Progress Verifying (om_receivedChunks m) (om_totalChunks m) None]"
    obtain ok2 w3 where v: "fw_verify (om_writer ?m2) crc (tr @ ?e2, w2) = (ok2, (tr @ ?e2) @ [Call (CallVerify crc ok2)], w3)"
      using record_call_split [of "CallVerify crc" "fw_verify wr crc" "tr @ ?e2" w2] wired_writer [OF assms(1)] by auto
    let ?e3 = "?e2 @ [Call (CallVerify crc ok2)]"
    have m2: "wired wr send ?m2" using assms(1) by simp
    let ?m3 = "?m2\<lparr>om_status := Applying\<rparr>"
    obtain w4 where t3: "transitionTo Applying None (?m2, tr @ ?e3, w3) =
        (?m3, (tr @ ?e3) @ [Progress Applying (om_receivedChunks m) (om_totalChunks m) None], w4)"
      using transition_wired [OF m2, of Applying None "tr @ ?e3" w3] by auto
    let ?e4 = "?e3 @ [Progress Applying (om_receivedChunks m) (om_totalChunks m) None]"
    have m3: "wired wr send ?m3" using assms(1) by simp
    let ?m4 = "?m3\<lparr>om_status := Rebooting\<rparr>"
    obtain w5 where t4: "transitionTo Rebooting None (?m3, tr @ ?e4, w4) =
        (?m4, (tr @ ?e4) @ [Progress Rebooting (om_receivedChunks m) (om_totalChunks m) None], w5)"
      using transition_wired [OF m3, of Rebooting None "tr @ ?e4" w4] by auto
    let ?e5 = "?e4 @ [Progress Rebooting (om_receivedChunks m) (om_totalChunks m) None]"
    have m4: "wired wr send ?m4" using assms(1) by simp
    obtain ok3 w6 where a: "fw_activate (om_writer ?m4) (tr @ ?e5, w5) = (ok3, (tr @ ?e5) @ [Call (CallActivate ok3)], w6)"
      using record_call_split [of CallActivate "fw_activate wr" "tr @ ?e5" w5] wired_writer [OF assms(1)] by auto
    let ?e6 = "?e5 @ [Call (CallActivate ok3)]"
    have h: "handleEnd (m, tr, w) =
        (if \<not> ok then abort_with ''Flash finalization failed'' (m, tr @ [Call (CallFinish ok)], w1)
         else if \<not> ok2 then abort_with ''CRC32 verification failed'' (?m2, tr @ ?e3, w3)
         else if \<not> ok3 then abort_with ''Slot activation failed'' (?m4, tr @ ?e6, w6)
         else (?m4, tr @ ?e6, w6))"
      using True all f t2 v t3 t4 a m
      by (cases ok; cases ok2; cases ok3) (simp_all add: handleEnd_def Let_def)
    consider "\<not> ok" | "ok" "\<not> ok2" | "ok" "ok2" "\<not> ok3" | "ok" "ok2" "ok3" by blast
    then show ?thesis
    proof cases
      case 1
      have "accepted wr send ss tr (abort_with ''Flash finalization failed'' (m, tr @ [Call (CallFinish ok)], w1))"
        by (rule abort_accepted [OF assms(1), where ss = Failed]) (use m all 1 in \<open>simp_all add: ss\<close>)
      with 1 show ?thesis by (simp add: h)
    next
      case 2
      have "accepted wr send ss tr (abort_with ''CRC32 verification failed'' (?m2, tr @ ?e3, w3))"
        by (rule abort_accepted [OF m2, where ss = Failed]) (use m all 2 in \<open>simp_all add: ss\<close>)
      with 2 show ?thesis by (simp add: h)
    next
      case 3
      have "accepted wr send ss tr (abort_with ''Slot activation failed'' (?m4, tr @ ?e6, w6))"
        by (rule abort_accepted [OF m4, where ss = Failed]) (use m all 3 in \<open>simp_all add: ss\<close>)
      with 3 show ?thesis by (simp add: h)
    next
      case 4
      then have "handleEnd (m, tr, w) = (?m4, tr @ ?e6, w6)" by (simp add: h)
      from acceptedI [OF this m4, where ss' = Active] show ?thesis
        using m all 4 by (simp add: ss)
    qed
  qed
qed

lemma handleAbort_accepted:
  assumes "wired wr send m" and "session_of m ss"
  shows "accepted wr send ss tr (handleAbort reason (m, tr, w))"
proof (cases "om_status m = Idle")
  case True
  with assms show ?thesis by (auto simp: handleAbort_def intro!: acceptedI [where evs = "[]"])
next
  case False
  with assms(2) have "session_call ss CallAbort = Some Aborted" by (cases ss) auto
  then have "accepted wr send ss tr (abort_with msg (m, tr @ [], w))" for msg
    using assms(1) by (intro abort_accepted [where ss = ss]) simp_all
  with False show ?thesis by (simp add: handleAbort_def)
qed

lemma recorded_step_accepted:
  assumes "wired wr send m" and "session_run Closed tr = Some ss" and "session_of m ss"
  shows "accepted wr send Closed [] (recorded_step c (m, tr, w))"
proof -
  obtain ss1 where ss1: "session_command ss c = Some ss1"
    using assms(3) by (cases ss; cases c) auto
  have same: "ss1 = ss" if "\<nexists>n crc t. c = Begin n crc t"
    using that ss1 assms(3) by (cases ss; cases c) auto
  let ?tr = "tr @ [Cmd c]"
  have "accepted wr send ss1 ?tr (ota_op c (m, ?tr, w))"
  proof (cases c)
    case (Begin n crc t)
    with ss1 handleBegin_accepted [OF assms(1,3)] show ?thesis by simp
  next
    case (Data i data n)
    then have "ss1 = ss" using same by simp
    with Data ss1 handleData_accepted [OF assms(1,3), of c i data n ?tr w] assms(1,3) show ?thesis
      by (auto split: option.split intro: acceptedI [where evs = "[]"])
  next
    case (DataMsg msg)
    then have eq: "ss1 = ss" using same by simp
    have "session_call ss CallAbort = Some Aborted" using assms(3) by (cases ss) auto
    then have "accepted wr send ss ?tr (abort_with msg (m, ?tr @ [], w))" for msg
      using assms(1) by (intro abort_accepted [where ss = ss]) simp_all
    note aborted = this
    show ?thesis
    proof (cases "chunk_data msg = None \<or> chunk_data msg = Some []")
      case True
      then have "handleData_msg msg (m, ?tr, w) = Some (abort_with ''Empty chunk data'' (m, ?tr, w))"
        by (auto simp: handleData_msg_def)
      with DataMsg eq aborted show ?thesis by simp
    next
      case False
      then obtain bs where "handleData_msg msg (m, ?tr, w) = handleData (chunk_index msg) (Some bs) (length bs) (m, ?tr, w)"
        by (auto simp: handleData_msg_def)
      with DataMsg eq ss1 handleData_accepted [OF assms(1,3), of c "chunk_index msg" "Some bs" "length bs" ?tr w] assms(1,3)
      show ?thesis by (auto split: option.split intro: acceptedI [where evs = "[]"])
    qed
  next
    case End
    then have "ss1 = ss" using same by simp
    with End handleEnd_accepted [OF assms(1,3)] show ?thesis by simp
  next
    case (Abort reason)
    then have "ss1 = ss" using same by simp
    with Abort handleAbort_accepted [OF assms(1,3)] show ?thesis by simp
  qed
  with assms(2) ss1 show ?thesis
    by (auto simp: accepted_def recorded_step_def)
qed

interpretation ota_runs: invariant_run recorded_step "session_inv wr send"
  for wr :: "'w flash_writer" and send :: "'w send_progress"
proof
  fix s :: "(ota_event list \<times> 'w) ota_manager \<times> ota_event list \<times> 'w" and c
  assume "session_inv wr send s"
  moreover obtain m tr w where s: "s = (m, tr, w)" by (metis prod_cases3)
  ultimately obtain ss where "wired wr send m" "session_run Closed tr = Some ss" "session_of m ss"
    by (auto simp: session_inv_def wired_def)
  from recorded_step_accepted [OF this, of c w] show "session_inv wr send (recorded_step c s)"
    by (auto simp: accepted_def session_inv_def wired_def s)
qed

subsection \<open>The history of a session\<close>

fun flash_calls :: "ota_event list \<Rightarrow> flash_call list" where
  "flash_calls [] = []"
| "flash_calls (Call c # es) = c # flash_calls es"
| "flash_calls (Cmd c # es) = flash_calls es"
| "flash_calls (Progress st r t msg # es) = flash_calls es"

lemma flash_calls_append [simp]: "flash_calls (es @ es') = flash_calls es @ flash_calls es'"
  by (induction es rule: flash_calls.induct) simp_all

definition chunk_calls :: "u8 list list \<Rightarrow> flash_call list" where
  "chunk_calls chunks = map (\<lambda>(i, bs). CallChunk (of_nat i) bs True) (enumerate 0 chunks)"

lemma chunk_calls_snoc: "chunk_calls (chunks @ [bs]) = chunk_calls chunks @ [CallChunk (of_nat (length chunks)) bs True]"
  by (simp add: chunk_calls_def enumerate_append_eq)

lemma chunk_calls_nil [simp]: "chunk_calls [] = []"
  by (simp add: chunk_calls_def)

text \<open>The last begin command of a record, and the writer calls made since.\<close>

definition begun :: "ota_event list \<Rightarrow> u32 \<Rightarrow> u32 \<Rightarrow> u16 \<Rightarrow> flash_call list \<Rightarrow> bool" where
  "begun tr n crc t cs \<longleftrightarrow>
     (\<exists>before since. tr = before @ Cmd (Begin n crc t) # since \<and>
        (\<forall>n crc t. Cmd (Begin n crc t) \<notin> set since) \<and> flash_calls since = cs)"

lemma begun_new: "begun (tr @ [Cmd (Begin n crc t)]) n crc t []"
  unfolding begun_def by (intro exI [of _ tr] exI [of _ "[]"]) simp

lemma begun_snoc:
  assumes "begun tr n crc t cs" and "\<And>n crc t. e \<noteq> Cmd (Begin n crc t)"
  shows "begun (tr @ [e]) n crc t (cs @ flash_calls [e])"
proof -
  obtain before since where "tr = before @ Cmd (Begin n crc t) # since"
    "\<forall>n crc t. Cmd (Begin n crc t) \<notin> set since" "flash_calls since = cs"
    using assms(1) by (auto simp: begun_def)
  with assms(2) show ?thesis
    unfolding begun_def by (intro exI [of _ before] exI [of _ "since @ [e]"]) auto
qed

definition opened :: "u32 \<Rightarrow> flash_call list \<Rightarrow> flash_call list \<Rightarrow> bool" where
  "opened n rest cs \<longleftrightarrow> cs = CallBegin n True # rest \<or> cs = CallAbort # CallBegin n True # rest"

fun history :: "session \<Rightarrow> ota_event list \<Rightarrow> bool" where
  "history Closed tr = True"
| "history Aborted tr = True"
| "history Active tr = True"
| "history Failed tr = True"
| "history (Reopening n crc t) tr = begun tr n crc t []"
| "history (Requested n crc t) tr = (begun tr n crc t [] \<or> begun tr n crc t [CallAbort])"
| "history (Open crc t k) tr =
     (\<exists>n chunks cs. begun tr n crc t cs \<and> opened n (chunk_calls chunks) cs \<and> length chunks = k \<and> [] \<notin> set chunks)"
| "history (Finished crc) tr =
     (\<exists>n chunks t cs. begun tr n crc t cs \<and> opened n (chunk_calls chunks @ [CallFinish True]) cs \<and>
        of_nat (length chunks) = t \<and> [] \<notin> set chunks)"
| "history Verified tr =
     (\<exists>n crc chunks t cs. begun tr n crc t cs \<and>
        opened n (chunk_calls chunks @ [CallFinish True, CallVerify crc True]) cs \<and>
        of_nat (length chunks) = t \<and> [] \<notin> set chunks)"

lemma opened_snoc: "opened n rest cs \<Longrightarrow> opened n (rest @ [c]) (cs @ [c])"
  by (auto simp: opened_def)

lemma history_quiet:
  assumes "history ss tr" and "flash_calls [e] = []" and "\<And>n crc t. e \<noteq> Cmd (Begin n crc t)"
  shows "history ss (tr @ [e])"
proof -
  have b: "begun (tr @ [e]) n crc t cs" if "begun tr n crc t cs" for n crc t cs
    using begun_snoc [OF that assms(3)] assms(2) by simp
  show ?thesis using assms(1) by (cases ss; simp; blast intro: b)
qed

lemma history_call:
  assumes "history ss tr" and "session_call ss c = Some ss'"
  shows "history ss' (tr @ [Call c])"
proof -
  have b: "begun (tr @ [Call c]) n crc t (cs @ [c])" if "begun tr n crc t cs" for n crc t cs
    using begun_snoc [OF that, of "Call c"] by simp
  show ?thesis
  proof (cases ss)
    case (Reopening n crc t)
    with assms b [of n crc t "[]"] show ?thesis by (auto split: if_splits)
  next
    case (Requested n crc t)
    with assms(1) obtain cs where cs: "begun tr n crc t cs" "cs = [] \<or> cs = [CallAbort]" by auto
    from assms(2) Requested consider "ss' = Aborted" | "ss' = Failed"
      | "ss' = Open crc t 0" "c = CallBegin n True"
      by (auto split: flash_call.splits if_splits)
    then show ?thesis
    proof cases
      case 3
      have "opened n (chunk_calls []) (cs @ [c])" using cs(2) 3 by (auto simp: opened_def)
      with b [OF cs(1)] 3 show ?thesis by force
    qed simp_all
  next
    case (Open crc t k)
    with assms(1) obtain n chunks cs where h: "begun tr n crc t cs" "opened n (chunk_calls chunks) cs"
      "length chunks = k" "[] \<notin> set chunks"
      by auto
    show ?thesis
    proof (cases c)
      case (CallChunk i bs ok)
      have "opened n (chunk_calls (chunks @ [bs])) (cs @ [CallChunk (of_nat k) bs True])"
        using opened_snoc [OF h(2)] h(3) by (simp add: chunk_calls_snoc)
      with assms(2) Open CallChunk b [OF h(1)] h(3,4) show ?thesis
        by (auto split: if_splits intro!: exI [of _ n] exI [of _ "chunks @ [bs]"]
            exI [of _ "cs @ [CallChunk (of_nat k) bs True]"])
    next
      case (CallFinish ok)
      with assms(2) Open consider "ss' = Failed" | "ss' = Finished crc" "of_nat k = t" "c = CallFinish True"
        by (auto split: if_splits)
      then show ?thesis
      proof cases
        case 2
        have "opened n (chunk_calls chunks @ [CallFinish True]) (cs @ [CallFinish True])"
          using opened_snoc [OF h(2)] .
        moreover have "begun (tr @ [Call c]) n crc t (cs @ [CallFinish True])"
          using b [OF h(1)] 2(3) by simp
        ultimately show ?thesis using 2 h(3,4) by (simp only: history.simps) blast
      qed simp
    qed (use assms(2) Open in \<open>auto split: if_splits\<close>)
  next
    case (Finished crc)
    with assms(1) obtain n chunks t cs where h: "begun tr n crc t cs" "opened n (chunk_calls chunks @ [CallFinish True]) cs"
      "of_nat (length chunks) = t" "[] \<notin> set chunks"
      by auto
    from assms(2) Finished obtain ok where c: "c = CallVerify crc ok" "ss' = (if ok then Verified else Failed)"
      by (auto split: flash_call.splits if_splits)
    show ?thesis
    proof (cases ok)
      case True
      have "opened n (chunk_calls chunks @ [CallFinish True, CallVerify crc True]) (cs @ [CallVerify crc True])"
        using opened_snoc [OF h(2), of "CallVerify crc True"] by simp
      moreover have "begun (tr @ [Call c]) n crc t (cs @ [CallVerify crc True])"
        using b [OF h(1)] c(1) True by simp
      ultimately show ?thesis using c(2) True h(3,4) by (simp only: history.simps if_True) blast
    qed (simp add: c)
  qed (use assms in \<open>auto split: flash_call.splits if_splits\<close>)
qed

lemma session_history: "session_run Closed tr = Some ss \<Longrightarrow> history ss tr"
proof (induction tr arbitrary: ss rule: rev_induct)
  case (snoc e tr)
  then obtain ss0 where run: "session_run Closed tr = Some ss0" and e: "session_step ss0 e = Some ss"
    by (auto split: bind_splits)
  note h = snoc.IH [OF run]
  show ?case
  proof (cases e)
    case (Call c)
    with history_call [OF h] e show ?thesis by simp
  next
    case (Progress st r t msg)
    with e have "ss = ss0 \<or> ss = Closed" by (simp split: if_splits)
    with history_quiet [OF h, of e] Progress show ?thesis by auto
  next
    case (Cmd c)
    show ?thesis
    proof (cases "\<exists>n crc t. c = Begin n crc t")
      case True
      with e Cmd begun_new [of tr] show ?thesis by (cases ss0) auto
    next
      case False
      with e Cmd have "ss = ss0" by (cases ss0; cases c) auto
      with history_quiet [OF h, of e] Cmd False show ?thesis by simp
    qed
  qed
qed simp

lemma session_inv_new: "session_inv wr send (recorded_manager wr target send, [], w)"
  by (auto simp: session_inv_def recorded_manager_def OtaManager_def intro!: exI [of _ Closed])

lemma run_accepted:
  assumes "fold recorded_step cmds (recorded_manager wr target send, [], w) = (m, tr, w')"
  obtains ss where "session_run Closed tr = Some ss" and "session_of m ss"
  using ota_runs.run_inv [OF session_inv_new, of wr send cmds target w] assms by (auto simp: session_inv_def)

subsection \<open>A session the writer goes along with\<close>

text \<open>A writer none of whose calls fails, for images of up to \<open>limit\<close> bytes.\<close>

definition obliging :: "u32 \<Rightarrow> 'w flash_writer \<Rightarrow> bool" where
  "obliging limit wr \<longleftrightarrow> (\<forall>w n i bs. fst (fw_begin wr n w) \<and> fst (fw_writeChunk wr i bs w) \<and> fst (fw_finish wr w) \<and>
     fst (fw_verify wr n w) \<and> fst (fw_activate wr w) \<and> fw_maxFirmwareSize wr w = limit)"

lemma obliging_ok:
  assumes "obliging limit wr"
  shows "\<exists>w'. fw_begin wr n w = (True, w')" and "\<exists>w'. fw_writeChunk wr i bs w = (True, w')"
    and "\<exists>w'. fw_finish wr w = (True, w')" and "\<exists>w'. fw_verify wr n w = (True, w')"
    and "\<exists>w'. fw_activate wr w = (True, w')" and "fw_maxFirmwareSize wr w = limit"
  using assms by (simp_all add: obliging_def) (metis prod.collapse)+

fun reports :: "ota_event list \<Rightarrow> (OtaStatus \<times> u16 \<times> u16 \<times> string option) list" where
  "reports [] = []"
| "reports (Progress st r t msg # es) = (st, r, t, msg) # reports es"
| "reports (Call c # es) = reports es"
| "reports (Cmd c # es) = reports es"

lemma reports_append [simp]: "reports (es @ es') = reports es @ reports es'"
  by (induction es rule: reports.induct) simp_all

definition data_message :: "Target \<Rightarrow> nat \<Rightarrow> u8 list \<Rightarrow> OtaData" where
  "data_message target i bs = \<lparr>data_target = target, chunk_index = of_nat i, chunk_data = Some bs\<rparr>"

definition data_commands :: "Target \<Rightarrow> u8 list list \<Rightarrow> ota_command list" where
  "data_commands target chunks = map (\<lambda>(i, bs). DataMsg (data_message target i bs)) (enumerate 0 chunks)"

lemma data_commands_snoc:
  "data_commands target (chunks @ [bs]) = data_commands target chunks @ [DataMsg (data_message target (length chunks) bs)]"
  by (simp add: data_commands_def enumerate_append_eq)

text \<open>The progress reports of \<open>k\<close> chunks: after the last one, and whenever 50 divides the counter.\<close>

definition chunk_reports :: "u16 \<Rightarrow> nat \<Rightarrow> (OtaStatus \<times> u16 \<times> u16 \<times> string option) list" where
  "chunk_reports t k = map (\<lambda>i. (Receiving, of_nat (Suc i), t, None))
     (filter (\<lambda>i. of_nat (Suc i) = t \<or> of_nat (Suc i) mod 50 = (0 :: u16)) [0..<k])"

lemma chunk_reports_Suc:
  "chunk_reports t (Suc k) = chunk_reports t k @
     (if of_nat (Suc k) = t \<or> of_nat (Suc k) mod 50 = (0 :: u16) then [(Receiving, of_nat (Suc k), t, None)] else [])"
  by (simp add: chunk_reports_def)

text \<open>The state after the begin command and \<open>k\<close> chunks.\<close>

definition receiving ::
  "'w flash_writer \<Rightarrow> 'w send_progress \<Rightarrow> u32 \<Rightarrow> u32 \<Rightarrow> u16 \<Rightarrow> u8 list list \<Rightarrow>
   (ota_event list \<times> 'w) ota_manager \<times> ota_event list \<times> 'w \<Rightarrow> bool" where
  "receiving wr send n crc t chunks s \<longleftrightarrow> (case s of (m, tr, w) \<Rightarrow>
     wired wr send m \<and> om_status m = Receiving \<and> om_expectedCrc32 m = crc \<and> om_totalChunks m = t \<and>
     om_receivedChunks m = of_nat (length chunks) \<and>
     flash_calls tr = CallBegin n True # chunk_calls chunks \<and>
     reports tr = [(Preparing, 0, t, None), (Receiving, 0, t, None)] @ chunk_reports t (length chunks))"

lemma begin_receiving:
  assumes "obliging limit wr" and "0 < n" and "n \<le> limit"
  shows "receiving wr send n crc t [] (recorded_step (Begin n crc t) (recorded_manager wr target send, [], w))"
proof -
  obtain w1 where "fw_begin wr n (send target Preparing 0 t None w) = (True, w1)"
    using obliging_ok(1) [OF assms(1)] by blast
  with assms(2,3) obliging_ok(6) [OF assms(1)] show ?thesis
    by (auto simp: recorded_step_def recorded_manager_def OtaManager_def handleBegin_def transitionTo_def report_progress_def
        recorded_progress_def record_call_def Let_def receiving_def wired_def chunk_reports_def)
qed

lemma data_receiving:
  assumes "obliging limit wr" and "receiving wr send n crc t chunks s" and "bs \<noteq> []"
  shows "receiving wr send n crc t (chunks @ [bs])
     (recorded_step (DataMsg (data_message target (length chunks) bs)) s)"
proof -
  obtain m tr w where s: "s = (m, tr, w)" by (metis prod_cases3)
  obtain w1 where c: "fw_writeChunk wr (of_nat (length chunks)) bs w = (True, w1)"
    using obliging_ok(2) [OF assms(1)] by blast
  show ?thesis
    using assms(2,3) c
    by (simp add: s receiving_def recorded_step_def handleData_msg_def data_message_def handleData_def mem_simps record_call_def wired_def Let_def
        report_progress_def recorded_progress_def chunk_calls_snoc chunk_reports_Suc kProgressReportInterval_def add.commute)
qed

lemma chunks_receiving:
  assumes "obliging limit wr" and "receiving wr send n crc t [] s" and "[] \<notin> set chunks"
  shows "receiving wr send n crc t chunks (fold recorded_step (data_commands target chunks) s)"
  using assms(3)
proof (induction chunks rule: rev_induct)
  case Nil
  then show ?case using assms(2) by (simp add: data_commands_def)
next
  case (snoc bs chunks)
  then have "bs \<noteq> []" "[] \<notin> set chunks" by auto
  with data_receiving [OF assms(1) snoc.IH, of bs target] show ?case
    by (simp add: data_commands_snoc)
qed

lemma end_receiving:
  assumes "obliging limit wr" and "receiving wr send n crc t chunks s" and "of_nat (length chunks) = t"
  shows "case recorded_step End s of (m, tr, w) \<Rightarrow>
     status m = Rebooting \<and>
     flash_calls tr = CallBegin n True # chunk_calls chunks @ [CallFinish True, CallVerify crc True, CallActivate True] \<and>
     reports tr = [(Preparing, 0, t, None), (Receiving, 0, t, None)] @ chunk_reports t (length chunks) @
       [(Verifying, t, t, None), (Applying, t, t, None), (Rebooting, t, t, None)]"
proof -
  obtain m tr w where s: "s = (m, tr, w)" by (metis prod_cases3)
  note ok = obliging_ok(3-5) [OF assms(1)]
  obtain w1 where 1: "fw_finish wr w = (True, w1)" using ok(1) by blast
  let ?w2 = "send (om_target m) Verifying t t None w1"
  obtain w3 where 2: "fw_verify wr crc ?w2 = (True, w3)" using ok(2) by blast
  let ?w4 = "send (om_target m) Rebooting t t None (send (om_target m) Applying t t None w3)"
  obtain w5 where 3: "fw_activate wr ?w4 = (True, w5)" using ok(3) by blast
  show ?thesis
    using assms(2,3) 1 2 3
    by (simp add: s receiving_def recorded_step_def handleEnd_def record_call_def wired_def Let_def transitionTo_def
        report_progress_def recorded_progress_def status_def)
qed

text \<open>A writer for the witnesses: every call succeeds, the limit is 64 bytes.\<close>

definition willing_writer :: "unit flash_writer" where
  "willing_writer =
     \<lparr>fw_begin = \<lambda>n w. (True, w), fw_writeChunk = \<lambda>i bs w. (True, w), fw_finish = \<lambda>w. (True, w),
      fw_verify = \<lambda>crc w. (True, w), fw_activate = \<lambda>w. (True, w), fw_abort = \<lambda>w. w, fw_maxFirmwareSize = \<lambda>w. 64\<rparr>"

lemma willing_obliging: "obliging 64 willing_writer"
  by (simp add: obliging_def willing_writer_def)

lemmas run_eval = recorded_step_def recorded_manager_def OtaManager_def handleBegin_def handleData_def handleEnd_def
  transitionTo_def report_progress_def recorded_progress_def record_call_def abort_with_def report_error_def Let_def
  recorded_def willing_writer_def mem_simps

subsection \<open>Properties\<close>

text \<open>
  C3. Refinement of the session automaton: whatever the host sends and whichever writer calls
  fail, the commands, the writer calls and the progress reports of a run, in their order, are a
  run of the session automaton, and the manager's status, checksum and counters afterwards are
  those of the automaton's state. So the writer is used in the order begin, chunks, finish,
  verify, activate only, a failed call is followed by an abort before the next command, and
  each status is reported where it belongs. A begin during a session is not refused: after any run
  that leaves the manager receiving or rebooting it first aborts the writer and then goes on like a
  begin in the idle state, and a begin never reports that it came while not idle. (There the
  code differs from its test "OtaManager rejects OtaBegin when not idle", which expects that report,
  and the branch that would make it is dead.)
\<close>

theorem ota_runs_refine_session:
  "case fold recorded_step cmds (recorded_manager wr target send, [], w) of (m, tr, w') \<Rightarrow>
     (\<exists>ss. session_run Closed tr = Some ss \<and> session_of m ss) \<and>
     handleBegin n crc k (m, tr, w') = handleBegin n crc k
       (if status m = Idle then (m, tr, w')
        else (m\<lparr>om_status := Idle, om_receivedChunks := 0, om_totalChunks := 0\<rparr>, tr @ [Call CallAbort], fw_abort wr w')) \<and>
     (\<forall>st r t. Progress st r t (Some ''OtaBegin received while not idle'')
        \<notin> set (drop (length tr) (fst (snd (handleBegin n crc k (m, tr, w'))))))"
proof -
  obtain m tr w' where r: "fold recorded_step cmds (recorded_manager wr target send, [], w) = (m, tr, w')"
    by (metis prod_cases3)
  have inv: "session_inv wr send (m, tr, w')"
    using ota_runs.run_inv [OF session_inv_new, of wr send cmds target w] r by simp
  then have w: "wired wr send m" by (simp add: session_inv_def wired_def)
  show ?thesis
    using inv begin_never_refused [OF w] by (simp add: r session_inv_def handleBegin_resets [OF w, symmetric])
qed

text \<open>
  C5. An image is activated only when it is complete and verified: before every call of
  \<open>activate\<close>, since the last begin command with size \<open>n\<close>, checksum \<open>crc\<close> and chunk count \<open>t\<close>, the
  writer has begun an image of size \<open>n\<close>, has stored non-empty chunks numbered 0, 1, 2, ... without
  a gap, as many as \<open>t\<close> says (modulo \<open>2\<^sup>1\<^sup>6\<close>), has finished, and has verified exactly
  \<open>crc\<close>, all successfully and with nothing in between; only an abort of the session before may
  come first.
\<close>

theorem ota_activates_verified_images_only:
  assumes "fold recorded_step cmds (recorded_manager wr target send, [], w) = (m, before @ Call (CallActivate ok) # after, w')"
  shows "\<exists>n crc t chunks cs. begun before n crc t cs \<and>
     opened n (chunk_calls chunks @ [CallFinish True, CallVerify crc True]) cs \<and>
     of_nat (length chunks) = t \<and> [] \<notin> set chunks"
proof -
  obtain ss where "session_run Closed (before @ Call (CallActivate ok) # after) = Some ss"
    using run_accepted [OF assms] .
  then obtain ss1 ss2 where 1: "session_run Closed before = Some ss1" "session_call ss1 (CallActivate ok) = Some ss2"
    by (auto split: bind_splits)
  then have "ss1 = Verified" by (cases ss1) (auto split: if_splits)
  with session_history [OF 1(1)] show ?thesis by fastforce
qed

theorem ota_activates_verified_images_only_witness:
  "\<exists>n crc t chunks cs. begun
       [Cmd (Begin 1 9 1), Progress Preparing 0 1 None, Call (CallBegin 1 True), Progress Receiving 0 1 None,
        Cmd (Data 0 (Some [7]) 1), Call (CallChunk 0 [7] True), Progress Receiving 1 1 None,
        Cmd End, Call (CallFinish True), Progress Verifying 1 1 None, Call (CallVerify 9 True),
        Progress Applying 1 1 None, Progress Rebooting 1 1 None] n crc t cs \<and>
     opened n (chunk_calls chunks @ [CallFinish True, CallVerify crc True]) cs"
proof -
  obtain m where m: "fold recorded_step [Begin 1 9 1, Data 0 (Some [7]) 1, End]
      (recorded_manager willing_writer Stm32 (\<lambda>t st r n msg w. w), [], ()) =
    (m, [Cmd (Begin 1 9 1), Progress Preparing 0 1 None, Call (CallBegin 1 True), Progress Receiving 0 1 None,
        Cmd (Data 0 (Some [7]) 1), Call (CallChunk 0 [7] True), Progress Receiving 1 1 None,
        Cmd End, Call (CallFinish True), Progress Verifying 1 1 None, Call (CallVerify 9 True),
        Progress Applying 1 1 None, Progress Rebooting 1 1 None] @ Call (CallActivate True) # [], ())"
    by (simp add: run_eval)
  from ota_activates_verified_images_only [OF m] show ?thesis by blast
qed

text \<open>
  Between two commands the manager is idle, receiving, or rebooting: the statuses preparing,
  verifying, applying and error are passed through inside a handler and never seen by \<open>status\<close>
  afterwards. A begin command always leaves it idle or receiving, whatever state it comes in:
  the branch of \<open>handleBegin\<close> that would leave it in the error state is never taken.
\<close>

theorem ota_rests_in_three_states:
  "case fold recorded_step cmds (recorded_manager wr target send, [], w) of (m, tr, w') \<Rightarrow>
     status m \<in> {Idle, Receiving, Rebooting} \<and> status (fst (handleBegin n crc chunks (m, s))) \<in> {Idle, Receiving}"
proof -
  obtain m tr w' where r: "fold recorded_step cmds (recorded_manager wr target send, [], w) = (m, tr, w')"
    by (metis prod_cases3)
  obtain ss where "session_of m ss" using run_accepted [OF r] by blast
  then have "status m \<in> {Idle, Receiving, Rebooting}" by (cases ss) (auto simp: status_def)
  moreover have "om_status (fst (handleBegin n crc chunks (m, s))) \<in> {Idle, Receiving}"
    by (auto simp: handleBegin_def abort_with_def report_error_def transitionTo_def Let_def split_beta)
  ultimately show ?thesis using r by (simp add: status_def)
qed

text \<open>
  C16. A session the writer goes along with succeeds: begin, non-empty chunks in order, end. The
  writer gets exactly the image and is told to verify the announced checksum and to activate;
  the host gets the reports listed, with a receiving report after the last chunk and after every
  50th. The chunk count is compared modulo \<open>2\<^sup>1\<^sup>6\<close> only.
\<close>

theorem ota_session_succeeds:
  assumes "obliging limit wr" and "0 < n" and "n \<le> limit" and "[] \<notin> set chunks" and "of_nat (length chunks) = t"
  shows "case fold recorded_step ([Begin n crc t] @ data_commands target' chunks @ [End]) (recorded_manager wr target send, [], w) of
     (m, tr, w') \<Rightarrow> status m = Rebooting \<and>
       flash_calls tr = CallBegin n True # chunk_calls chunks @ [CallFinish True, CallVerify crc True, CallActivate True] \<and>
       reports tr = [(Preparing, 0, t, None), (Receiving, 0, t, None)] @ chunk_reports t (length chunks) @
         [(Verifying, t, t, None), (Applying, t, t, None), (Rebooting, t, t, None)]"
proof -
  from end_receiving [OF assms(1) chunks_receiving [OF assms(1) begin_receiving [OF assms(1-3)] assms(4)] assms(5)]
  show ?thesis by simp
qed

theorem ota_session_succeeds_witness:
  "case fold recorded_step ([Begin 3 9 2] @ data_commands Esp32 [[1, 2], [3]] @ [End])
       (recorded_manager willing_writer Stm32 (\<lambda>t st r n msg w. w), [], ()) of (m, tr, w') \<Rightarrow>
     flash_calls tr = [CallBegin 3 True, CallChunk 0 [1, 2] True, CallChunk 1 [3] True,
       CallFinish True, CallVerify 9 True, CallActivate True]"
  using ota_session_succeeds [OF willing_obliging, of 3 "[[1, 2], [3]]" 2 9 Esp32 Stm32 "\<lambda>t st r n msg w. w" "()"]
  by (auto simp: chunk_calls_def split: prod.splits)

text \<open>
  C30. Whatever fails is cleaned up at once: if a writer call returns false, the very next thing
  the manager does is to call \<open>abort\<close>, and the next after that to report an error with a
  message; so no command is handled with a broken image open.
\<close>

theorem ota_failed_call_is_aborted:
  assumes "fold recorded_step cmds (recorded_manager wr target send, [], w) = (m, before @ Call c # after, w')"
    and "c \<in> {CallBegin n False, CallChunk i bs False, CallFinish False, CallVerify crc False, CallActivate False}"
  shows "\<exists>r t msg rest. after = Call CallAbort # Progress Error r t (Some msg) # rest"
proof -
  obtain ss where run: "session_run Closed (before @ Call c # after) = Some ss" and ss: "session_of m ss"
    using run_accepted [OF assms(1)] .
  then obtain ss1 ss2 where c: "session_call ss1 c = Some ss2" and rest: "session_run ss2 after = Some ss"
    by (auto split: bind_splits)
  have "ss2 = Failed" using assms(2) c by (cases ss1) (auto split: if_splits)
  with rest ss obtain e1 after1 where 1: "after = e1 # after1" "session_step Failed e1 = Some Aborted"
    "session_run Aborted after1 = Some ss"
    by (cases after; cases "hd after") (auto split: bind_splits if_splits)
  then obtain e2 rest where 2: "after1 = e2 # rest" "session_step Aborted e2 \<noteq> None"
    using ss by (cases after1) (auto split: bind_splits)
  from 1(2) have "e1 = Call CallAbort" by (cases e1) (auto split: if_splits)
  moreover from 2(2) obtain r t msg where "e2 = Progress Error r t (Some msg)"
    by (cases e2) (auto split: if_splits)
  ultimately show ?thesis using 1(1) 2(1) by simp
qed

theorem ota_failed_call_is_aborted_witness:
  "\<exists>r t msg rest. [Call CallAbort, Progress Error 0 1 (Some ''Flash erase failed'')]
     = Call CallAbort # Progress Error r t (Some msg) # rest"
proof -
  have "\<exists>m. fold recorded_step [Begin 1 9 1]
      (recorded_manager (willing_writer\<lparr>fw_begin := \<lambda>n w. (False, w)\<rparr>) Stm32 (\<lambda>t st r n msg w. w), [], ()) =
    (m, [Cmd (Begin 1 9 1), Progress Preparing 0 1 None] @ Call (CallBegin 1 False) #
       [Call CallAbort, Progress Error 0 1 (Some ''Flash erase failed'')], ())"
    by (simp add: run_eval)
  then show ?thesis using ota_failed_call_is_aborted by blast
qed

text \<open>
  Refused begins: a size of 0 or above what the writer takes (asked after a session in
  progress has been aborted) leaves the manager idle, reports an error, always with the message
  about a too large image, and does not reach the writer's \<open>begin\<close>.
\<close>

theorem ota_begin_refuses:
  assumes "n = 0 \<or> n > fw_maxFirmwareSize wr w"
  shows "case recorded_step (Begin n crc t) (recorded_manager wr target send, [], w) of (m, tr, w') \<Rightarrow>
     status m = Idle \<and> tr = [Cmd (Begin n crc t), Progress Error 0 0 (Some ''Firmware too large for target'')]"
  using assms
  by (auto simp: recorded_step_def recorded_manager_def OtaManager_def handleBegin_def report_error_def transitionTo_def
      report_progress_def recorded_progress_def Let_def status_def)

theorem ota_begin_refuses_witness:
  "case recorded_step (Begin 65 9 1) (recorded_manager willing_writer Esp32 (\<lambda>t st r n msg w. w), [], ()) of (m, tr, w') \<Rightarrow>
     status m = Idle \<and> tr = [Cmd (Begin 65 9 1), Progress Error 0 0 (Some ''Firmware too large for target'')]"
  by (rule ota_begin_refuses) (simp add: willing_writer_def)

text \<open>
  The two overloads of \<open>handleData\<close> treat an empty chunk differently. Outside the receiving
  state the raw one ignores every chunk; the one on messages calls the writer's \<open>abort\<close>, reports
  an error and goes idle in every state, also after a successful activation. While receiving, a
  chunk whose index is not the counter aborts the session, before its data is looked at.
\<close>

theorem ota_data_errors:
  assumes "om_status m \<noteq> Receiving" and "chunk_data msg \<in> {None, Some []}"
    and "om_status m' = Receiving" and "i \<noteq> om_receivedChunks m'"
  shows "handleData j data k (m, w) = Some (m, w) \<and>
     handleData_msg msg (m, w) = Some (abort_with ''Empty chunk data'' (m, w)) \<and>
     handleData i data k (m', w) = Some (abort_with ''Unexpected chunk index'' (m', w)) \<and>
     (\<forall>text. status (fst (abort_with text (m, w))) = Idle)"
  using assms
  by (auto simp: handleData_def handleData_msg_def abort_with_def report_error_def transitionTo_def Let_def status_def)

theorem ota_data_errors_witness:
  "handleData_msg \<lparr>data_target = Stm32, chunk_index = 0, chunk_data = None\<rparr>
       ((OtaManager willing_writer Stm32 None)\<lparr>om_status := Rebooting\<rparr>, ()) =
     Some (abort_with ''Empty chunk data'' ((OtaManager willing_writer Stm32 None)\<lparr>om_status := Rebooting\<rparr>, ()))"
  using ota_data_errors [of "(OtaManager willing_writer Stm32 None)\<lparr>om_status := Rebooting\<rparr>"
      "\<lparr>data_target = Stm32, chunk_index = 0, chunk_data = None\<rparr>"
      "(OtaManager willing_writer Stm32 None)\<lparr>om_status := Receiving\<rparr>" 1 0 None 0 "()"]
  by (simp add: OtaManager_def)

end
