(* ===== verification/Endpoint.thy ===== *)
theory Endpoint
  imports Frame_Transport
begin

section \<open>What the four message endpoints share\<close>

text \<open>
  Each endpoint sends finished FlatBuffers over a frame transport and, on the way back, checks
  a frame's payload (file identifier, verifier, root) and dispatches the message in it to the
  handler registered for its kind. FlatBuffers and the headers it generates from the schemas are
  not part of the repository: they are a parameter, the record \<open>codec\<close>, over the type of the
  schema's envelope. \<open>codec_ok\<close> names the documented behaviour the endpoints rely on: what a
  builder has finished has the identifier, verifies, and reads back as what was built, if it is
  one of the envelopes the builder stores exactly.

  The locale is the contract of an endpoint: how its \<open>HandleFrame\<close>, \<open>HandleIncoming\<close> and
  \<open>Send\<close> rest on the checks, the dispatch and the transport. It is interpreted for each of
  the four endpoints in their theories.
\<close>

text \<open>\<open>BufferHasIdentifier\<close> gets no size: it is \<open>None\<close> if it reads past the memory it is given.\<close>

record 'env codec =
  BufferHasIdentifier :: "u8 list \<Rightarrow> bool option"
  VerifyBuffer :: "u8 list \<Rightarrow> bool"
  GetRoot :: "u8 list \<Rightarrow> 'env option"
  FinishBuffer :: "'env \<Rightarrow> u8 list"

definition codec_ok :: "'env codec \<Rightarrow> ('env \<Rightarrow> bool) \<Rightarrow> bool" where
  "codec_ok codec exact \<longleftrightarrow> (\<forall>env rest. exact env \<and> length (FinishBuffer codec env) \<le> kMaxFrameSize \<longrightarrow>
     FinishBuffer codec env \<noteq> [] \<and>
     BufferHasIdentifier codec (FinishBuffer codec env @ rest) = Some True \<and>
     VerifyBuffer codec (FinishBuffer codec env) \<and>
     GetRoot codec (FinishBuffer codec env @ rest) = Some env)"

text \<open>The identifier is at bytes 4 to 7, compared from byte 4 on until a difference is found.\<close>

definition identifier_reads :: "'env codec \<Rightarrow> bool" where
  "identifier_reads codec \<longleftrightarrow> (\<forall>mem. (length mem \<le> 4 \<longrightarrow> BufferHasIdentifier codec mem = None) \<and>
     (8 \<le> length mem \<longrightarrow> BufferHasIdentifier codec mem \<noteq> None))"

subsection \<open>Common steps\<close>

text \<open>
  The checks of every \<open>HandleFrame\<close>: \<open>None\<close> is an access outside the memory, \<open>Some None\<close>
  an early \<open>return false\<close>, \<open>Some (Some env)\<close> the envelope to dispatch on.
\<close>

definition checked_envelope :: "'env codec \<Rightarrow> ptr \<Rightarrow> nat \<Rightarrow> 'env option option" where
  "checked_envelope codec data n =
     (case data of
        None \<Rightarrow> Some None
      | Some mem \<Rightarrow>
          if n = 0 then Some None
          else do {
            has_identifier \<leftarrow> BufferHasIdentifier codec mem;
            if \<not> has_identifier then Some None
            else do {
              bs \<leftarrow> read_at mem 0 n;
              if \<not> VerifyBuffer codec bs then Some None else Some (GetRoot codec mem)
            }
          })"

text \<open>Call a handler if one is registered and the message is there.\<close>

definition invoke :: "('m \<Rightarrow> 'w \<Rightarrow> 'w) option \<Rightarrow> 'm option \<Rightarrow> 'w \<Rightarrow> 'w" where
  "invoke handler message w =
     (case handler of None \<Rightarrow> w | Some f \<Rightarrow> (case message of None \<Rightarrow> w | Some m \<Rightarrow> f m w))"

lemma invoke_simps [simp]:
  "invoke None message w = w"
  "invoke handler None w = w"
  "invoke (Some f) (Some m) w = f m w"
  by (simp_all add: invoke_def split: option.split)

text \<open>A detached buffer: its bytes, or nothing (a null pointer and size 0).\<close>

type_synonym detached_buffer = "u8 list option"

definition buffer_size :: "detached_buffer \<Rightarrow> nat" where
  "buffer_size buf = (case buf of None \<Rightarrow> 0 | Some bs \<Rightarrow> length bs)"

text \<open>The bytes of a C array argument that is null-checked and size-checked before use.\<close>

definition optional_vector :: "ptr \<Rightarrow> nat \<Rightarrow> u8 list option option" where
  "optional_vector data n =
     (case data of
        None \<Rightarrow> Some None
      | Some mem \<Rightarrow> if n > 0 then map_option Some (read_at mem 0 n) else Some None)"

lemma optional_vector_safe: "readable data n \<Longrightarrow> optional_vector data n \<noteq> None"
  by (auto simp: optional_vector_def readable_def mem_simps split: option.splits)

subsection \<open>The contract of an endpoint\<close>

locale message_endpoint =
  fixes handle :: "'env codec \<Rightarrow> 'ep \<Rightarrow> ptr \<Rightarrow> nat \<Rightarrow> 'w \<Rightarrow> (bool \<times> 'w) option"
    and incoming :: "'env codec \<Rightarrow> nat \<Rightarrow> 'ep \<Rightarrow> ptr \<Rightarrow> nat \<Rightarrow> 'w \<Rightarrow> (bool \<times> 'w) option"
    and send :: "'ep \<Rightarrow> detached_buffer \<Rightarrow> transmit_state \<Rightarrow> 'w \<Rightarrow> (bool \<times> 'ep \<times> transmit_state \<times> 'w) option"
    and dispatch :: "'ep \<Rightarrow> 'env \<Rightarrow> 'w \<Rightarrow> bool \<times> 'w"
    and transport :: "'ep \<Rightarrow> 'w frame_transport"
    and with_transport :: "'w frame_transport \<Rightarrow> 'ep \<Rightarrow> 'ep"
  assumes handle_checks: "handle codec ep data n w =
      (case checked_envelope codec data n of
         None \<Rightarrow> None | Some None \<Rightarrow> Some (False, w) | Some (Some env) \<Rightarrow> Some (dispatch ep env w))"
    and incoming_handles: "incoming codec szw ep data n w =
      HandleIncoming szw data n (Some (\<lambda>mem k. handle codec ep (Some mem) k)) w"
    and send_frames: "send ep buf tx w =
      (case Send (transport ep) buf (buffer_size buf) tx w of
         None \<Rightarrow> None | Some (ok, ft, tx', w') \<Rightarrow> Some (ok, with_transport ft ep, tx', w'))"
begin

lemma handle_finished:
  assumes "codec_ok codec exact" and "exact env" and "length (FinishBuffer codec env) \<le> kMaxFrameSize"
  shows "handle codec ep (Some (FinishBuffer codec env @ rest)) (length (FinishBuffer codec env)) w
     = Some (dispatch ep env w)"
  using assms by (simp add: handle_checks checked_envelope_def codec_ok_def mem_simps)

lemma incoming_finished:
  assumes "codec_ok codec exact" and "exact env" and "length (FinishBuffer codec env) \<le> kMaxFrameSize"
    and "32 \<le> szw"
  shows "incoming codec szw ep (Some (data_frame seq (FinishBuffer codec env) @ rest))
       (12 + length (FinishBuffer codec env)) w = Some (dispatch ep env w)"
proof -
  have "(2::nat) ^ 32 \<le> 2 ^ szw" by (rule power_increasing) (use assms(4) in simp_all)
  with assms(3) have "12 + length (FinishBuffer codec env) < 2 ^ szw" "length (FinishBuffer codec env) < 2 ^ 32"
    by (simp_all add: size_consts)
  from HandleIncoming_data_frame [OF assms(4) this, of seq rest "\<lambda>mem k. handle codec ep (Some mem) k" w]
  show ?thesis using handle_finished [OF assms(1-3)] by (simp add: incoming_handles)
qed

lemma send_finished:
  assumes "length (FinishBuffer codec env) \<le> kMaxFrameSize" and "transmit_ok tx" and "ft_write (transport ep) = Some write"
    and "fr = data_frame (ft_next_sequence (transport ep)) (FinishBuffer codec env)"
  shows "send ep (Some (FinishBuffer codec env)) tx w =
     (case write fr w of (ok, w') \<Rightarrow>
        Some (ok, with_transport (snd (NextSequence (transport ep))) ep, store_frame tx fr, w'))"
  using assms Send_ok [OF assms(3), of "length (FinishBuffer codec env)" "Some (FinishBuffer codec env)" tx w]
  by (simp add: send_frames buffer_size_def payload_ok_def payload_bytes_def Let_def split_beta)

lemma incoming_frame:
  assumes "codec_ok codec exact" and "exact env" and "length (FinishBuffer codec env) \<le> kMaxFrameSize"
    and "32 \<le> szw"
  shows "incoming codec szw ep (Some (data_frame seq (FinishBuffer codec env)))
       (length (data_frame seq (FinishBuffer codec env))) w = Some (dispatch ep env w)"
  using incoming_finished [OF assms, of ep seq "[]" w] by simp

text \<open>A payload that fails a check reaches no handler.\<close>

lemma handle_refuses:
  assumes "n = 0 \<or> BufferHasIdentifier codec mem = Some False \<or>
     BufferHasIdentifier codec mem = Some True \<and> n \<le> length mem \<and> \<not> VerifyBuffer codec (take n mem)"
  shows "handle codec ep (Some mem) n w = Some (False, w)"
  using assms by (auto simp: handle_checks checked_envelope_def mem_simps)

lemma handle_null: "handle codec ep None n w = Some (False, w)"
  by (simp add: handle_checks checked_envelope_def)

text \<open>The identifier is looked for before the size is.\<close>

lemma handle_overread:
  assumes "identifier_reads codec" and "length mem \<le> 4" and "0 < n"
  shows "handle codec ep (Some mem) n w = None"
  using assms by (simp add: handle_checks checked_envelope_def identifier_reads_def)

lemma handle_safe:
  assumes "identifier_reads codec" and "8 \<le> length mem" and "n \<le> length mem"
  shows "handle codec ep (Some mem) n w \<noteq> None"
proof -
  obtain found where "BufferHasIdentifier codec mem = Some found"
    using assms(1,2) by (auto simp: identifier_reads_def)
  with assms(3) show ?thesis
    by (auto simp: handle_checks checked_envelope_def mem_simps split: option.splits)
qed

lemma incoming_safe:
  assumes "identifier_reads codec" and "16 \<le> length mem" and "n \<le> length mem" and "32 \<le> szw" and "n < 2 ^ szw"
  shows "incoming codec szw ep (Some mem) n w \<noteq> None"
  using HandleIncoming_eq [OF assms(4,5,3), of "Some (\<lambda>mem k. handle codec ep (Some mem) k)" w] handle_safe [OF assms(1), of "drop 8 mem" "n - 12" ep w] assms(2,3)
  by (auto simp: incoming_handles)

end

text \<open>
  A codec for concrete instances: it knows one envelope and its bytes, and finishes every other
  one into a buffer that fits no frame.
\<close>

definition single_codec :: "'env \<Rightarrow> u8 list \<Rightarrow> 'env codec" where
  "single_codec env bs =
     \<lparr>BufferHasIdentifier = \<lambda>mem. if length mem \<le> 4 then None else Some (take 4 (drop 4 mem) = take 4 (drop 4 bs)),
      VerifyBuffer = \<lambda>b. b = bs,
      GetRoot = \<lambda>mem. Some env,
      FinishBuffer = \<lambda>e. if e = env then bs else replicate 4097 0\<rparr>"

lemma single_codec_ok: "8 \<le> length bs \<Longrightarrow> codec_ok (single_codec env bs) exact"
  by (auto simp: codec_ok_def single_codec_def size_consts)

lemma single_codec_reads: "identifier_reads (single_codec env bs)"
  by (simp add: identifier_reads_def single_codec_def)

lemma FinishBuffer_single [simp]: "FinishBuffer (single_codec env bs) env = bs"
  by (simp add: single_codec_def)

text \<open>A codec that knows the envelopes of a table, each with eight bytes of its own.\<close>

definition table_codec :: "u8 list \<Rightarrow> ('env \<times> u8 list) list \<Rightarrow> 'env codec" where
  "table_codec ident tbl =
     \<lparr>BufferHasIdentifier = \<lambda>mem. if length mem \<le> 4 then None else Some (take 4 (drop 4 mem) = ident),
      VerifyBuffer = \<lambda>b. b \<in> snd ` set tbl,
      GetRoot = \<lambda>mem. map_of (map (\<lambda>(e, b). (b, e)) tbl) (take 8 mem),
      FinishBuffer = \<lambda>e. (case map_of tbl e of Some b \<Rightarrow> b | None \<Rightarrow> replicate 4097 0)\<rparr>"

lemma table_codec_ok:
  assumes "\<forall>(e, b) \<in> set tbl. length b = 8 \<and> drop 4 b = ident" and "distinct (map snd tbl)"
  shows "codec_ok (table_codec ident tbl) exact"
  unfolding codec_ok_def
proof (intro allI impI)
  fix env and rest :: "u8 list"
  assume "exact env \<and> length (FinishBuffer (table_codec ident tbl) env) \<le> kMaxFrameSize"
  then obtain b where b: "map_of tbl env = Some b"
    by (cases "map_of tbl env") (auto simp: table_codec_def size_consts)
  then have mem: "(env, b) \<in> set tbl" by (rule map_of_SomeD)
  with assms(1) have len: "length b = 8" "drop 4 b = ident" by auto
  have "distinct (map fst (map (\<lambda>(e, b). (b, e)) tbl))"
    using assms(2) by (simp add: comp_def split_beta)
  moreover have "(b, env) \<in> set (map (\<lambda>(e, b). (b, e)) tbl)" using mem by force
  ultimately have "map_of (map (\<lambda>(e, b). (b, e)) tbl) b = Some env" by simp
  moreover have "take 4 (drop 4 (b @ rest)) = ident" "b \<noteq> []" using len by auto
  ultimately show "FinishBuffer (table_codec ident tbl) env \<noteq> [] \<and>
      BufferHasIdentifier (table_codec ident tbl) (FinishBuffer (table_codec ident tbl) env @ rest) = Some True \<and>
      VerifyBuffer (table_codec ident tbl) (FinishBuffer (table_codec ident tbl) env) \<and>
      GetRoot (table_codec ident tbl) (FinishBuffer (table_codec ident tbl) env @ rest) = Some env"
    using mem b len by (auto simp: table_codec_def intro!: image_eqI [of _ snd "(env, b)"])
qed

end
