(* ===== verification/Midi_Endpoint.thy ===== *)
theory Midi_Endpoint
  imports Endpoint
begin

section \<open>The MIDI endpoint (src/midi_endpoint.cpp, schemas/midi_messages.fbs)\<close>

text \<open>
  The messages of the MIDI schema, the endpoint that dispatches them, and the functions that
  build them. An absent vector field is \<open>None\<close>. A packet carries \<open>None\<close> if its tag is there
  without a value; \<open>Packet_NONE\<close> and \<open>Packet_Unknown\<close> are the remaining tags. A verified buffer may
  hold any byte in a field of enumeration type: \<open>Other\<close> is one that is no enumerator.
\<close>

subsection \<open>Messages\<close>

record Ping =
  ping_sequence :: u32
  ping_timestamp :: u64

datatype ChannelMessageType = NoteOff | NoteOn | PolyphonicKeyPressure | ControlChange
  | ProgramChange | ChannelPressure | PitchBend | ChannelMessageType_Other u8

record ChannelMessage =
  channel :: u8
  channel_message_type :: ChannelMessageType
  data1 :: u8
  data2 :: u8

datatype SystemCommonType = TimeCodeQuarterFrame | SongPositionPointer | SongSelect | TuneRequest
  | SystemCommonType_Other u8

record SystemCommonMessage =
  common_message_type :: SystemCommonType
  common_value :: u16

datatype SystemRealTimeType = TimingClock | Start | Continue | Stop | ActiveSensing | SystemReset
  | SystemRealTimeType_Other u8

record SystemRealTimeMessage =
  real_time_message_type :: SystemRealTimeType

record SystemExclusiveMessage =
  manufacturer_id :: "u8 list option"
  sysex_payload :: "u8 list option"

datatype midi_packet =
    Packet_NONE
  | Packet_Ping "Ping option"
  | Packet_ChannelMessage "ChannelMessage option"
  | Packet_SystemCommonMessage "SystemCommonMessage option"
  | Packet_SystemRealTimeMessage "SystemRealTimeMessage option"
  | Packet_SystemExclusiveMessage "SystemExclusiveMessage option"
  | Packet_Unknown u8

subsection \<open>The endpoint\<close>

record 'w midi_endpoint =
  midi_transport :: "'w frame_transport"
  ping_handler :: "(Ping \<Rightarrow> 'w \<Rightarrow> 'w) option"
  channel_handler :: "(ChannelMessage \<Rightarrow> 'w \<Rightarrow> 'w) option"
  system_common_handler :: "(SystemCommonMessage \<Rightarrow> 'w \<Rightarrow> 'w) option"
  system_real_time_handler :: "(SystemRealTimeMessage \<Rightarrow> 'w \<Rightarrow> 'w) option"
  system_exclusive_handler :: "(SystemExclusiveMessage \<Rightarrow> 'w \<Rightarrow> 'w) option"

definition MidiEndpoint :: "'w write_callback option \<Rightarrow> 'w midi_endpoint" where
  "MidiEndpoint write =
     \<lparr>midi_transport = FrameTransport write, ping_handler = None, channel_handler = None,
      system_common_handler = None, system_real_time_handler = None, system_exclusive_handler = None\<rparr>"

definition MidiEndpoint_Send ::
  "'w midi_endpoint \<Rightarrow> detached_buffer \<Rightarrow> transmit_state \<Rightarrow> 'w \<Rightarrow>
   (bool \<times> 'w midi_endpoint \<times> transmit_state \<times> 'w) option" where
  "MidiEndpoint_Send ep buf tx w =
     (case Send (midi_transport ep) buf (buffer_size buf) tx w of
        None \<Rightarrow> None
      | Some (ok, ft, tx', w') \<Rightarrow> Some (ok, ep\<lparr>midi_transport := ft\<rparr>, tx', w'))"

definition midi_dispatch :: "'w midi_endpoint \<Rightarrow> midi_packet \<Rightarrow> 'w \<Rightarrow> bool \<times> 'w" where
  "midi_dispatch ep envelope w =
     (case envelope of
        Packet_Ping m \<Rightarrow> (True, invoke (ping_handler ep) m w)
      | Packet_ChannelMessage m \<Rightarrow> (True, invoke (channel_handler ep) m w)
      | Packet_SystemCommonMessage m \<Rightarrow> (True, invoke (system_common_handler ep) m w)
      | Packet_SystemRealTimeMessage m \<Rightarrow> (True, invoke (system_real_time_handler ep) m w)
      | Packet_SystemExclusiveMessage m \<Rightarrow> (True, invoke (system_exclusive_handler ep) m w)
      | Packet_NONE \<Rightarrow> (False, w)
      | Packet_Unknown tag \<Rightarrow> (False, w))"

definition MidiEndpoint_HandleFrame ::
  "midi_packet codec \<Rightarrow> 'w midi_endpoint \<Rightarrow> ptr \<Rightarrow> nat \<Rightarrow> 'w \<Rightarrow> (bool \<times> 'w) option" where
  "MidiEndpoint_HandleFrame codec ep data n w = do {
     checked \<leftarrow> checked_envelope codec data n;
     Some (case checked of None \<Rightarrow> (False, w) | Some envelope \<Rightarrow> midi_dispatch ep envelope w)
   }"

definition MidiEndpoint_HandleIncoming ::
  "midi_packet codec \<Rightarrow> nat \<Rightarrow> 'w midi_endpoint \<Rightarrow> ptr \<Rightarrow> nat \<Rightarrow> 'w \<Rightarrow> (bool \<times> 'w) option" where
  "MidiEndpoint_HandleIncoming codec szw ep data n w =
     HandleIncoming szw data n (Some (\<lambda>payload size w. MidiEndpoint_HandleFrame codec ep (Some payload) size w)) w"

definition OnPing :: "(Ping \<Rightarrow> 'w \<Rightarrow> 'w) option \<Rightarrow> 'w midi_endpoint \<Rightarrow> 'w midi_endpoint" where
  "OnPing h ep = ep\<lparr>ping_handler := h\<rparr>"

definition OnChannelMessage :: "(ChannelMessage \<Rightarrow> 'w \<Rightarrow> 'w) option \<Rightarrow> 'w midi_endpoint \<Rightarrow> 'w midi_endpoint" where
  "OnChannelMessage h ep = ep\<lparr>channel_handler := h\<rparr>"

definition OnSystemCommon :: "(SystemCommonMessage \<Rightarrow> 'w \<Rightarrow> 'w) option \<Rightarrow> 'w midi_endpoint \<Rightarrow> 'w midi_endpoint" where
  "OnSystemCommon h ep = ep\<lparr>system_common_handler := h\<rparr>"

definition OnSystemRealTime :: "(SystemRealTimeMessage \<Rightarrow> 'w \<Rightarrow> 'w) option \<Rightarrow> 'w midi_endpoint \<Rightarrow> 'w midi_endpoint" where
  "OnSystemRealTime h ep = ep\<lparr>system_real_time_handler := h\<rparr>"

definition OnSystemExclusive :: "(SystemExclusiveMessage \<Rightarrow> 'w \<Rightarrow> 'w) option \<Rightarrow> 'w midi_endpoint \<Rightarrow> 'w midi_endpoint" where
  "OnSystemExclusive h ep = ep\<lparr>system_exclusive_handler := h\<rparr>"

interpretation midi: message_endpoint MidiEndpoint_HandleFrame MidiEndpoint_HandleIncoming MidiEndpoint_Send
  midi_dispatch midi_transport "\<lambda>ft ep. ep\<lparr>midi_transport := ft\<rparr>"
  by unfold_locales (simp add: MidiEndpoint_HandleFrame_def split: option.split,
    simp add: MidiEndpoint_HandleIncoming_def, simp add: MidiEndpoint_Send_def)

subsection \<open>Builders\<close>

definition BuildPingMessage :: "midi_packet codec \<Rightarrow> u32 \<Rightarrow> u64 \<Rightarrow> detached_buffer" where
  "BuildPingMessage codec sequence timestamp =
     Some (FinishBuffer codec (Packet_Ping (Some \<lparr>ping_sequence = sequence, ping_timestamp = timestamp\<rparr>)))"

definition buildSerializedChannelMessageEnvelope ::
  "midi_packet codec \<Rightarrow> u8 \<Rightarrow> ChannelMessageType \<Rightarrow> u8 \<Rightarrow> u8 \<Rightarrow> detached_buffer" where
  "buildSerializedChannelMessageEnvelope codec ch type first second =
     Some (FinishBuffer codec (Packet_ChannelMessage
       (Some \<lparr>channel = ch, channel_message_type = type, data1 = first, data2 = second\<rparr>)))"

definition BuildNoteOffMessage :: "midi_packet codec \<Rightarrow> u8 \<Rightarrow> u8 \<Rightarrow> u8 \<Rightarrow> detached_buffer" where
  "BuildNoteOffMessage codec ch note velocity = buildSerializedChannelMessageEnvelope codec ch NoteOff note velocity"

definition BuildNoteOnMessage :: "midi_packet codec \<Rightarrow> u8 \<Rightarrow> u8 \<Rightarrow> u8 \<Rightarrow> detached_buffer" where
  "BuildNoteOnMessage codec ch note velocity = buildSerializedChannelMessageEnvelope codec ch NoteOn note velocity"

definition BuildPolyphonicKeyPressureMessage :: "midi_packet codec \<Rightarrow> u8 \<Rightarrow> u8 \<Rightarrow> u8 \<Rightarrow> detached_buffer" where
  "BuildPolyphonicKeyPressureMessage codec ch note pressure =
     buildSerializedChannelMessageEnvelope codec ch PolyphonicKeyPressure note pressure"

definition BuildControlChangeMessage :: "midi_packet codec \<Rightarrow> u8 \<Rightarrow> u8 \<Rightarrow> u8 \<Rightarrow> detached_buffer" where
  "BuildControlChangeMessage codec ch controller val =
     buildSerializedChannelMessageEnvelope codec ch ControlChange controller val"

definition BuildProgramChangeMessage :: "midi_packet codec \<Rightarrow> u8 \<Rightarrow> u8 \<Rightarrow> detached_buffer" where
  "BuildProgramChangeMessage codec ch program =
     buildSerializedChannelMessageEnvelope codec ch ProgramChange program 0"

definition BuildChannelPressureMessage :: "midi_packet codec \<Rightarrow> u8 \<Rightarrow> u8 \<Rightarrow> detached_buffer" where
  "BuildChannelPressureMessage codec ch pressure =
     buildSerializedChannelMessageEnvelope codec ch ChannelPressure pressure 0"

definition MIDI_DATA_BYTE_MASK :: u16 where "MIDI_DATA_BYTE_MASK = 0x7F"

definition BuildPitchBendMessage :: "midi_packet codec \<Rightarrow> u8 \<Rightarrow> u16 \<Rightarrow> detached_buffer" where
  "BuildPitchBendMessage codec ch bend =
     (let leastSignificantByte = ucast (bend AND MIDI_DATA_BYTE_MASK);
          mostSignificantByte = ucast (drop_bit 7 bend AND MIDI_DATA_BYTE_MASK) in
      buildSerializedChannelMessageEnvelope codec ch PitchBend leastSignificantByte mostSignificantByte)"

definition buildSerializedSystemCommonMessageEnvelope ::
  "midi_packet codec \<Rightarrow> SystemCommonType \<Rightarrow> u16 \<Rightarrow> detached_buffer" where
  "buildSerializedSystemCommonMessageEnvelope codec type val =
     Some (FinishBuffer codec (Packet_SystemCommonMessage
       (Some \<lparr>common_message_type = type, common_value = val\<rparr>)))"

definition BuildTimeCodeQuarterFrameMessage :: "midi_packet codec \<Rightarrow> u8 \<Rightarrow> detached_buffer" where
  "BuildTimeCodeQuarterFrameMessage codec val =
     buildSerializedSystemCommonMessageEnvelope codec TimeCodeQuarterFrame (ucast val)"

definition BuildSongPositionPointerMessage :: "midi_packet codec \<Rightarrow> u16 \<Rightarrow> detached_buffer" where
  "BuildSongPositionPointerMessage codec position =
     buildSerializedSystemCommonMessageEnvelope codec SongPositionPointer position"

definition BuildSongSelectMessage :: "midi_packet codec \<Rightarrow> u8 \<Rightarrow> detached_buffer" where
  "BuildSongSelectMessage codec song = buildSerializedSystemCommonMessageEnvelope codec SongSelect (ucast song)"

definition BuildTuneRequestMessage :: "midi_packet codec \<Rightarrow> detached_buffer" where
  "BuildTuneRequestMessage codec = buildSerializedSystemCommonMessageEnvelope codec TuneRequest 0"

definition BuildSystemRealTimeMessage :: "midi_packet codec \<Rightarrow> SystemRealTimeType \<Rightarrow> detached_buffer" where
  "BuildSystemRealTimeMessage codec type =
     Some (FinishBuffer codec (Packet_SystemRealTimeMessage (Some \<lparr>real_time_message_type = type\<rparr>)))"

text \<open>\<open>None\<close> outside is an access outside the arrays given.\<close>

definition BuildSystemExclusiveMessage ::
  "midi_packet codec \<Rightarrow> ptr \<Rightarrow> nat \<Rightarrow> ptr \<Rightarrow> nat \<Rightarrow> detached_buffer option" where
  "BuildSystemExclusiveMessage codec manufacturer m payload n = do {
     manufacturerId \<leftarrow> optional_vector manufacturer m;
     sysexPayload \<leftarrow> optional_vector payload n;
     Some (Some (FinishBuffer codec (Packet_SystemExclusiveMessage
       (Some \<lparr>manufacturer_id = manufacturerId, sysex_payload = sysexPayload\<rparr>))))
   }"

lemmas midi_builders = BuildPingMessage_def buildSerializedChannelMessageEnvelope_def BuildNoteOffMessage_def
  BuildNoteOnMessage_def BuildPolyphonicKeyPressureMessage_def BuildControlChangeMessage_def
  BuildProgramChangeMessage_def BuildChannelPressureMessage_def BuildPitchBendMessage_def
  buildSerializedSystemCommonMessageEnvelope_def BuildTimeCodeQuarterFrameMessage_def
  BuildSongPositionPointerMessage_def BuildSongSelectMessage_def BuildTuneRequestMessage_def
  BuildSystemRealTimeMessage_def

subsection \<open>Properties\<close>

text \<open>An endpoint whose handlers append what they are given, tagged with their kind, to the world.\<close>

definition midi_recorder :: "midi_packet list midi_endpoint" where
  "midi_recorder =
     OnPing (Some (\<lambda>m log. log @ [Packet_Ping (Some m)]))
     (OnChannelMessage (Some (\<lambda>m log. log @ [Packet_ChannelMessage (Some m)]))
     (OnSystemCommon (Some (\<lambda>m log. log @ [Packet_SystemCommonMessage (Some m)]))
     (OnSystemRealTime (Some (\<lambda>m log. log @ [Packet_SystemRealTimeMessage (Some m)]))
     (OnSystemExclusive (Some (\<lambda>m log. log @ [Packet_SystemExclusiveMessage (Some m)])) (MidiEndpoint None)))))"

text \<open>The envelopes whose type tag and value agree: those a builder stores exactly.\<close>

definition midi_exact :: "midi_packet \<Rightarrow> bool" where
  "midi_exact envelope \<longleftrightarrow> (case envelope of Packet_NONE \<Rightarrow> False | Packet_Unknown t \<Rightarrow> False | _ \<Rightarrow> True)"

text \<open>
  C34. MIDI messages arrive: the buffer of each builder, sent by one endpoint, becomes one frame,
  and an endpoint that receives this frame calls exactly one handler, the one of the message's
  kind, exactly once, with the fields the builder was given: the type of channel message it
  stands for, 0 for a data byte the message has not, two times seven bits of a pitch bend, an
  absent vector for a null or empty one of a system-exclusive message.
\<close>

theorem midi_messages_arrive:
  assumes "codec_ok codec midi_exact" and "transmit_ok tx" and "ft_write (midi_transport a) = Some write" and "32 \<le> szw"
    and "(Some buf, env) \<in>
     {(Some (BuildPingMessage codec n t), Packet_Ping (Some \<lparr>ping_sequence = n, ping_timestamp = t\<rparr>)),
      (Some (BuildNoteOffMessage codec ch x y), Packet_ChannelMessage (Some \<lparr>channel = ch, channel_message_type = NoteOff, data1 = x, data2 = y\<rparr>)),
      (Some (BuildNoteOnMessage codec ch x y), Packet_ChannelMessage (Some \<lparr>channel = ch, channel_message_type = NoteOn, data1 = x, data2 = y\<rparr>)),
      (Some (BuildPolyphonicKeyPressureMessage codec ch x y),
        Packet_ChannelMessage (Some \<lparr>channel = ch, channel_message_type = PolyphonicKeyPressure, data1 = x, data2 = y\<rparr>)),
      (Some (BuildControlChangeMessage codec ch x y),
        Packet_ChannelMessage (Some \<lparr>channel = ch, channel_message_type = ControlChange, data1 = x, data2 = y\<rparr>)),
      (Some (BuildProgramChangeMessage codec ch x),
        Packet_ChannelMessage (Some \<lparr>channel = ch, channel_message_type = ProgramChange, data1 = x, data2 = 0\<rparr>)),
      (Some (BuildChannelPressureMessage codec ch x),
        Packet_ChannelMessage (Some \<lparr>channel = ch, channel_message_type = ChannelPressure, data1 = x, data2 = 0\<rparr>)),
      (Some (BuildPitchBendMessage codec ch v), Packet_ChannelMessage (Some \<lparr>channel = ch, channel_message_type = PitchBend,
        data1 = ucast (v AND 0x7F), data2 = ucast (drop_bit 7 v AND 0x7F)\<rparr>)),
      (Some (BuildTimeCodeQuarterFrameMessage codec x),
        Packet_SystemCommonMessage (Some \<lparr>common_message_type = TimeCodeQuarterFrame, common_value = ucast x\<rparr>)),
      (Some (BuildSongPositionPointerMessage codec v),
        Packet_SystemCommonMessage (Some \<lparr>common_message_type = SongPositionPointer, common_value = v\<rparr>)),
      (Some (BuildSongSelectMessage codec x),
        Packet_SystemCommonMessage (Some \<lparr>common_message_type = SongSelect, common_value = ucast x\<rparr>)),
      (Some (BuildTuneRequestMessage codec),
        Packet_SystemCommonMessage (Some \<lparr>common_message_type = TuneRequest, common_value = 0\<rparr>)),
      (Some (BuildSystemRealTimeMessage codec rt), Packet_SystemRealTimeMessage (Some \<lparr>real_time_message_type = rt\<rparr>)),
      (BuildSystemExclusiveMessage codec (Some bs1) (length bs1) (Some bs2) (length bs2),
        Packet_SystemExclusiveMessage (Some \<lparr>manufacturer_id = (if bs1 = [] then None else Some bs1),
          sysex_payload = (if bs2 = [] then None else Some bs2)\<rparr>)),
      (BuildSystemExclusiveMessage codec None k1 None k2,
        Packet_SystemExclusiveMessage (Some \<lparr>manufacturer_id = None, sysex_payload = None\<rparr>))}"
    and "buffer_size buf \<le> kMaxFrameSize"
  shows "\<exists>bs a' tx'. buf = Some bs \<and>
     (let fr = data_frame (ft_next_sequence (midi_transport a)) bs in
      MidiEndpoint_Send a buf tx w = Some (fst (write fr w), a', tx', snd (write fr w)) \<and>
      MidiEndpoint_HandleIncoming codec szw midi_recorder (Some fr) (length fr) log = Some (True, log @ [env]))"
proof -
  have buf: "buf = Some (FinishBuffer codec env)"
    using assms(5)
    by (auto simp: midi_builders MIDI_DATA_BYTE_MASK_def BuildSystemExclusiveMessage_def optional_vector_def mem_simps)
  have exact: "midi_exact env" using assms(5) by (auto simp: midi_exact_def)
  have fits: "length (FinishBuffer codec env) \<le> kMaxFrameSize" using buf assms(6) by (simp add: buffer_size_def)
  have "midi_dispatch midi_recorder env log = (True, log @ [env])"
    using assms(5) by (auto simp: midi_dispatch_def midi_recorder_def OnPing_def OnChannelMessage_def OnSystemCommon_def
        OnSystemRealTime_def OnSystemExclusive_def)
  then show ?thesis
    using midi.send_finished [OF fits assms(2,3) refl, of w]
      midi.incoming_frame [OF assms(1) exact fits assms(4), of midi_recorder "ft_next_sequence (midi_transport a)" log]
    by (auto simp: buf Let_def split_beta)
qed

theorem midi_messages_arrive_witness:
  "\<exists>codec bs. BuildNoteOnMessage codec 3 60 100 = Some bs \<and>
     MidiEndpoint_HandleIncoming codec 32 midi_recorder (Some (data_frame 1 bs)) (length (data_frame 1 bs)) []
     = Some (True, [Packet_ChannelMessage (Some \<lparr>channel = 3, channel_message_type = NoteOn, data1 = 60, data2 = 100\<rparr>)])"
proof -
  let ?env = "Packet_ChannelMessage (Some \<lparr>channel = 3, channel_message_type = NoteOn, data1 = 60, data2 = 100\<rparr>)"
  let ?a = "MidiEndpoint (Some (\<lambda>fr log. (True, fr # log)))"
  define codec where "codec = single_codec ?env [0, 0, 0, 0, 77, 50, 80, 87]"
  have ok: "codec_ok codec midi_exact" unfolding codec_def by (rule single_codec_ok) simp
  have fits: "buffer_size (BuildNoteOnMessage codec 3 60 100) \<le> kMaxFrameSize"
    by (simp add: codec_def midi_builders buffer_size_def size_consts)
  have wr: "ft_write (midi_transport ?a) = Some (\<lambda>fr log. (True, fr # log))"
    and sq: "ft_next_sequence (midi_transport ?a) = 1"
    by (simp_all add: MidiEndpoint_def FrameTransport_def)
  from midi_messages_arrive [OF ok transmit_ok_initial wr _ _ fits, of 32 ?env 0 0 3 60 100 0 TimingClock "[]" "[]" 0 0 "[]" "[]"]
  show ?thesis by (intro exI [of _ codec]) (auto simp: Let_def sq)
qed

text \<open>
  Pitch bend: the two data bytes are MIDI data bytes (below 128) and hold the value modulo
  \<open>2\<^sup>1\<^sup>4\<close>, low seven bits first; so a 14-bit value is recovered exactly, and the two upper bits
  of a larger argument are lost.
\<close>

theorem pitch_bend_split:
  "\<exists>lsb msb. BuildPitchBendMessage codec ch bend =
       Some (FinishBuffer codec (Packet_ChannelMessage
         (Some \<lparr>channel = ch, channel_message_type = PitchBend, data1 = lsb, data2 = msb\<rparr>))) \<and>
     unat lsb < 128 \<and> unat msb < 128 \<and> unat lsb + 128 * unat msb = unat bend mod 2 ^ 14"
proof -
  let ?lsb = "ucast (bend AND 0x7F) :: u8" and ?msb = "ucast (drop_bit 7 bend AND 0x7F) :: u8"
  have mask: "x AND 0x7F = take_bit 7 x" for x :: u16
    by (simp add: take_bit_eq_mask mask_eq_exp_minus_1)
  have "take_bit 16 (unat bend) = unat bend"
    by (rule take_bit_nat_eq_self) (use unsigned_less [of bend, where 'a = nat] in simp)
  then have "unat ?lsb = take_bit 7 (unat bend)" "unat ?msb = take_bit 7 (drop_bit 7 (unat bend))"
    by (simp_all add: mask unsigned_ucast_eq unsigned_take_bit_eq unsigned_drop_bit_eq)
  then have lsb: "unat ?lsb = unat bend mod 128" and msb: "unat ?msb = unat bend div 128 mod 128"
    by (simp_all add: take_bit_eq_mod drop_bit_eq_div)
  have "unat bend mod 128 + 128 * (unat bend div 128 mod 128) = unat bend mod 2 ^ 14"
    using mod_mult2_eq [of "unat bend" 128 128] by simp
  then show ?thesis
    by (intro exI [of _ ?lsb] exI [of _ ?msb])
       (simp add: midi_builders MIDI_DATA_BYTE_MASK_def lsb msb)
qed

text \<open>
  What reaches no handler: a null pointer or no bytes, a payload without the identifier, a
  payload the verifier rejects, and an envelope with no or an unknown packet type are refused;
  a known packet without a handler, or without its value, is accepted and dropped.
\<close>

theorem midi_frames_refused:
  assumes "mem \<noteq> []" and "BufferHasIdentifier codec other = Some False"
    and "BufferHasIdentifier codec mem = Some True" and "VerifyBuffer codec mem \<longrightarrow> GetRoot codec mem = Some env"
    and "env \<in> {Packet_NONE, Packet_Unknown t, Packet_Ping None, Packet_ChannelMessage None}"
  shows "MidiEndpoint_HandleFrame codec ep None k w = Some (False, w) \<and>
     MidiEndpoint_HandleFrame codec ep (Some mem) 0 w = Some (False, w) \<and>
     MidiEndpoint_HandleFrame codec ep (Some other) (length other) w = Some (False, w) \<and>
     MidiEndpoint_HandleFrame codec ep (Some mem) (length mem) w =
       Some (VerifyBuffer codec mem \<and> env \<in> {Packet_Ping None, Packet_ChannelMessage None}, w)"
  using assms
  by (auto simp: MidiEndpoint_HandleFrame_def checked_envelope_def midi_dispatch_def mem_simps)

theorem midi_frames_refused_witness:
  "MidiEndpoint_HandleFrame (single_codec (Packet_Unknown 9) [0, 0, 0, 0, 1, 2, 3, 4]) (MidiEndpoint None)
     (Some [0, 0, 0, 0, 1, 2, 3, 4]) 8 () = Some (False, ())"
proof -
  let ?codec = "single_codec (Packet_Unknown 9) [0, 0, 0, 0, 1, 2, 3, 4]"
  have c: "BufferHasIdentifier ?codec [0, 0, 0, 0, 0, 0, 0, 0] = Some False"
    "BufferHasIdentifier ?codec [0, 0, 0, 0, 1, 2, 3, 4] = Some True"
    "GetRoot ?codec [0, 0, 0, 0, 1, 2, 3, 4] = Some (Packet_Unknown 9)"
    by (simp_all add: single_codec_def)
  show ?thesis
    using midi_frames_refused [of "[0, 0, 0, 0, 1, 2, 3, 4]" ?codec "[0, 0, 0, 0, 0, 0, 0, 0]" "Packet_Unknown 9" 9
        "MidiEndpoint None" 0 "()"] c by (simp add: eval_nat_numeral)
qed

end
