(* ===== verification/Pwm_Endpoint.thy ===== *)
theory Pwm_Endpoint
  imports Endpoint
begin

section \<open>The PWM endpoint (src/pwm_endpoint.cpp, schemas/pwm_*.fbs)\<close>

text \<open>
  The messages of the PWM schemas, the endpoint that dispatches them, and the functions that
  build them. A \<open>float\<close> is its 32-bit pattern. The native objects (\<open>ChannelConfigT\<close>,
  \<open>ChannelTelemetryT\<close>) have the fields of their tables and are modelled by the same records. A
  builder leaves out a field that compares equal to its default: the only value that does not
  read back as it was is a floating-point negative zero, so \<open>pwm_exact\<close> excludes it. A verified
  buffer may hold any byte in a field of enumeration type: \<open>Other\<close> is one that is no enumerator.
\<close>

subsection \<open>Messages\<close>

type_synonym float_bits = u32

datatype ChannelConfiguration = FullBridge | HalfBridge | ChannelConfiguration_Other u8
datatype Polarity = Forward | Reverse | Polarity_Other u8
datatype ReleaseAction = ActiveBrake | FreeFloat | ReleaseAction_Other u8
datatype ChannelStatus = Inactive | Active | Fault | ChannelStatus_Other u8
datatype FaultType = None_Fault | OverVoltage | UnderVoltage | OverCurrent | Thermal | Communication | Unknown
  | FaultType_Other u8
datatype OutputModeType = Instant | Ramped | Pulse | Toggle | ADSR | CCControl | PitchBend
  | OutputModeType_Other u8
datatype FaultControlOperation = Reset | Fetch | EnableAutoReset | DisableAutoReset | FaultControlOperation_Other u8
datatype ResponseStatus = ACK | NACK | ResponseStatus_Other u8

text \<open>The mode parameters, with the fields of their tables in order.\<close>

datatype mode_params =
    Mode_NONE
  | InstantModeParams (on_level: u8) (velocity_sensitive: bool)
  | RampedModeParams (on_level: u8) (velocity_sensitive: bool) (attack_time_ms: u16) (release_time_ms: u16)
  | PulseModeParams (on_level: u8) (velocity_sensitive: bool) (attack_time_ms: u16) (hold_time_ms: u16) (release_time_ms: u16)
  | ToggleModeParams (on_level: u8) (velocity_sensitive: bool) (debounce_delay_ms: u16)
  | ADSRModeParams (attack_level: u8) (sustain_level: u8) (velocity_sensitive: bool) (attack_time_ms: u16)
      (decay_time_ms: u16) (release_time_ms: u16)
  | CCControlModeParams (cc_number: u8) (center_value: u8) (left_max_pwm: u8) (right_max_pwm: u8) (deadband_range: u8)
  | PitchBendModeParams (base_level: u8) (bend_range: u8) (unipolar: bool) (velocity_sensitive: bool)

record ChannelConfig =
  config_channel_number :: u16
  config_configuration :: ChannelConfiguration
  config_note :: u16
  midpoint :: float_bits
  min_point :: float_bits
  max_point :: float_bits
  config_output_mode :: OutputModeType
  config_mode_params :: mode_params
  config_polarity :: Polarity
  release_action :: ReleaseAction
  config_note_b :: u16

record BatchConfig =
  config_channels :: "ChannelConfig list option"

record ChannelTelemetry =
  telemetry_channel_number :: u16
  telemetry_configuration :: ChannelConfiguration
  telemetry_status :: ChannelStatus
  telemetry_note :: u16
  voltage :: float_bits
  current :: float_bits
  duty_cycle :: float_bits
  telemetry_polarity :: Polarity
  had_fault :: bool
  telemetry_output_mode :: OutputModeType
  telemetry_mode_params :: mode_params
  telemetry_note_b :: u16
  status_a :: ChannelStatus
  status_b :: ChannelStatus

record BatchTelemetry =
  telemetry_channels :: "ChannelTelemetry list option"
  input_voltage :: float_bits

record FaultLogEntry =
  timestamp_ms :: u32
  fault :: FaultType

record FaultLog =
  log_size :: u32
  entries :: "FaultLogEntry list option"

record FaultControlCommand =
  operation :: FaultControlOperation
  fault_channel_number :: u16

record HeartBeat =
  request_telemetry :: bool
  epoch :: u16

record Response =
  response_status :: ResponseStatus
  response_error_code :: u32

datatype pwm_message =
    Message_NONE
  | Message_ChannelConfig "ChannelConfig option"
  | Message_BatchConfig "BatchConfig option"
  | Message_BatchTelemetry "BatchTelemetry option"
  | Message_FaultLog "FaultLog option"
  | Message_FaultControlCommand "FaultControlCommand option"
  | Message_HeartBeat "HeartBeat option"
  | Message_Response "Response option"
  | Message_Unknown u8

subsection \<open>The endpoint\<close>

record 'w pwm_endpoint =
  pwm_transport :: "'w frame_transport"
  batch_telemetry_handler :: "(BatchTelemetry \<Rightarrow> 'w \<Rightarrow> 'w) option"
  config_handler :: "(ChannelConfig \<Rightarrow> 'w \<Rightarrow> 'w) option"
  batch_config_handler :: "(BatchConfig \<Rightarrow> 'w \<Rightarrow> 'w) option"
  fault_log_handler :: "(FaultLog \<Rightarrow> 'w \<Rightarrow> 'w) option"
  fault_control_handler :: "(FaultControlCommand \<Rightarrow> 'w \<Rightarrow> 'w) option"
  heartbeat_handler :: "(HeartBeat \<Rightarrow> 'w \<Rightarrow> 'w) option"
  response_handler :: "(Response \<Rightarrow> 'w \<Rightarrow> 'w) option"

definition PwmEndpoint :: "'w write_callback option \<Rightarrow> 'w pwm_endpoint" where
  "PwmEndpoint write =
     \<lparr>pwm_transport = FrameTransport write, batch_telemetry_handler = None, config_handler = None,
      batch_config_handler = None, fault_log_handler = None, fault_control_handler = None,
      heartbeat_handler = None, response_handler = None\<rparr>"

definition PwmEndpoint_Send ::
  "'w pwm_endpoint \<Rightarrow> detached_buffer \<Rightarrow> transmit_state \<Rightarrow> 'w \<Rightarrow>
   (bool \<times> 'w pwm_endpoint \<times> transmit_state \<times> 'w) option" where
  "PwmEndpoint_Send ep buf tx w =
     (case Send (pwm_transport ep) buf (buffer_size buf) tx w of
        None \<Rightarrow> None
      | Some (ok, ft, tx', w') \<Rightarrow> Some (ok, ep\<lparr>pwm_transport := ft\<rparr>, tx', w'))"

definition pwm_dispatch :: "'w pwm_endpoint \<Rightarrow> pwm_message \<Rightarrow> 'w \<Rightarrow> bool \<times> 'w" where
  "pwm_dispatch ep envelope w =
     (case envelope of
        Message_BatchTelemetry m \<Rightarrow> (True, invoke (batch_telemetry_handler ep) m w)
      | Message_ChannelConfig m \<Rightarrow> (True, invoke (config_handler ep) m w)
      | Message_BatchConfig m \<Rightarrow> (True, invoke (batch_config_handler ep) m w)
      | Message_FaultLog m \<Rightarrow> (True, invoke (fault_log_handler ep) m w)
      | Message_FaultControlCommand m \<Rightarrow> (True, invoke (fault_control_handler ep) m w)
      | Message_HeartBeat m \<Rightarrow> (True, invoke (heartbeat_handler ep) m w)
      | Message_Response m \<Rightarrow> (True, invoke (response_handler ep) m w)
      | Message_NONE \<Rightarrow> (False, w)
      | Message_Unknown tag \<Rightarrow> (False, w))"

definition PwmEndpoint_HandleFrame ::
  "pwm_message codec \<Rightarrow> 'w pwm_endpoint \<Rightarrow> ptr \<Rightarrow> nat \<Rightarrow> 'w \<Rightarrow> (bool \<times> 'w) option" where
  "PwmEndpoint_HandleFrame codec ep data n w = do {
     checked \<leftarrow> checked_envelope codec data n;
     Some (case checked of None \<Rightarrow> (False, w) | Some envelope \<Rightarrow> pwm_dispatch ep envelope w)
   }"

definition PwmEndpoint_HandleIncoming ::
  "pwm_message codec \<Rightarrow> nat \<Rightarrow> 'w pwm_endpoint \<Rightarrow> ptr \<Rightarrow> nat \<Rightarrow> 'w \<Rightarrow> (bool \<times> 'w) option" where
  "PwmEndpoint_HandleIncoming codec szw ep data n w =
     HandleIncoming szw data n (Some (\<lambda>payload size w. PwmEndpoint_HandleFrame codec ep (Some payload) size w)) w"

definition OnBatchTelemetry :: "(BatchTelemetry \<Rightarrow> 'w \<Rightarrow> 'w) option \<Rightarrow> 'w pwm_endpoint \<Rightarrow> 'w pwm_endpoint" where
  "OnBatchTelemetry h ep = ep\<lparr>batch_telemetry_handler := h\<rparr>"

definition OnChannelConfig :: "(ChannelConfig \<Rightarrow> 'w \<Rightarrow> 'w) option \<Rightarrow> 'w pwm_endpoint \<Rightarrow> 'w pwm_endpoint" where
  "OnChannelConfig h ep = ep\<lparr>config_handler := h\<rparr>"

definition OnBatchConfig :: "(BatchConfig \<Rightarrow> 'w \<Rightarrow> 'w) option \<Rightarrow> 'w pwm_endpoint \<Rightarrow> 'w pwm_endpoint" where
  "OnBatchConfig h ep = ep\<lparr>batch_config_handler := h\<rparr>"

definition OnFaultLog :: "(FaultLog \<Rightarrow> 'w \<Rightarrow> 'w) option \<Rightarrow> 'w pwm_endpoint \<Rightarrow> 'w pwm_endpoint" where
  "OnFaultLog h ep = ep\<lparr>fault_log_handler := h\<rparr>"

definition OnFaultControl :: "(FaultControlCommand \<Rightarrow> 'w \<Rightarrow> 'w) option \<Rightarrow> 'w pwm_endpoint \<Rightarrow> 'w pwm_endpoint" where
  "OnFaultControl h ep = ep\<lparr>fault_control_handler := h\<rparr>"

definition OnHeartBeat :: "(HeartBeat \<Rightarrow> 'w \<Rightarrow> 'w) option \<Rightarrow> 'w pwm_endpoint \<Rightarrow> 'w pwm_endpoint" where
  "OnHeartBeat h ep = ep\<lparr>heartbeat_handler := h\<rparr>"

definition OnResponse :: "(Response \<Rightarrow> 'w \<Rightarrow> 'w) option \<Rightarrow> 'w pwm_endpoint \<Rightarrow> 'w pwm_endpoint" where
  "OnResponse h ep = ep\<lparr>response_handler := h\<rparr>"

interpretation pwm: message_endpoint PwmEndpoint_HandleFrame PwmEndpoint_HandleIncoming PwmEndpoint_Send
  pwm_dispatch pwm_transport "\<lambda>ft ep. ep\<lparr>pwm_transport := ft\<rparr>"
  by unfold_locales (simp add: PwmEndpoint_HandleFrame_def split: option.split,
    simp add: PwmEndpoint_HandleIncoming_def, simp add: PwmEndpoint_Send_def)

subsection \<open>Builders\<close>

text \<open>
  An array argument is the list of its readable elements; \<open>None\<close> as a result is an access
  outside it.
\<close>

definition read_elements :: "'a list \<Rightarrow> nat \<Rightarrow> 'a list option" where
  "read_elements array n = (if n \<le> length array then Some (take n array) else None)"

definition buildSerializedPwmMessageEnvelope :: "pwm_message codec \<Rightarrow> pwm_message \<Rightarrow> detached_buffer" where
  "buildSerializedPwmMessageEnvelope codec message = Some (FinishBuffer codec message)"

definition BuildBatchTelemetryMessage ::
  "pwm_message codec \<Rightarrow> ChannelTelemetry list \<Rightarrow> nat \<Rightarrow> float_bits \<Rightarrow> detached_buffer option" where
  "BuildBatchTelemetryMessage codec channels channelCount inputVoltage = do {
     packed \<leftarrow> read_elements channels channelCount;
     Some (buildSerializedPwmMessageEnvelope codec (Message_BatchTelemetry
       (Some \<lparr>telemetry_channels = Some packed, input_voltage = inputVoltage\<rparr>)))
   }"

text \<open>The fields after the sixth keep the defaults of the schema.\<close>

definition BuildChannelConfigMessage ::
  "pwm_message codec \<Rightarrow> u16 \<Rightarrow> ChannelConfiguration \<Rightarrow> u16 \<Rightarrow> float_bits \<Rightarrow> float_bits \<Rightarrow> float_bits \<Rightarrow> detached_buffer" where
  "BuildChannelConfigMessage codec channel_number configuration note mid lo hi =
     buildSerializedPwmMessageEnvelope codec (Message_ChannelConfig (Some
       \<lparr>config_channel_number = channel_number, config_configuration = configuration, config_note = note,
        midpoint = mid, min_point = lo, max_point = hi, config_output_mode = Instant, config_mode_params = Mode_NONE,
        config_polarity = Forward, release_action = ActiveBrake, config_note_b = 255\<rparr>))"

definition BuildChannelConfigMessageFromNative :: "pwm_message codec \<Rightarrow> ChannelConfig \<Rightarrow> detached_buffer" where
  "BuildChannelConfigMessageFromNative codec config =
     buildSerializedPwmMessageEnvelope codec (Message_ChannelConfig (Some config))"

definition BuildBatchConfigMessage :: "pwm_message codec \<Rightarrow> ChannelConfig list \<Rightarrow> nat \<Rightarrow> detached_buffer option" where
  "BuildBatchConfigMessage codec configs configCount = do {
     packed \<leftarrow> read_elements configs configCount;
     Some (buildSerializedPwmMessageEnvelope codec (Message_BatchConfig (Some \<lparr>config_channels = Some packed\<rparr>)))
   }"

record FaultLogEntryData =
  entry_timestamp_ms :: u32
  entry_fault :: FaultType

definition MAXIMUM_FAULT_LOG_ENTRIES_PER_MESSAGE :: nat where
  "MAXIMUM_FAULT_LOG_ENTRIES_PER_MESSAGE = 64"

text \<open>The timestamp goes through a 64-bit variable into the 32-bit field.\<close>

definition CreateFaultLogEntry :: "FaultLogEntryData \<Rightarrow> FaultLogEntry" where
  "CreateFaultLogEntry e =
     (let faultTimestampMilliseconds = (ucast (entry_timestamp_ms e) :: u64) in
      \<lparr>timestamp_ms = ucast faultTimestampMilliseconds, fault = entry_fault e\<rparr>)"

definition BuildFaultLogMessage ::
  "pwm_message codec \<Rightarrow> u32 \<Rightarrow> FaultLogEntryData list option \<Rightarrow> nat \<Rightarrow> detached_buffer option" where
  "BuildFaultLogMessage codec total_size faultLogEntries providedEntryCount = do {
     serialized \<leftarrow> (case faultLogEntries of
        None \<Rightarrow> Some []
      | Some array \<Rightarrow>
          if providedEntryCount > 0
          then map_option (map CreateFaultLogEntry)
            (read_elements array (min providedEntryCount MAXIMUM_FAULT_LOG_ENTRIES_PER_MESSAGE))
          else Some []);
     Some (buildSerializedPwmMessageEnvelope codec (Message_FaultLog
       (Some \<lparr>log_size = total_size, entries = Some serialized\<rparr>)))
   }"

definition BuildFaultControlCommand :: "pwm_message codec \<Rightarrow> FaultControlOperation \<Rightarrow> u16 \<Rightarrow> detached_buffer" where
  "BuildFaultControlCommand codec controlOperation channelNumber =
     buildSerializedPwmMessageEnvelope codec (Message_FaultControlCommand
       (Some \<lparr>operation = controlOperation, fault_channel_number = channelNumber\<rparr>))"

definition BuildHeartBeatMessage :: "pwm_message codec \<Rightarrow> bool \<Rightarrow> u16 \<Rightarrow> detached_buffer" where
  "BuildHeartBeatMessage codec shouldRequestTelemetry ep =
     buildSerializedPwmMessageEnvelope codec (Message_HeartBeat
       (Some \<lparr>request_telemetry = shouldRequestTelemetry, epoch = ep\<rparr>))"

definition BuildResponseMessage :: "pwm_message codec \<Rightarrow> ResponseStatus \<Rightarrow> u32 \<Rightarrow> detached_buffer" where
  "BuildResponseMessage codec responseStatus errorCode =
     buildSerializedPwmMessageEnvelope codec (Message_Response
       (Some \<lparr>response_status = responseStatus, response_error_code = errorCode\<rparr>))"

lemmas pwm_builders = buildSerializedPwmMessageEnvelope_def BuildBatchTelemetryMessage_def
  BuildChannelConfigMessage_def BuildChannelConfigMessageFromNative_def BuildBatchConfigMessage_def
  BuildFaultLogMessage_def BuildFaultControlCommand_def BuildHeartBeatMessage_def BuildResponseMessage_def

subsection \<open>Properties\<close>

text \<open>An endpoint whose handlers append what they are given, tagged with their kind, to the world.\<close>

definition pwm_recorder :: "pwm_message list pwm_endpoint" where
  "pwm_recorder =
     OnBatchTelemetry (Some (\<lambda>m log. log @ [Message_BatchTelemetry (Some m)]))
     (OnChannelConfig (Some (\<lambda>m log. log @ [Message_ChannelConfig (Some m)]))
     (OnBatchConfig (Some (\<lambda>m log. log @ [Message_BatchConfig (Some m)]))
     (OnFaultLog (Some (\<lambda>m log. log @ [Message_FaultLog (Some m)]))
     (OnFaultControl (Some (\<lambda>m log. log @ [Message_FaultControlCommand (Some m)]))
     (OnHeartBeat (Some (\<lambda>m log. log @ [Message_HeartBeat (Some m)]))
     (OnResponse (Some (\<lambda>m log. log @ [Message_Response (Some m)])) (PwmEndpoint None)))))))"

definition plain_float :: "float_bits \<Rightarrow> bool" where
  "plain_float x \<longleftrightarrow> x \<noteq> 0x80000000"

definition plain_config :: "ChannelConfig \<Rightarrow> bool" where
  "plain_config c \<longleftrightarrow> plain_float (midpoint c) \<and> plain_float (min_point c) \<and> plain_float (max_point c)"

definition plain_telemetry :: "ChannelTelemetry \<Rightarrow> bool" where
  "plain_telemetry t \<longleftrightarrow> plain_float (voltage t) \<and> plain_float (current t) \<and> plain_float (duty_cycle t)"

text \<open>The envelopes a builder stores exactly: tag and value agree, no float is a negative zero.\<close>

fun pwm_exact :: "pwm_message \<Rightarrow> bool" where
  "pwm_exact (Message_ChannelConfig (Some c)) = plain_config c"
| "pwm_exact (Message_BatchConfig (Some b)) =
     (case config_channels b of None \<Rightarrow> True | Some cs \<Rightarrow> list_all plain_config cs)"
| "pwm_exact (Message_BatchTelemetry (Some b)) =
     (plain_float (input_voltage b) \<and> (case telemetry_channels b of None \<Rightarrow> True | Some ts \<Rightarrow> list_all plain_telemetry ts))"
| "pwm_exact Message_NONE = False"
| "pwm_exact (Message_Unknown tag) = False"
| "pwm_exact message = True"

text \<open>Sending one buffer and receiving its frame, whatever was built.\<close>

lemma pwm_arrives:
  assumes "codec_ok codec pwm_exact" and "transmit_ok tx" and "ft_write (pwm_transport a) = Some write" and "32 \<le> szw"
    and "buf = Some (FinishBuffer codec env)" and "pwm_exact env" and "buffer_size buf \<le> kMaxFrameSize"
    and "pwm_dispatch pwm_recorder env log = (True, log @ [env])"
  shows "\<exists>bs a' tx'. buf = Some bs \<and>
     (let fr = data_frame (ft_next_sequence (pwm_transport a)) bs in
      PwmEndpoint_Send a buf tx w = Some (fst (write fr w), a', tx', snd (write fr w)) \<and>
      PwmEndpoint_HandleIncoming codec szw pwm_recorder (Some fr) (length fr) log = Some (True, log @ [env]))"
proof -
  have fits: "length (FinishBuffer codec env) \<le> kMaxFrameSize" using assms(5,7) by (simp add: buffer_size_def)
  show ?thesis
    using pwm.send_finished [OF fits assms(2,3) refl, of w] assms(8)
      pwm.incoming_frame [OF assms(1,6) fits assms(4), of pwm_recorder "ft_next_sequence (pwm_transport a)" log]
    by (auto simp: assms(5) Let_def split_beta)
qed

lemmas pwm_recording = pwm_dispatch_def pwm_recorder_def OnBatchTelemetry_def OnChannelConfig_def OnBatchConfig_def
  OnFaultLog_def OnFaultControl_def OnHeartBeat_def OnResponse_def

text \<open>The entries of a fault log as the receiver gets them.\<close>

definition fault_entries :: "FaultLogEntryData list \<Rightarrow> FaultLogEntry list" where
  "fault_entries = map (\<lambda>e. \<lparr>timestamp_ms = entry_timestamp_ms e, fault = entry_fault e\<rparr>)"

lemma CreateFaultLogEntry_fields:
  "CreateFaultLogEntry = (\<lambda>e. \<lparr>timestamp_ms = entry_timestamp_ms e, fault = entry_fault e\<rparr>)"
  by (rule ext) (auto simp: CreateFaultLogEntry_def Let_def bit_simps intro!: bit_word_eqI)

text \<open>
  C35. PWM messages arrive: the buffer of each builder, sent by one endpoint, becomes one frame,
  and an endpoint that receives this frame calls exactly one handler, the one of the message's
  kind, exactly once, with what the builder was given: all elements of a batch in order, the first
  64 entries of a fault log at most (none for a null array) with the announced total size, and the
  schema's defaults for the configuration fields the short builder does not take. The floats given
  must not be negative zeros, which FlatBuffers stores like the default 0 (\<open>pwm_exact\<close>).
\<close>

theorem pwm_messages_arrive:
  assumes "codec_ok codec pwm_exact" and "transmit_ok tx" and "ft_write (pwm_transport a) = Some write" and "32 \<le> szw"
    and "(Some buf, env) \<in>
     {(BuildBatchTelemetryMessage codec ts (length ts) v,
        Message_BatchTelemetry (Some \<lparr>telemetry_channels = Some ts, input_voltage = v\<rparr>)),
      (Some (BuildChannelConfigMessage codec ch cfg note mid lo hi), Message_ChannelConfig (Some
        \<lparr>config_channel_number = ch, config_configuration = cfg, config_note = note, midpoint = mid, min_point = lo,
         max_point = hi, config_output_mode = Instant, config_mode_params = Mode_NONE, config_polarity = Forward,
         release_action = ActiveBrake, config_note_b = 255\<rparr>)),
      (Some (BuildChannelConfigMessageFromNative codec c), Message_ChannelConfig (Some c)),
      (BuildBatchConfigMessage codec cs (length cs), Message_BatchConfig (Some \<lparr>config_channels = Some cs\<rparr>)),
      (BuildFaultLogMessage codec n (Some es) k, Message_FaultLog (Some \<lparr>log_size = n, entries = Some (fault_entries (take (min k 64) es))\<rparr>)),
      (BuildFaultLogMessage codec n None k, Message_FaultLog (Some \<lparr>log_size = n, entries = Some []\<rparr>)),
      (Some (BuildFaultControlCommand codec op ch), Message_FaultControlCommand (Some \<lparr>operation = op, fault_channel_number = ch\<rparr>)),
      (Some (BuildHeartBeatMessage codec req e), Message_HeartBeat (Some \<lparr>request_telemetry = req, epoch = e\<rparr>)),
      (Some (BuildResponseMessage codec st err), Message_Response (Some \<lparr>response_status = st, response_error_code = err\<rparr>))}"
    and "pwm_exact env" and "min k 64 \<le> length es" and "buffer_size buf \<le> kMaxFrameSize"
  shows "\<exists>bs a' tx'. buf = Some bs \<and>
     (let fr = data_frame (ft_next_sequence (pwm_transport a)) bs in
      PwmEndpoint_Send a buf tx w = Some (fst (write fr w), a', tx', snd (write fr w)) \<and>
      PwmEndpoint_HandleIncoming codec szw pwm_recorder (Some fr) (length fr) log = Some (True, log @ [env]))"
proof (rule pwm_arrives [OF assms(1-4) _ assms(6,8)])
  show "buf = Some (FinishBuffer codec env)"
    using assms(5,7)
    by (cases "k = 0")
       (auto simp: pwm_builders read_elements_def fault_entries_def CreateFaultLogEntry_fields
         MAXIMUM_FAULT_LOG_ENTRIES_PER_MESSAGE_def)
  show "pwm_dispatch pwm_recorder env log = (True, log @ [env])"
    using assms(5) by (auto simp: pwm_recording)
qed

theorem pwm_messages_arrive_witness:
  "\<exists>codec bs. BuildResponseMessage codec NACK 7 = Some bs \<and>
     PwmEndpoint_HandleIncoming codec 32 pwm_recorder (Some (data_frame 1 bs)) (length (data_frame 1 bs)) []
     = Some (True, [Message_Response (Some \<lparr>response_status = NACK, response_error_code = 7\<rparr>)])"
proof -
  let ?env = "Message_Response (Some \<lparr>response_status = NACK, response_error_code = 7\<rparr>)"
  let ?a = "PwmEndpoint (Some (\<lambda>fr log. (True, fr # log)))"
  define codec where "codec = single_codec ?env [0, 0, 0, 0, 80, 87, 77, 88]"
  have ok: "codec_ok codec pwm_exact" unfolding codec_def by (rule single_codec_ok) simp
  have fits: "buffer_size (BuildResponseMessage codec NACK 7) \<le> kMaxFrameSize"
    by (simp add: codec_def pwm_builders buffer_size_def size_consts)
  have wr: "ft_write (pwm_transport ?a) = Some (\<lambda>fr log. (True, fr # log))"
    and sq: "ft_next_sequence (pwm_transport ?a) = 1"
    by (simp_all add: PwmEndpoint_def FrameTransport_def)
  from pwm_messages_arrive [OF ok transmit_ok_initial wr _ _ _ _ fits, of 32 ?env "[]" 0 0 FullBridge 0 0 0 0 undefined "[]" 0 "[]" 0
      Reset True 0 NACK 7 "[]" "[]"]
  show ?thesis by (intro exI [of _ codec]) (auto simp: Let_def sq)
qed

text \<open>
  Fault logs: the receiver gets the first 64 entries at most, in order, each with its
  timestamp and type, and the total log size as announced, which may be larger; a null array or
  no entries gives an empty list of entries. No element beyond the 64th is read.
\<close>

theorem fault_log_arrives_truncated:
  assumes "codec_ok codec pwm_exact" and "transmit_ok tx" and "ft_write (pwm_transport a) = Some write" and "32 \<le> szw"
    and "min k 64 \<le> length es"
    and "(Some buf, sent) \<in> {(BuildFaultLogMessage codec n (Some es) k, take (min k 64) es), (BuildFaultLogMessage codec n None k, [])}"
    and "buffer_size buf \<le> kMaxFrameSize"
  shows "\<exists>bs a' tx'. buf = Some bs \<and> length sent \<le> 64 \<and>
     (let fr = data_frame (ft_next_sequence (pwm_transport a)) bs in
      PwmEndpoint_Send a buf tx w = Some (fst (write fr w), a', tx', snd (write fr w)) \<and>
      PwmEndpoint_HandleIncoming codec szw pwm_recorder (Some fr) (length fr) log = Some (True, log @
        [Message_FaultLog (Some \<lparr>log_size = n, entries =
           Some (map (\<lambda>e. \<lparr>timestamp_ms = entry_timestamp_ms e, fault = entry_fault e\<rparr>) sent)\<rparr>)]))"
proof -
  let ?env = "Message_FaultLog (Some \<lparr>log_size = n, entries =
      Some (map (\<lambda>e. \<lparr>timestamp_ms = entry_timestamp_ms e, fault = entry_fault e\<rparr>) sent)\<rparr>)"
  have "length sent \<le> 64" using assms(6) by auto
  have "buf = Some (FinishBuffer codec ?env)"
    using assms(5,6)
    by (cases "k = 0") (auto simp: pwm_builders read_elements_def CreateFaultLogEntry_fields MAXIMUM_FAULT_LOG_ENTRIES_PER_MESSAGE_def)
  from pwm_arrives [OF assms(1-4) this _ assms(7), of log w] \<open>length sent \<le> 64\<close> show ?thesis
    by (simp add: pwm_recording)
qed

theorem fault_log_arrives_truncated_witness:
  "\<exists>codec bs. BuildFaultLogMessage codec 99 (Some (replicate 70 \<lparr>entry_timestamp_ms = 5, entry_fault = Thermal\<rparr>)) 70 = Some (Some bs) \<and>
     PwmEndpoint_HandleIncoming codec 32 pwm_recorder (Some (data_frame 1 bs)) (length (data_frame 1 bs)) []
     = Some (True, [Message_FaultLog (Some \<lparr>log_size = 99, entries =
         Some (replicate 64 \<lparr>timestamp_ms = 5, fault = Thermal\<rparr>)\<rparr>)])"
proof -
  let ?es = "replicate 70 \<lparr>entry_timestamp_ms = 5, entry_fault = Thermal\<rparr>"
  let ?env = "Message_FaultLog (Some \<lparr>log_size = 99, entries = Some (map CreateFaultLogEntry (take 64 ?es))\<rparr>)"
  let ?a = "PwmEndpoint (Some (\<lambda>fr log. (True, fr # log)))"
  define codec where "codec = single_codec ?env [0, 0, 0, 0, 80, 87, 77, 88]"
  have ok: "codec_ok codec pwm_exact" unfolding codec_def by (rule single_codec_ok) simp
  have b: "BuildFaultLogMessage codec 99 (Some ?es) 70 = Some (Some [0, 0, 0, 0, 80, 87, 77, 88])"
    by (simp add: codec_def pwm_builders read_elements_def MAXIMUM_FAULT_LOG_ENTRIES_PER_MESSAGE_def)
  have wr: "ft_write (pwm_transport ?a) = Some (\<lambda>fr log. (True, fr # log))"
    and sq: "ft_next_sequence (pwm_transport ?a) = 1"
    by (simp_all add: PwmEndpoint_def FrameTransport_def)
  from fault_log_arrives_truncated [OF ok transmit_ok_initial wr, of 32 70 ?es "Some [0, 0, 0, 0, 80, 87, 77, 88]"
      "take 64 ?es" 99 "[]" "[]"] b
  show ?thesis by (intro exI [of _ codec]) (auto simp: Let_def sq buffer_size_def size_consts)
qed

end
