(* ===== verification/Ota_Endpoint.thy ===== *)
theory Ota_Endpoint
  imports Endpoint Ota_Messages
begin

section \<open>The OTA endpoint (src/ota_endpoint.cpp)\<close>

text \<open>
  The endpoint that sends and dispatches the messages of \<open>Ota_Messages\<close>, and the functions
  that build them. The strings given to builders are C strings: the part before the first null
  character.
\<close>

datatype ota_message =
    Message_NONE
  | Message_OtaBegin "OtaBegin option"
  | Message_OtaData "OtaData option"
  | Message_OtaEnd "OtaEnd option"
  | Message_OtaProgress "OtaProgress option"
  | Message_OtaAbort "OtaAbort option"
  | Message_Unknown u8

subsection \<open>The endpoint\<close>

record 'w ota_endpoint =
  ota_transport :: "'w frame_transport"
  begin_handler :: "(OtaBegin \<Rightarrow> 'w \<Rightarrow> 'w) option"
  data_handler :: "(OtaData \<Rightarrow> 'w \<Rightarrow> 'w) option"
  end_handler :: "(OtaEnd \<Rightarrow> 'w \<Rightarrow> 'w) option"
  progress_handler :: "(OtaProgress \<Rightarrow> 'w \<Rightarrow> 'w) option"
  abort_handler :: "(OtaAbort \<Rightarrow> 'w \<Rightarrow> 'w) option"

definition OtaEndpoint :: "'w write_callback option \<Rightarrow> 'w ota_endpoint" where
  "OtaEndpoint write =
     \<lparr>ota_transport = FrameTransport write, begin_handler = None, data_handler = None,
      end_handler = None, progress_handler = None, abort_handler = None\<rparr>"

definition OtaEndpoint_Send ::
  "'w ota_endpoint \<Rightarrow> detached_buffer \<Rightarrow> transmit_state \<Rightarrow> 'w \<Rightarrow>
   (bool \<times> 'w ota_endpoint \<times> transmit_state \<times> 'w) option" where
  "OtaEndpoint_Send ep buf tx w =
     (case Send (ota_transport ep) buf (buffer_size buf) tx w of
        None \<Rightarrow> None
      | Some (ok, ft, tx', w') \<Rightarrow> Some (ok, ep\<lparr>ota_transport := ft\<rparr>, tx', w'))"

definition ota_dispatch :: "'w ota_endpoint \<Rightarrow> ota_message \<Rightarrow> 'w \<Rightarrow> bool \<times> 'w" where
  "ota_dispatch ep envelope w =
     (case envelope of
        Message_OtaBegin m \<Rightarrow> (True, invoke (begin_handler ep) m w)
      | Message_OtaData m \<Rightarrow> (True, invoke (data_handler ep) m w)
      | Message_OtaEnd m \<Rightarrow> (True, invoke (end_handler ep) m w)
      | Message_OtaProgress m \<Rightarrow> (True, invoke (progress_handler ep) m w)
      | Message_OtaAbort m \<Rightarrow> (True, invoke (abort_handler ep) m w)
      | Message_NONE \<Rightarrow> (False, w)
      | Message_Unknown tag \<Rightarrow> (False, w))"

definition OtaEndpoint_HandleFrame ::
  "ota_message codec \<Rightarrow> 'w ota_endpoint \<Rightarrow> ptr \<Rightarrow> nat \<Rightarrow> 'w \<Rightarrow> (bool \<times> 'w) option" where
  "OtaEndpoint_HandleFrame codec ep data n w = do {
     checked \<leftarrow> checked_envelope codec data n;
     Some (case checked of None \<Rightarrow> (False, w) | Some envelope \<Rightarrow> ota_dispatch ep envelope w)
   }"

definition OtaEndpoint_HandleIncoming ::
  "ota_message codec \<Rightarrow> nat \<Rightarrow> 'w ota_endpoint \<Rightarrow> ptr \<Rightarrow> nat \<Rightarrow> 'w \<Rightarrow> (bool \<times> 'w) option" where
  "OtaEndpoint_HandleIncoming codec szw ep data n w =
     HandleIncoming szw data n (Some (\<lambda>payload size w. OtaEndpoint_HandleFrame codec ep (Some payload) size w)) w"

definition OnBegin :: "(OtaBegin \<Rightarrow> 'w \<Rightarrow> 'w) option \<Rightarrow> 'w ota_endpoint \<Rightarrow> 'w ota_endpoint" where
  "OnBegin h ep = ep\<lparr>begin_handler := h\<rparr>"

definition OnData :: "(OtaData \<Rightarrow> 'w \<Rightarrow> 'w) option \<Rightarrow> 'w ota_endpoint \<Rightarrow> 'w ota_endpoint" where
  "OnData h ep = ep\<lparr>data_handler := h\<rparr>"

definition OnEnd :: "(OtaEnd \<Rightarrow> 'w \<Rightarrow> 'w) option \<Rightarrow> 'w ota_endpoint \<Rightarrow> 'w ota_endpoint" where
  "OnEnd h ep = ep\<lparr>end_handler := h\<rparr>"

definition OnProgress :: "(OtaProgress \<Rightarrow> 'w \<Rightarrow> 'w) option \<Rightarrow> 'w ota_endpoint \<Rightarrow> 'w ota_endpoint" where
  "OnProgress h ep = ep\<lparr>progress_handler := h\<rparr>"

definition OnAbort :: "(OtaAbort \<Rightarrow> 'w \<Rightarrow> 'w) option \<Rightarrow> 'w ota_endpoint \<Rightarrow> 'w ota_endpoint" where
  "OnAbort h ep = ep\<lparr>abort_handler := h\<rparr>"

interpretation ota: message_endpoint OtaEndpoint_HandleFrame OtaEndpoint_HandleIncoming OtaEndpoint_Send
  ota_dispatch ota_transport "\<lambda>ft ep. ep\<lparr>ota_transport := ft\<rparr>"
  by unfold_locales (simp add: OtaEndpoint_HandleFrame_def split: option.split,
    simp add: OtaEndpoint_HandleIncoming_def, simp add: OtaEndpoint_Send_def)

subsection \<open>Builders\<close>

definition buildSerializedOtaMessageEnvelope :: "ota_message codec \<Rightarrow> ota_message \<Rightarrow> detached_buffer" where
  "buildSerializedOtaMessageEnvelope codec message = Some (FinishBuffer codec message)"

text \<open>The two compression fields keep their default 0.\<close>

definition BuildOtaBeginMessage ::
  "ota_message codec \<Rightarrow> Target \<Rightarrow> u32 \<Rightarrow> u32 \<Rightarrow> string option \<Rightarrow> u16 \<Rightarrow> detached_buffer" where
  "BuildOtaBeginMessage codec target firmwareSize firmwareCrc32 versionString totalChunks =
     buildSerializedOtaMessageEnvelope codec (Message_OtaBegin (Some
       \<lparr>begin_target = target, firmware_size = firmwareSize, firmware_crc32 = firmwareCrc32,
        version_string = map_option c_str versionString, total_chunks = totalChunks,
        compressed_size = 0, compressed_crc32 = 0\<rparr>))"

definition BuildOtaDataMessage ::
  "ota_message codec \<Rightarrow> Target \<Rightarrow> u16 \<Rightarrow> ptr \<Rightarrow> nat \<Rightarrow> detached_buffer option" where
  "BuildOtaDataMessage codec target chunkIndex data dataSize = do {
     bytes \<leftarrow> optional_vector data dataSize;
     Some (buildSerializedOtaMessageEnvelope codec (Message_OtaData (Some
       \<lparr>data_target = target, chunk_index = chunkIndex, chunk_data = bytes\<rparr>)))
   }"

definition BuildOtaEndMessage :: "ota_message codec \<Rightarrow> Target \<Rightarrow> detached_buffer" where
  "BuildOtaEndMessage codec target =
     buildSerializedOtaMessageEnvelope codec (Message_OtaEnd (Some \<lparr>end_target = target\<rparr>))"

definition BuildOtaProgressMessage ::
  "ota_message codec \<Rightarrow> Target \<Rightarrow> OtaStatus \<Rightarrow> u16 \<Rightarrow> u16 \<Rightarrow> string option \<Rightarrow> detached_buffer" where
  "BuildOtaProgressMessage codec target status chunksReceived totalChunks errorMessage =
     buildSerializedOtaMessageEnvelope codec (Message_OtaProgress (Some
       \<lparr>progress_target = target, progress_status = status, chunks_received = chunksReceived,
        progress_total_chunks = totalChunks, error_message = map_option c_str errorMessage\<rparr>))"

definition BuildOtaAbortMessage :: "ota_message codec \<Rightarrow> Target \<Rightarrow> string option \<Rightarrow> detached_buffer" where
  "BuildOtaAbortMessage codec target reason =
     buildSerializedOtaMessageEnvelope codec (Message_OtaAbort (Some
       \<lparr>abort_target = target, abort_reason = map_option c_str reason\<rparr>))"

lemmas ota_builders = buildSerializedOtaMessageEnvelope_def BuildOtaBeginMessage_def BuildOtaDataMessage_def
  BuildOtaEndMessage_def BuildOtaProgressMessage_def BuildOtaAbortMessage_def

text \<open>The envelopes whose type tag and value agree: those a builder stores exactly.\<close>

definition ota_exact :: "ota_message \<Rightarrow> bool" where
  "ota_exact envelope \<longleftrightarrow> (case envelope of Message_NONE \<Rightarrow> False | Message_Unknown t \<Rightarrow> False | _ \<Rightarrow> True)"

subsection \<open>Properties\<close>

text \<open>An endpoint whose handlers append what they are given, tagged with their kind, to the world.\<close>

definition ota_recorder :: "ota_message list ota_endpoint" where
  "ota_recorder =
     OnBegin (Some (\<lambda>m log. log @ [Message_OtaBegin (Some m)]))
     (OnData (Some (\<lambda>m log. log @ [Message_OtaData (Some m)]))
     (OnEnd (Some (\<lambda>m log. log @ [Message_OtaEnd (Some m)]))
     (OnProgress (Some (\<lambda>m log. log @ [Message_OtaProgress (Some m)]))
     (OnAbort (Some (\<lambda>m log. log @ [Message_OtaAbort (Some m)])) (OtaEndpoint None)))))"

text \<open>
  C36. OTA messages arrive: the buffer of each builder, sent by one endpoint, becomes one frame,
  and an endpoint that receives this frame calls exactly one handler, the one of the message's
  kind, exactly once, with what the builder was given: the version, the error message and the reason
  as strings cut at their first null character, absent if null; the chunk with as many bytes as its
  size says, absent if it is null or empty. The two compression fields of a begin arrive as 0.
\<close>

theorem ota_messages_arrive:
  assumes "codec_ok codec ota_exact" and "transmit_ok tx" and "ft_write (ota_transport a) = Some write" and "32 \<le> szw"
    and "(Some buf, env) \<in>
     {(Some (BuildOtaBeginMessage codec tgt n crc version k), Message_OtaBegin (Some
        \<lparr>begin_target = tgt, firmware_size = n, firmware_crc32 = crc, version_string = map_option c_str version,
         total_chunks = k, compressed_size = 0, compressed_crc32 = 0\<rparr>)),
      (BuildOtaDataMessage codec tgt i data len, Message_OtaData (Some
        \<lparr>data_target = tgt, chunk_index = i,
         chunk_data = (if payload_bytes data len = [] then None else Some (payload_bytes data len))\<rparr>)),
      (Some (BuildOtaEndMessage codec tgt), Message_OtaEnd (Some \<lparr>end_target = tgt\<rparr>)),
      (Some (BuildOtaProgressMessage codec tgt st r k err), Message_OtaProgress (Some
        \<lparr>progress_target = tgt, progress_status = st, chunks_received = r, progress_total_chunks = k,
         error_message = map_option c_str err\<rparr>)),
      (Some (BuildOtaAbortMessage codec tgt reason), Message_OtaAbort (Some
        \<lparr>abort_target = tgt, abort_reason = map_option c_str reason\<rparr>))}"
    and "readable data len" and "buffer_size buf \<le> kMaxFrameSize"
  shows "\<exists>bs a' tx'. buf = Some bs \<and>
     (let fr = data_frame (ft_next_sequence (ota_transport a)) bs in
      OtaEndpoint_Send a buf tx w = Some (fst (write fr w), a', tx', snd (write fr w)) \<and>
      OtaEndpoint_HandleIncoming codec szw ota_recorder (Some fr) (length fr) log = Some (True, log @ [env]))"
proof -
  have buf: "buf = Some (FinishBuffer codec env)"
    using assms(5,6)
    by (auto simp: ota_builders optional_vector_def readable_def payload_bytes_def mem_simps split: option.splits if_splits)
  have exact: "ota_exact env" using assms(5) by (auto simp: ota_exact_def)
  have fits: "length (FinishBuffer codec env) \<le> kMaxFrameSize" using buf assms(7) by (simp add: buffer_size_def)
  have "ota_dispatch ota_recorder env log = (True, log @ [env])"
    using assms(5) by (auto simp: ota_dispatch_def ota_recorder_def OnBegin_def OnData_def OnEnd_def OnProgress_def OnAbort_def)
  then show ?thesis
    using ota.send_finished [OF fits assms(2,3) refl, of w]
      ota.incoming_frame [OF assms(1) exact fits assms(4), of ota_recorder "ft_next_sequence (ota_transport a)" log]
    by (auto simp: buf Let_def split_beta)
qed

theorem ota_messages_arrive_witness:
  "\<exists>codec bs. BuildOtaEndMessage codec Esp32 = Some bs \<and>
     OtaEndpoint_HandleIncoming codec 32 ota_recorder (Some (data_frame 1 bs)) (length (data_frame 1 bs)) []
     = Some (True, [Message_OtaEnd (Some \<lparr>end_target = Esp32\<rparr>)])"
proof -
  let ?env = "Message_OtaEnd (Some \<lparr>end_target = Esp32\<rparr>)"
  let ?a = "OtaEndpoint (Some (\<lambda>fr log. (True, fr # log)))"
  define codec where "codec = single_codec ?env [0, 0, 0, 0, 79, 84, 65, 88]"
  have ok: "codec_ok codec ota_exact" unfolding codec_def by (rule single_codec_ok) simp
  have fits: "buffer_size (BuildOtaEndMessage codec Esp32) \<le> kMaxFrameSize"
    by (simp add: codec_def ota_builders buffer_size_def size_consts)
  have wr: "ft_write (ota_transport ?a) = Some (\<lambda>fr log. (True, fr # log))"
    and sq: "ft_next_sequence (ota_transport ?a) = 1"
    by (simp_all add: OtaEndpoint_def FrameTransport_def)
  from ota_messages_arrive [OF ok transmit_ok_initial wr _ _ _ fits, of 32 ?env Esp32 0 0 None 0 0 None 0 Idle 0 None None "[]" "[]"]
  show ?thesis by (intro exI [of _ codec]) (auto simp: Let_def sq readable_def)
qed

end
