(* ===== verification/Log_Endpoint.thy ===== *)
theory Log_Endpoint
  imports Endpoint Ota_Messages
begin

section \<open>The log endpoint (src/log_endpoint.cpp, schemas/log_messages.fbs)\<close>

text \<open>
  The endpoint that forwards log lines, with the one message of its schema and its builder.
\<close>

datatype LogLevel = Error | Warning | Info | Debug | LogLevel_Other u8

record LogForward =
  log_level :: LogLevel
  log_tag :: "string option"
  log_message :: "string option"

datatype log_envelope = Message_NONE | Message_LogForward "LogForward option" | Message_Unknown u8

record 'w log_endpoint =
  log_transport :: "'w frame_transport"
  log_forward_handler :: "(LogForward \<Rightarrow> 'w \<Rightarrow> 'w) option"

definition LogEndpoint :: "'w write_callback option \<Rightarrow> 'w log_endpoint" where
  "LogEndpoint write = \<lparr>log_transport = FrameTransport write, log_forward_handler = None\<rparr>"

definition LogEndpoint_Send ::
  "'w log_endpoint \<Rightarrow> detached_buffer \<Rightarrow> transmit_state \<Rightarrow> 'w \<Rightarrow>
   (bool \<times> 'w log_endpoint \<times> transmit_state \<times> 'w) option" where
  "LogEndpoint_Send ep buf tx w =
     (case Send (log_transport ep) buf (buffer_size buf) tx w of
        None \<Rightarrow> None
      | Some (ok, ft, tx', w') \<Rightarrow> Some (ok, ep\<lparr>log_transport := ft\<rparr>, tx', w'))"

definition log_dispatch :: "'w log_endpoint \<Rightarrow> log_envelope \<Rightarrow> 'w \<Rightarrow> bool \<times> 'w" where
  "log_dispatch ep envelope w =
     (case envelope of
        Message_LogForward m \<Rightarrow> (True, invoke (log_forward_handler ep) m w)
      | Message_NONE \<Rightarrow> (False, w)
      | Message_Unknown tag \<Rightarrow> (False, w))"

definition LogEndpoint_HandleFrame ::
  "log_envelope codec \<Rightarrow> 'w log_endpoint \<Rightarrow> ptr \<Rightarrow> nat \<Rightarrow> 'w \<Rightarrow> (bool \<times> 'w) option" where
  "LogEndpoint_HandleFrame codec ep data n w = do {
     checked \<leftarrow> checked_envelope codec data n;
     Some (case checked of None \<Rightarrow> (False, w) | Some envelope \<Rightarrow> log_dispatch ep envelope w)
   }"

definition LogEndpoint_HandleIncoming ::
  "log_envelope codec \<Rightarrow> nat \<Rightarrow> 'w log_endpoint \<Rightarrow> ptr \<Rightarrow> nat \<Rightarrow> 'w \<Rightarrow> (bool \<times> 'w) option" where
  "LogEndpoint_HandleIncoming codec szw ep data n w =
     HandleIncoming szw data n (Some (\<lambda>payload size w. LogEndpoint_HandleFrame codec ep (Some payload) size w)) w"

definition OnLogForward :: "(LogForward \<Rightarrow> 'w \<Rightarrow> 'w) option \<Rightarrow> 'w log_endpoint \<Rightarrow> 'w log_endpoint" where
  "OnLogForward h ep = ep\<lparr>log_forward_handler := h\<rparr>"

interpretation log: message_endpoint LogEndpoint_HandleFrame LogEndpoint_HandleIncoming LogEndpoint_Send
  log_dispatch log_transport "\<lambda>ft ep. ep\<lparr>log_transport := ft\<rparr>"
  by unfold_locales (simp add: LogEndpoint_HandleFrame_def split: option.split,
    simp add: LogEndpoint_HandleIncoming_def, simp add: LogEndpoint_Send_def)

text \<open>A null tag or message becomes the empty string.\<close>

definition BuildLogForwardMessage ::
  "log_envelope codec \<Rightarrow> LogLevel \<Rightarrow> string option \<Rightarrow> string option \<Rightarrow> detached_buffer" where
  "BuildLogForwardMessage codec level tag message =
     Some (FinishBuffer codec (Message_LogForward (Some
       \<lparr>log_level = level,
        log_tag = Some (c_str (case tag of Some t \<Rightarrow> t | None \<Rightarrow> '''')),
        log_message = Some (c_str (case message of Some m \<Rightarrow> m | None \<Rightarrow> ''''))\<rparr>)))"

definition log_exact :: "log_envelope \<Rightarrow> bool" where
  "log_exact envelope \<longleftrightarrow> (case envelope of Message_LogForward m \<Rightarrow> True | _ \<Rightarrow> False)"

subsection \<open>Properties\<close>

text \<open>
  A forwarded log line arrives: what \<open>BuildLogForwardMessage\<close> builds, sent by one endpoint,
  makes the receiving endpoint call its handler once, with the level, and with the tag and the
  message present and cut at the first null character; null ones arrive as empty strings, so a
  handler need not check for them.
\<close>

theorem log_line_arrives:
  assumes "codec_ok codec log_exact" and "transmit_ok tx" and "ft_write (log_transport a) = Some write" and "32 \<le> szw"
    and "buf = BuildLogForwardMessage codec level tag message" and "buffer_size buf \<le> kMaxFrameSize"
    and "t = (case tag of None \<Rightarrow> [] | Some s \<Rightarrow> takeWhile (\<lambda>c. c \<noteq> CHR 0x00) s)"
    and "m = (case message of None \<Rightarrow> [] | Some s \<Rightarrow> takeWhile (\<lambda>c. c \<noteq> CHR 0x00) s)"
  shows "\<exists>bs a' tx'. buf = Some bs \<and>
     (let fr = data_frame (ft_next_sequence (log_transport a)) bs in
      LogEndpoint_Send a buf tx w = Some (fst (write fr w), a', tx', snd (write fr w)) \<and>
      LogEndpoint_HandleIncoming codec szw (OnLogForward (Some f) b) (Some fr) (length fr) w2
        = Some (True, f \<lparr>log_level = level, log_tag = Some t, log_message = Some m\<rparr> w2))"
proof -
  let ?env = "Message_LogForward (Some \<lparr>log_level = level, log_tag = Some t, log_message = Some m\<rparr>)"
  have buf: "buf = Some (FinishBuffer codec ?env)"
    using assms(5,7,8) by (auto simp: BuildLogForwardMessage_def c_str_def split: option.splits)
  have exact: "log_exact ?env" by (simp add: log_exact_def)
  have fits: "length (FinishBuffer codec ?env) \<le> kMaxFrameSize" using buf assms(6) by (simp add: buffer_size_def)
  show ?thesis
    using log.send_finished [OF fits assms(2,3) refl, of w]
      log.incoming_frame [OF assms(1) exact fits assms(4), of "OnLogForward (Some f) b" "ft_next_sequence (log_transport a)" w2]
    by (auto simp: buf log_dispatch_def OnLogForward_def Let_def split_beta)
qed

theorem log_line_arrives_witness:
  "\<exists>codec bs. BuildLogForwardMessage codec Warning None (Some ''low'') = Some bs \<and>
     LogEndpoint_HandleIncoming codec 32 (OnLogForward (Some (#)) (LogEndpoint None))
       (Some (data_frame 1 bs)) (length (data_frame 1 bs)) []
     = Some (True, [\<lparr>log_level = Warning, log_tag = Some [], log_message = Some ''low''\<rparr>])"
proof -
  let ?m = "\<lparr>log_level = Warning, log_tag = Some [], log_message = Some ''low''\<rparr>"
  let ?a = "LogEndpoint (Some (\<lambda>fr log. (True, fr # log)))"
  define codec where "codec = single_codec (Message_LogForward (Some ?m)) [0, 0, 0, 0, 76, 79, 71, 88]"
  have ok: "codec_ok codec log_exact" unfolding codec_def by (rule single_codec_ok) simp
  have fits: "buffer_size (BuildLogForwardMessage codec Warning None (Some ''low'')) \<le> kMaxFrameSize"
    by (simp add: codec_def BuildLogForwardMessage_def c_str_def buffer_size_def size_consts)
  have wr: "ft_write (log_transport ?a) = Some (\<lambda>fr log. (True, fr # log))"
    and sq: "ft_next_sequence (log_transport ?a) = 1"
    by (simp_all add: LogEndpoint_def FrameTransport_def)
  from log_line_arrives [OF ok transmit_ok_initial wr _ refl fits refl refl, of 32 "[]" "(#)" "LogEndpoint None" "[]"]
  show ?thesis by (intro exI [of _ codec]) (auto simp: Let_def sq)
qed

end
