(* ===== verification/Receiver.thy ===== *)
theory Receiver
  imports Midi_Endpoint Pwm_Endpoint
begin

section \<open>Two endpoints on one link (examples/dbus_receiver/main.cpp)\<close>

text \<open>
  The receiver of the example program offers each incoming frame to its MIDI endpoint first and
  to its PWM endpoint if that refuses it. The two schemas have different file identifiers, so a
  payload finished for one is not recognised by the other: that is the hypothesis
  \<open>identifiers_differ\<close> on the two codecs.
\<close>

definition CombinedHandler ::
  "midi_packet codec \<Rightarrow> pwm_message codec \<Rightarrow> nat \<Rightarrow> 'w midi_endpoint \<Rightarrow> 'w pwm_endpoint \<Rightarrow>
   ptr \<Rightarrow> nat \<Rightarrow> 'w \<Rightarrow> (bool \<times> 'w) option" where
  "CombinedHandler midi_codec pwm_codec szw midi_ep pwm_ep data n w = do {
     (handled, w1) \<leftarrow> MidiEndpoint_HandleIncoming midi_codec szw midi_ep data n w;
     if handled then Some (True, w1) else PwmEndpoint_HandleIncoming pwm_codec szw pwm_ep data n w1
   }"

definition identifiers_differ :: "midi_packet codec \<Rightarrow> pwm_message codec \<Rightarrow> bool" where
  "identifiers_differ midi_codec pwm_codec \<longleftrightarrow>
     (\<forall>env rest. FinishBuffer pwm_codec env \<noteq> [] \<longrightarrow>
        BufferHasIdentifier midi_codec (FinishBuffer pwm_codec env @ rest) = Some False)"

lemma midi_refuses_pwm:
  assumes "identifiers_differ midi_codec pwm_codec" and "codec_ok pwm_codec pwm_exact" and "pwm_exact env"
    and "length (FinishBuffer pwm_codec env) \<le> kMaxFrameSize" and "32 \<le> szw"
    and "fr = data_frame seq (FinishBuffer pwm_codec env)"
  shows "MidiEndpoint_HandleIncoming midi_codec szw ep (Some fr) (length fr) w = Some (False, w)"
proof -
  let ?p = "FinishBuffer pwm_codec env"
  have "?p \<noteq> []" using assms(2-4) by (auto simp: codec_ok_def)
  then have no: "BufferHasIdentifier midi_codec (?p @ rest) = Some False" for rest
    using assms(1) by (simp add: identifiers_differ_def)
  have "(2::nat) ^ 32 \<le> 2 ^ szw" by (rule power_increasing) (use assms(5) in simp_all)
  with assms(4) have fits: "12 + length ?p < 2 ^ szw" "length ?p < 2 ^ 32" by (simp_all add: size_consts)
  from HandleIncoming_data_frame [OF assms(5) fits, of seq "[]"
      "\<lambda>mem k. MidiEndpoint_HandleFrame midi_codec ep (Some mem) k" w] midi.handle_refuses [of "length ?p" midi_codec _ ep w] no
  show ?thesis by (simp add: assms(6) midi.incoming_handles)
qed

lemma combined_midi:
  assumes "codec_ok midi_codec midi_exact" and "32 \<le> szw" and "midi_exact m"
    and "length (FinishBuffer midi_codec m) \<le> kMaxFrameSize" and "fr = data_frame seq (FinishBuffer midi_codec m)"
  shows "CombinedHandler midi_codec pwm_codec szw midi_ep pwm_ep (Some fr) (length fr) w
       = Some (True, snd (midi_dispatch midi_ep m w))"
proof -
  have "fst (midi_dispatch midi_ep m w)" using assms(3) by (cases m) (auto simp: midi_dispatch_def midi_exact_def)
  moreover have "MidiEndpoint_HandleIncoming midi_codec szw midi_ep (Some fr) (length fr) w = Some (midi_dispatch midi_ep m w)"
    using midi.incoming_frame [OF assms(1,3,4,2)] by (simp add: assms(5))
  ultimately show ?thesis by (auto simp: CombinedHandler_def split_beta)
qed

lemma combined_pwm:
  assumes "codec_ok pwm_codec pwm_exact" and "identifiers_differ midi_codec pwm_codec" and "32 \<le> szw" and "pwm_exact p"
    and "length (FinishBuffer pwm_codec p) \<le> kMaxFrameSize" and "fr = data_frame seq (FinishBuffer pwm_codec p)"
  shows "CombinedHandler midi_codec pwm_codec szw midi_ep pwm_ep (Some fr) (length fr) w
       = Some (True, snd (pwm_dispatch pwm_ep p w))"
proof -
  have "fst (pwm_dispatch pwm_ep p w)" using assms(4) by (cases p) (auto simp: pwm_dispatch_def)
  moreover have "PwmEndpoint_HandleIncoming pwm_codec szw pwm_ep (Some fr) (length fr) w = Some (pwm_dispatch pwm_ep p w)"
    using pwm.incoming_frame [OF assms(1,4,5,3)] by (simp add: assms(6))
  moreover have "MidiEndpoint_HandleIncoming midi_codec szw midi_ep (Some fr) (length fr) w = Some (False, w)"
    by (rule midi_refuses_pwm [OF assms(2,1,4,5,3,6)])
  ultimately show ?thesis by (auto simp: CombinedHandler_def split_beta prod_eq_iff)
qed

text \<open>
  C37. Dispatch between the endpoints: a frame with a MIDI message is handled by the MIDI endpoint
  alone, and a frame with a PWM message by the PWM endpoint alone, each through the handler of
  its kind; the answer is that the frame was handled.
\<close>

theorem combined_receiver_dispatches:
  assumes "codec_ok midi_codec midi_exact" and "codec_ok pwm_codec pwm_exact" and "identifiers_differ midi_codec pwm_codec"
    and "32 \<le> szw" and "midi_exact m" and "length (FinishBuffer midi_codec m) \<le> kMaxFrameSize"
    and "pwm_exact p" and "length (FinishBuffer pwm_codec p) \<le> kMaxFrameSize"
    and "fr1 = data_frame seq1 (FinishBuffer midi_codec m)" and "fr2 = data_frame seq2 (FinishBuffer pwm_codec p)"
  shows "CombinedHandler midi_codec pwm_codec szw midi_ep pwm_ep (Some fr1) (length fr1) w
       = Some (True, snd (midi_dispatch midi_ep m w)) \<and>
     CombinedHandler midi_codec pwm_codec szw midi_ep pwm_ep (Some fr2) (length fr2) w
       = Some (True, snd (pwm_dispatch pwm_ep p w))"
  by (intro conjI combined_midi [OF assms(1,4,5,6,9)] combined_pwm [OF assms(2,3,4,7,8,10)])

theorem combined_receiver_dispatches_witness:
  "\<exists>midi_codec pwm_codec. BuildTuneRequestMessage midi_codec = Some [0, 0, 0, 0, 77, 50, 80, 87] \<and>
     CombinedHandler midi_codec pwm_codec 32 (OnSystemCommon (Some (\<lambda>m log. 4 # log)) (MidiEndpoint None))
       (OnHeartBeat (Some (\<lambda>m log. 2 # log)) (PwmEndpoint None))
       (Some (data_frame 5 [0, 0, 0, 0, 80, 87, 77, 88])) (length (data_frame 5 [0, 0, 0, 0, 80, 87, 77, 88])) []
     = Some (True, [2 :: nat])"
proof -
  let ?m = "Packet_SystemCommonMessage (Some \<lparr>common_message_type = TuneRequest, common_value = 0\<rparr>)"
  let ?p = "Message_HeartBeat (Some \<lparr>request_telemetry = True, epoch = 3\<rparr>)"
  define mc where "mc = single_codec ?m [0, 0, 0, 0, 77, 50, 80, 87]"
  define pc where "pc = single_codec ?p [0, 0, 0, 0, 80, 87, 77, 88]"
  have ok: "codec_ok mc midi_exact" "codec_ok pc pwm_exact"
    unfolding mc_def pc_def by (rule single_codec_ok, simp)+
  have bytes: "FinishBuffer mc ?m = [0, 0, 0, 0, 77, 50, 80, 87]" "FinishBuffer pc ?p = [0, 0, 0, 0, 80, 87, 77, 88]"
    by (simp_all add: mc_def pc_def)
  have ids: "identifiers_differ mc pc"
    unfolding identifiers_differ_def
  proof (intro allI impI)
    fix env and rest :: "u8 list"
    have "replicate 4 (0 :: u8) \<noteq> [77, 50, 80, 87]" by (auto dest: arg_cong [where f = hd])
    then show "BufferHasIdentifier mc (FinishBuffer pc env @ rest) = Some False"
      by (simp add: mc_def pc_def single_codec_def)
  qed
  have l: "length (FinishBuffer mc ?m) \<le> kMaxFrameSize" "length (FinishBuffer pc ?p) \<le> kMaxFrameSize"
    by (simp_all add: bytes size_consts)
  from combined_receiver_dispatches [OF ok ids _ _ l(1) _ l(2) refl refl, where szw = 32 and ?seq2.0 = 5 and w = "[] :: nat list" and
      midi_ep = "OnSystemCommon (Some (\<lambda>m log. 4 # log)) (MidiEndpoint None)" and
      pwm_ep = "OnHeartBeat (Some (\<lambda>m log. 2 # log)) (PwmEndpoint None)"]
  show ?thesis
    by (intro exI [of _ mc] exI [of _ pc])
       (simp add: bytes midi_exact_def midi_builders pwm_dispatch_def OnHeartBeat_def)
qed

end
