(* ===== verification/Ota_Update.thy ===== *)
theory Ota_Update
  imports Stream_Processor Ota_Endpoint Ota_Manager
begin

section \<open>A firmware update over the wire\<close>

text \<open>
  The parts together, as a device puts them together: a stream processor whose frame callback
  is the OTA endpoint's \<open>HandleFrame\<close>, and an endpoint whose handlers are those of the OTA
  manager. The handlers record their command, as in the runs of \<open>Ota_Manager\<close>.
\<close>

definition ota_device ::
  "((ota_event list \<times> 'w) ota_manager \<times> ota_event list \<times> 'w) ota_endpoint" where
  "ota_device =
     OnBegin (Some (\<lambda>msg. recorded_step (Begin (firmware_size msg) (firmware_crc32 msg) (total_chunks msg))))
     (OnData (Some (\<lambda>msg. recorded_step (DataMsg msg)))
     (OnEnd (Some (\<lambda>msg. recorded_step End))
     (OnAbort (Some (\<lambda>msg. recorded_step (Abort (map_option c_str (abort_reason msg))))) (OtaEndpoint None))))"

definition frame_to_ota :: "ota_message codec \<Rightarrow> 's ota_endpoint \<Rightarrow> u8 list \<Rightarrow> 's \<Rightarrow> 's" where
  "frame_to_ota codec ep bs s =
     (case OtaEndpoint_HandleFrame codec ep (Some bs) (length bs) s of Some (ok, s') \<Rightarrow> s' | None \<Rightarrow> s)"

lemma frame_to_ota_finished:
  assumes "codec_ok codec ota_exact" and "ota_exact env" and "length (FinishBuffer codec env) \<le> kMaxFrameSize"
  shows "frame_to_ota codec ep (FinishBuffer codec env) s = snd (ota_dispatch ep env s)"
  using ota.handle_finished [OF assms, of ep "[]" s] by (simp add: frame_to_ota_def split: prod.split)

text \<open>The payloads a host sends for an image: the buffers of the builders, in order.\<close>

definition update_buffers ::
  "ota_message codec \<Rightarrow> Target \<Rightarrow> u32 \<Rightarrow> u32 \<Rightarrow> string option \<Rightarrow> u8 list list \<Rightarrow> detached_buffer option list" where
  "update_buffers codec target n crc version chunks =
     [Some (BuildOtaBeginMessage codec target n crc version (of_nat (length chunks)))]
     @ map (\<lambda>(i, bs). BuildOtaDataMessage codec target (of_nat i) (Some bs) (length bs)) (enumerate 0 chunks)
     @ [Some (BuildOtaEndMessage codec target)]"

definition begin_message :: "Target \<Rightarrow> u32 \<Rightarrow> u32 \<Rightarrow> string option \<Rightarrow> u16 \<Rightarrow> OtaBegin" where
  "begin_message target n crc version t =
     \<lparr>begin_target = target, firmware_size = n, firmware_crc32 = crc, version_string = map_option c_str version,
      total_chunks = t, compressed_size = 0, compressed_crc32 = 0\<rparr>"

definition update_messages ::
  "Target \<Rightarrow> u32 \<Rightarrow> u32 \<Rightarrow> string option \<Rightarrow> u8 list list \<Rightarrow> ota_message list" where
  "update_messages target n crc version chunks =
     [Message_OtaBegin (Some (begin_message target n crc version (of_nat (length chunks))))]
     @ map (\<lambda>(i, bs). Message_OtaData (Some (data_message target i bs))) (enumerate 0 chunks)
     @ [Message_OtaEnd (Some \<lparr>end_target = target\<rparr>)]"

lemma update_buffers_messages:
  assumes "[] \<notin> set chunks"
  shows "update_buffers codec target n crc version chunks =
    map (\<lambda>env. Some (Some (FinishBuffer codec env))) (update_messages target n crc version chunks)"
proof -
  have "bs \<noteq> []" if "(i, bs) \<in> set (enumerate 0 chunks)" for i bs
    using that assms by (auto simp: enumerate_eq_zip dest: set_zip_rightD)
  then have "BuildOtaDataMessage codec target (of_nat i) (Some bs) (length bs) =
      Some (Some (FinishBuffer codec (Message_OtaData (Some (data_message target i bs)))))"
    if "(i, bs) \<in> set (enumerate 0 chunks)" for i bs
    using that by (auto simp: ota_builders optional_vector_def mem_simps data_message_def)
  then show ?thesis
    by (auto simp: update_buffers_def update_messages_def ota_builders begin_message_def)
qed

lemma update_messages_exact: "env \<in> set (update_messages target n crc version chunks) \<Longrightarrow> ota_exact env"
  by (auto simp: update_messages_def ota_exact_def)

text \<open>What the device does with them is the manager's session.\<close>

lemma device_session:
  "fold (\<lambda>env s. snd (ota_dispatch ota_device env s)) (update_messages target n crc version chunks) s =
   fold recorded_step ([Begin n crc (of_nat (length chunks))] @ data_commands target chunks @ [End]) s"
proof -
  have d: "snd (ota_dispatch ota_device (Message_OtaBegin (Some (begin_message target n crc version t))) s)
      = recorded_step (Begin n crc t) s"
    "snd (ota_dispatch ota_device (Message_OtaData (Some (data_message target i bs))) s)
      = recorded_step (DataMsg (data_message target i bs)) s"
    "snd (ota_dispatch ota_device (Message_OtaEnd (Some e)) s) = recorded_step End s" for t i bs e s
    by (simp_all add: ota_dispatch_def ota_device_def OnBegin_def OnData_def OnEnd_def OnAbort_def begin_message_def)
  show ?thesis
    by (simp add: update_messages_def data_commands_def d fold_map comp_def split_beta)
qed

lemma frames_to_device:
  assumes "codec_ok codec ota_exact" and "\<forall>env \<in> set envs. ota_exact env \<and> length (FinishBuffer codec env) \<le> kMaxFrameSize"
  shows "fold (frame_to_ota codec ep) (map (FinishBuffer codec) envs) s = fold (\<lambda>env s. snd (ota_dispatch ep env s)) envs s"
  using assms(2) by (induction envs arbitrary: s) (simp_all add: frame_to_ota_finished [OF assms(1)])

text \<open>
  C1. An update over the wire succeeds: a host sends the messages of an image (begin, non-empty
  chunks, end) as frames with payloads of at most \<open>m\<close> bytes, the link cuts the bytes into chunks of at
  most \<open>4097 - m\<close> bytes each, and the device feeds them, one after the other, to its stream processor.
  If every call of the writer succeeds, the device ends rebooting, and its writer has got exactly
  the image: begin with the size, every chunk with its index in order, finish, verify with the
  checksum, activate. (The bound leaves room in the buffer for every chunk; larger chunks can cost
  a frame, see \<open>feed_overflow_drops_front\<close> of \<open>Stream_Processor\<close>.)
\<close>

theorem ota_update_over_the_wire:
  assumes "codec_ok codec ota_exact" and "32 \<le> szw" and "m \<le> kMaxFrameSize"
    and "map (\<lambda>f. Some (Some (snd f))) fs = update_buffers codec target n crc version chunks"
    and "\<forall>(seq, p) \<in> set fs. length p \<le> m" and "\<forall>c \<in> set cs. m + length c \<le> kMaxFrameSize + 1"
    and "concat cs = wire.stream fs"
    and "sp_ok sp" and "sp_contents sp = []" and "frameCallback sp = Some (frame_to_ota codec ota_device)"
    and "obliging limit wr" and "0 < n" and "n \<le> limit" and "[] \<notin> set chunks"
  shows "\<exists>sp' mgr tr w'. feed_chunks szw cs sp (recorded_manager wr device send, [], w) = Some (sp', mgr, tr, w') \<and>
     status mgr = Rebooting \<and>
     flash_calls tr = CallBegin n True # chunk_calls chunks @ [CallFinish True, CallVerify crc True, CallActivate True]"
proof -
  let ?envs = "update_messages target n crc version chunks"
  let ?s = "(recorded_manager wr device send, [], w)"
  have "map (\<lambda>p. Some (Some p)) (map snd fs) = map (\<lambda>p. Some (Some p)) (map (FinishBuffer codec) ?envs)"
    using assms(4) update_buffers_messages [OF assms(14), of codec target n crc version]
    by (simp add: comp_def)
  then have ps: "map snd fs = map (FinishBuffer codec) ?envs"
    by (rule map_injective) (simp add: inj_def)
  have fits: "\<forall>env \<in> set ?envs. ota_exact env \<and> length (FinishBuffer codec env) \<le> kMaxFrameSize"
  proof
    fix env
    assume env: "env \<in> set ?envs"
    then have "FinishBuffer codec env \<in> set (map snd fs)" unfolding ps by simp
    with assms(3,5) have "length (FinishBuffer codec env) \<le> kMaxFrameSize" by fastforce
    with env update_messages_exact show "ota_exact env \<and> length (FinishBuffer codec env) \<le> kMaxFrameSize" by blast
  qed
  have r: "receiving wr send n crc (of_nat (length chunks)) [] (recorded_step (Begin n crc (of_nat (length chunks))) ?s)"
    by (rule begin_receiving [OF assms(11-13)])
  obtain sp' where "feed_chunks szw cs sp ?s = Some (sp', fold (frame_to_ota codec ota_device) (map snd fs) ?s)"
    using feed_chunks_stream [OF assms(2,3,5,6), of sp "frame_to_ota codec ota_device" ?s] assms(7-10) by auto
  moreover have "fold (frame_to_ota codec ota_device) (map snd fs) ?s =
      recorded_step End (fold recorded_step (data_commands target chunks)
        (recorded_step (Begin n crc (of_nat (length chunks))) ?s))"
    unfolding ps frames_to_device [OF assms(1) fits] device_session by simp
  moreover from end_receiving [OF assms(11) chunks_receiving [OF assms(11) r assms(14), of target] refl]
  have "case recorded_step End (fold recorded_step (data_commands target chunks)
        (recorded_step (Begin n crc (of_nat (length chunks))) ?s)) of (mgr, tr, w') \<Rightarrow> status mgr = Rebooting \<and>
     flash_calls tr = CallBegin n True # chunk_calls chunks @ [CallFinish True, CallVerify crc True, CallActivate True]"
    by (auto split: prod.splits)
  ultimately show ?thesis by (auto split: prod.splits)
qed

theorem ota_update_over_the_wire_witness:
  "\<exists>codec fs sp' mgr tr w'. map (\<lambda>f. Some (Some (snd f))) fs = update_buffers codec Stm32 2 9 None [[7, 8]] \<and>
     feed_chunks 32 (map (\<lambda>b. [b]) (wire.stream fs))
       (setFrameCallback (Some (frame_to_ota codec ota_device)) (StreamProcessor None))
       (recorded_manager willing_writer Stm32 (\<lambda>t st r n msg w. w), [], ()) = Some (sp', mgr, tr, w') \<and>
     flash_calls tr = [CallBegin 2 True, CallChunk 0 [7, 8] True, CallFinish True, CallVerify 9 True, CallActivate True]"
proof -
  let ?id = "[79, 84, 65, 88] :: u8 list"
  let ?b = "\<lambda>x. [x, 0, 0, 0] @ ?id"
  define tbl where "tbl = zip (update_messages Stm32 2 9 None [[7, 8]]) [?b 1, ?b 2, ?b 3]"
  define codec where "codec = table_codec ?id tbl"
  define fs :: "(u16 \<times> u8 list) list" where "fs = [(1, ?b 1), (2, ?b 2), (3, ?b 3)]"
  define sp :: "((ota_event list \<times> unit) ota_manager \<times> ota_event list \<times> unit) stream_processor" where
    "sp = setFrameCallback (Some (frame_to_ota codec ota_device)) (StreamProcessor None)"
  have ok: "codec_ok codec ota_exact"
    unfolding codec_def by (rule table_codec_ok) (simp_all add: tbl_def update_messages_def)
  have ne: "[] \<notin> set [[7, 8 :: u8]]" by simp
  have bufs: "map (\<lambda>f. Some (Some (snd f))) fs = update_buffers codec Stm32 2 9 None [[7, 8]]"
    unfolding update_buffers_messages [OF ne]
    by (simp add: fs_def codec_def table_codec_def tbl_def update_messages_def)
  have c: "concat (map (\<lambda>b. [b]) xs) = xs" for xs :: "u8 list" by (induction xs) simp_all
  have m: "8 \<le> kMaxFrameSize" "\<forall>(seq, p) \<in> set fs. length p \<le> 8"
    "\<forall>c \<in> set (map (\<lambda>b. [b]) (wire.stream fs)). 8 + length c \<le> kMaxFrameSize + 1"
    by (auto simp: size_consts fs_def)
  have sp: "sp_ok sp" "sp_contents sp = []" "frameCallback sp = Some (frame_to_ota codec ota_device)"
    by (simp_all add: sp_def sp_ok_new)
  have sz: "32 \<le> (32 :: nat)" by simp
  have n: "0 < (2 :: u32)" "(2 :: u32) \<le> 64" by simp_all
  obtain sp' mgr tr w' where "feed_chunks 32 (map (\<lambda>b. [b]) (wire.stream fs)) sp
      (recorded_manager willing_writer Stm32 (\<lambda>t st r n msg w. w), [], ()) = Some (sp', mgr, tr, w')"
    "flash_calls tr = CallBegin 2 True # chunk_calls [[7, 8]] @ [CallFinish True, CallVerify 9 True, CallActivate True]"
    using ota_update_over_the_wire [OF ok sz m(1) bufs m(2,3) c sp willing_obliging n ne, where device = Stm32 and
        send = "\<lambda>t st r n msg w. w" and w = "()"] by blast
  with bufs show ?thesis
    unfolding sp_def by (intro exI conjI) (assumption, assumption, simp add: chunk_calls_def)
qed

end
