(* ===== verification/Concurrent_Send.thy ===== *)
theory Concurrent_Send
  imports Frame_Transport "HOL-Library.Multiset"
begin

section \<open>Threads that send at the same time (src/frame_transport.cpp)\<close>

text \<open>
  Everywhere else \<open>Send\<close> is one step. Here it is taken apart: threads, each with a list of
  payloads to send over transports of their choice, advance in any order through the single
  steps of \<open>NextSequence\<close>, which holds the transport's own mutex, and of \<open>TransmitFrame\<close>, whose
  mutex, buffers and buffer index are static and so shared by all transports. A step that waits
  for a mutex is not possible while another thread holds it. The properties show that the
  atomic model is justified, and what the mutexes do not give.

  Two histories are kept beside the program's state: the numbers each transport has given out,
  and what was sent or refused. They are not read by any step.
\<close>

subsection \<open>The parts of \<open>TransmitFrame\<close>\<close>

definition buffer_at :: "nat \<Rightarrow> transmit_state \<Rightarrow> u8 list option" where
  "buffer_at i tx = (if i < length (transmitBuffers tx) then Some (transmitBuffers tx ! i) else None)"

definition set_buffer :: "nat \<Rightarrow> transmit_state \<Rightarrow> u8 list \<Rightarrow> transmit_state" where
  "set_buffer i tx b = tx\<lparr>transmitBuffers := (transmitBuffers tx)[i := b]\<rparr>"

text \<open>Take the active buffer, and make the other one active.\<close>

definition pick_buffer :: "transmit_state \<Rightarrow> transmit_state" where
  "pick_buffer tx = tx\<lparr>activeBufferIndex := (activeBufferIndex tx + 1) mod PING_PONG_BUFFER_COUNT\<rparr>"

definition fill_buffer :: "nat \<Rightarrow> u16 \<Rightarrow> u8 list \<Rightarrow> transmit_state \<Rightarrow> transmit_state option" where
  "fill_buffer i seq p tx = do {
     b \<leftarrow> buffer_at i tx;
     b \<leftarrow> write_at b 0 [kProtocolVersion];
     b \<leftarrow> write_at b 1 [FrameType_Data];
     b \<leftarrow> write_at b 2 (le16 seq);
     b \<leftarrow> write_at b 4 (le32 (of_nat (length p)));
     b \<leftarrow> copy_payload b (Some p) (length p);
     Some (set_buffer i tx b)
   }"

definition seal_buffer :: "nat \<Rightarrow> nat \<Rightarrow> transmit_state \<Rightarrow> transmit_state option" where
  "seal_buffer i n tx = do {
     let total = kHeaderSize + n + kCrcSize;
     b \<leftarrow> buffer_at i tx;
     crc \<leftarrow> ComputeCrc32 b (total - kCrcSize);
     b \<leftarrow> write_at b (total - kCrcSize) (le32 crc);
     Some (set_buffer i tx b)
   }"

definition write_buffer :: "'w write_callback \<Rightarrow> nat \<Rightarrow> nat \<Rightarrow> transmit_state \<Rightarrow> 'w \<Rightarrow> (bool \<times> 'w) option" where
  "write_buffer write i n tx w = do {
     b \<leftarrow> buffer_at i tx;
     out \<leftarrow> read_at b 0 (kHeaderSize + n + kCrcSize);
     Some (write out w)
   }"

lemma buffer_at_set [simp]: "i < length (transmitBuffers tx) \<Longrightarrow> buffer_at i (set_buffer i tx b) = Some b"
  by (simp add: buffer_at_def set_buffer_def)

lemma set_buffer_set [simp]: "set_buffer i (set_buffer i tx b) b' = set_buffer i tx b'"
  by (simp add: set_buffer_def)

lemma buffer_at_bind: "Option.bind (buffer_at i tx) f =
    (if i < length (transmitBuffers tx) then f (transmitBuffers tx ! i) else None)"
  by (simp add: buffer_at_def)

text \<open>One after another they are \<open>TransmitFrame\<close>.\<close>

lemma TransmitFrame_parts:
  assumes "ft_write ft = Some write" and "length p \<le> kMaxFrameSize"
  shows "TransmitFrame ft FrameType_Data seq (Some p) (length p) tx w = do {
     tx2 \<leftarrow> fill_buffer (activeBufferIndex tx) seq p (pick_buffer tx);
     tx3 \<leftarrow> seal_buffer (activeBufferIndex tx) (length p) tx2;
     (ok, w') \<leftarrow> write_buffer write (activeBufferIndex tx) (length p) tx3 w;
     Some (ok, tx3, w')
   }"
proof (cases "activeBufferIndex tx < length (transmitBuffers tx)")
  case True
  then have i: "activeBufferIndex tx < length (transmitBuffers (pick_buffer tx))"
    by (simp add: pick_buffer_def)
  have r: "tx\<lparr>activeBufferIndex := j, transmitBuffers := bs\<rparr> = \<lparr>transmitBuffers = bs, activeBufferIndex = j\<rparr>" for j bs
    by (cases tx) simp
  show ?thesis
    using True assms i
    by (simp add: TransmitFrame_def fill_buffer_def seal_buffer_def write_buffer_def Let_def buffer_at_bind)
       (simp add: pick_buffer_def set_buffer_def r split_beta)
next
  case False
  then show ?thesis
    using assms by (simp add: TransmitFrame_def fill_buffer_def buffer_at_def pick_buffer_def Let_def)
qed

lemma transmit_parts:
  assumes "transmit_ok tx" and "length p \<le> kMaxFrameSize"
  obtains tx2 where "fill_buffer (activeBufferIndex tx) seq p (pick_buffer tx) = Some tx2"
    and "seal_buffer (activeBufferIndex tx) (length p) tx2 = Some (store_frame tx (data_frame seq p))"
    and "\<And>write w. write_buffer write (activeBufferIndex tx) (length p) (store_frame tx (data_frame seq p)) w
      = Some (write (data_frame seq p) w)"
proof -
  let ?i = "activeBufferIndex tx" and ?fr = "data_frame seq p"
  let ?cb = "\<lambda>bs log. (True, bs)" and ?log = "[] :: u8 list"
  define ft where "ft = FrameTransport (Some ?cb)"
  have wr: "ft_write ft = Some ?cb" by (simp add: ft_def FrameTransport_def)
  have ok: "payload_ok (Some p) (length p)" by (simp add: payload_ok_def)
  have "TransmitFrame ft FrameType_Data seq (Some p) (length p) tx ?log = Some (True, store_frame tx ?fr, ?fr)"
    using TransmitFrame_ok [OF wr assms(2,1) ok, of FrameType_Data seq ?log] by (simp add: Let_def payload_bytes_def)
  then obtain tx2 tx3 where parts: "fill_buffer ?i seq p (pick_buffer tx) = Some tx2"
    "seal_buffer ?i (length p) tx2 = Some tx3" "write_buffer ?cb ?i (length p) tx3 ?log = Some (True, ?fr)"
    and tx3: "tx3 = store_frame tx ?fr"
    unfolding TransmitFrame_parts [OF wr assms(2)] by (auto simp: bind_eq_Some_conv)
  from parts(3) have "write_buffer cb ?i (length p) tx3 w = Some (cb ?fr w)" for cb :: "'a write_callback" and w
    by (auto simp: write_buffer_def bind_eq_Some_conv)
  with that [OF parts(1)] parts(2) tx3 show thesis by (simp add: write_buffer_def bind_eq_Some_conv) 
qed

subsection \<open>Threads\<close>

text \<open>
  Where a thread is inside \<open>Send\<close> for the first of its jobs, with its local variables: the number
  it has been given and the buffer it has picked.
\<close>

datatype pc =
    Ready
  | InNext
  | HasRead u16
  | Bumped u16
  | Numbered u16
  | InTransmit u16
  | Picked u16 nat
  | Filled u16 nat
  | Sealed u16 nat

text \<open>A finished job: its thread, transport, number and payload.\<close>

datatype send_event =
    Sent (event_thread: nat) (event_transport: nat) (event_number: u16) (event_payload: "u8 list")
  | Refused (event_thread: nat) (event_transport: nat) (event_number: u16) (event_payload: "u8 list")

record 'w senders =
  next_sequence :: "nat \<Rightarrow> u16"
  sequence_owner :: "nat \<Rightarrow> nat option"
  static_state :: transmit_state
  transmit_owner :: "nat option"
  world :: 'w
  pc_of :: "nat \<Rightarrow> pc"
  jobs :: "nat \<Rightarrow> (nat \<times> u8 list) list"
  allotted :: "nat \<Rightarrow> (nat \<times> u16) list"
  history :: "send_event list"

text \<open>
  The next step of thread \<open>t\<close>, \<open>None\<close> if it has nothing to do or has to wait. The write callback
  of transport \<open>k\<close> is \<open>wr k\<close>. A job is a transport and a payload.
\<close>

definition advance :: "(nat \<Rightarrow> 'w write_callback option) \<Rightarrow> nat \<Rightarrow> 'w senders \<Rightarrow> 'w senders option" where
  "advance wr t s =
     (case jobs s t of
        [] \<Rightarrow> None
      | (k, p) # js \<Rightarrow>
          let go = (\<lambda>c s. Some (s\<lparr>pc_of := (pc_of s)(t := c)\<rparr>));
              done = (\<lambda>e s. Some (s\<lparr>pc_of := (pc_of s)(t := Ready), jobs := (jobs s)(t := js),
                history := history s @ [e]\<rparr>)) in
          (case pc_of s t of
             Ready \<Rightarrow>
               if sequence_owner s k = None
               then go InNext (s\<lparr>sequence_owner := (sequence_owner s)(k \<mapsto> t)\<rparr>) else None
           | InNext \<Rightarrow> go (HasRead (next_sequence s k)) s
           | HasRead q \<Rightarrow> go (Bumped q) (s\<lparr>next_sequence := (next_sequence s)(k := next_sequence s k + 1)\<rparr>)
           | Bumped q \<Rightarrow>
               let n = next_sequence s k in
               go (Numbered q) (s\<lparr>next_sequence := (next_sequence s)(k := if n = 0 then n + 1 else n),
                 sequence_owner := (sequence_owner s)(k := None), allotted := (allotted s)(k := allotted s k @ [(t, q)])\<rparr>)
           | Numbered q \<Rightarrow>
               if wr k = None \<or> length p > kMaxFrameSize then done (Refused t k q p) s
               else if transmit_owner s = None then go (InTransmit q) (s\<lparr>transmit_owner := Some t\<rparr>) else None
           | InTransmit q \<Rightarrow>
               go (Picked q (activeBufferIndex (static_state s))) (s\<lparr>static_state := pick_buffer (static_state s)\<rparr>)
           | Picked q i \<Rightarrow> do {
               tx \<leftarrow> fill_buffer i q p (static_state s);
               go (Filled q i) (s\<lparr>static_state := tx\<rparr>)
             }
           | Filled q i \<Rightarrow> do {
               tx \<leftarrow> seal_buffer i (length p) (static_state s);
               go (Sealed q i) (s\<lparr>static_state := tx\<rparr>)
             }
           | Sealed q i \<Rightarrow> do {
               write \<leftarrow> wr k;
               (ok, w) \<leftarrow> write_buffer write i (length p) (static_state s) (world s);
               done (Sent t k q p) (s\<lparr>world := w, transmit_owner := None\<rparr>)
             }))"

definition senders_start :: "(nat \<Rightarrow> (nat \<times> u8 list) list) \<Rightarrow> transmit_state \<Rightarrow> 'w \<Rightarrow> 'w senders" where
  "senders_start js tx w = \<lparr>next_sequence = (\<lambda>k. 1), sequence_owner = (\<lambda>k. None), static_state = tx,
     transmit_owner = None, world = w, pc_of = (\<lambda>t. Ready), jobs = js, allotted = (\<lambda>k. []), history = []\<rparr>"

inductive senders_reach ::
  "(nat \<Rightarrow> 'w write_callback option) \<Rightarrow> 'w senders \<Rightarrow> 'w senders \<Rightarrow> bool" for wr s0 where
  start: "senders_reach wr s0 s0"
| step: "senders_reach wr s0 s \<Longrightarrow> advance wr t s = Some s' \<Longrightarrow> senders_reach wr s0 s'"

text \<open>A schedule: which thread goes next; a thread that cannot go is passed over.\<close>

primrec run_schedule :: "(nat \<Rightarrow> 'w write_callback option) \<Rightarrow> nat list \<Rightarrow> 'w senders \<Rightarrow> 'w senders" where
  "run_schedule wr [] s = s"
| "run_schedule wr (t # ts) s = run_schedule wr ts (case advance wr t s of None \<Rightarrow> s | Some s' \<Rightarrow> s')"

lemma run_schedule_reach: "senders_reach wr s0 s \<Longrightarrow> senders_reach wr s0 (run_schedule wr ts s)"
  by (induction ts arbitrary: s) (auto split: option.split intro: senders_reach.step)

text \<open>The steps one by one, as the invariants are checked.\<close>

lemma advance_cases [consumes 1]:
  assumes "advance wr t s = Some s'"
  obtains (lock_next) k p js where "jobs s t = (k, p) # js" "pc_of s t = Ready" "sequence_owner s k = None"
      "s' = s\<lparr>sequence_owner := (sequence_owner s)(k \<mapsto> t), pc_of := (pc_of s)(t := InNext)\<rparr>"
    | (read_next) k p js where "jobs s t = (k, p) # js" "pc_of s t = InNext"
      "s' = s\<lparr>pc_of := (pc_of s)(t := HasRead (next_sequence s k))\<rparr>"
    | (bump) k p js q where "jobs s t = (k, p) # js" "pc_of s t = HasRead q"
      "s' = s\<lparr>next_sequence := (next_sequence s)(k := next_sequence s k + 1), pc_of := (pc_of s)(t := Bumped q)\<rparr>"
    | (unlock_next) k p js q n where "jobs s t = (k, p) # js" "pc_of s t = Bumped q"
      "n = next_sequence s k"
      "s' = s\<lparr>next_sequence := (next_sequence s)(k := if n = 0 then n + 1 else n),
         sequence_owner := (sequence_owner s)(k := None), pc_of := (pc_of s)(t := Numbered q),
         allotted := (allotted s)(k := allotted s k @ [(t, q)])\<rparr>"
    | (refuse) k p js q where "jobs s t = (k, p) # js" "pc_of s t = Numbered q" "wr k = None \<or> length p > kMaxFrameSize"
      "s' = s\<lparr>pc_of := (pc_of s)(t := Ready), jobs := (jobs s)(t := js), history := history s @ [Refused t k q p]\<rparr>"
    | (lock_transmit) k p js q cb where "jobs s t = (k, p) # js" "pc_of s t = Numbered q" "wr k = Some cb"
      "length p \<le> kMaxFrameSize" "transmit_owner s = None"
      "s' = s\<lparr>transmit_owner := Some t, pc_of := (pc_of s)(t := InTransmit q)\<rparr>"
    | (pick) k p js q where "jobs s t = (k, p) # js" "pc_of s t = InTransmit q"
      "s' = s\<lparr>static_state := pick_buffer (static_state s),
         pc_of := (pc_of s)(t := Picked q (activeBufferIndex (static_state s)))\<rparr>"
    | (fill) k p js q i tx where "jobs s t = (k, p) # js" "pc_of s t = Picked q i"
      "fill_buffer i q p (static_state s) = Some tx" "s' = s\<lparr>static_state := tx, pc_of := (pc_of s)(t := Filled q i)\<rparr>"
    | (seal) k p js q i tx where "jobs s t = (k, p) # js" "pc_of s t = Filled q i"
      "seal_buffer i (length p) (static_state s) = Some tx" "s' = s\<lparr>static_state := tx, pc_of := (pc_of s)(t := Sealed q i)\<rparr>"
    | (call) k p js q i cb ok w where "jobs s t = (k, p) # js" "pc_of s t = Sealed q i" "wr k = Some cb"
      "write_buffer cb i (length p) (static_state s) (world s) = Some (ok, w)"
      "s' = s\<lparr>transmit_owner := None, world := w, pc_of := (pc_of s)(t := Ready), jobs := (jobs s)(t := js),
         history := history s @ [Sent t k q p]\<rparr>"
proof -
  obtain k p js where j: "jobs s t = (k, p) # js"
    using assms by (cases "jobs s t") (auto simp: advance_def)
  note a = assms [unfolded advance_def j list.case prod.case Let_def]
  show thesis
  proof (cases "pc_of s t")
    case Ready
    with a lock_next [OF j] show thesis by (auto split: if_splits)
  next
    case InNext
    with a read_next [OF j] show thesis by auto
  next
    case (HasRead q)
    with a bump [OF j] show thesis by auto
  next
    case (Bumped q)
    with a unlock_next [OF j _ refl] show thesis by auto
  next
    case (Numbered q)
    with a refuse [OF j] lock_transmit [OF j] show thesis by (auto split: if_splits)
  next
    case (InTransmit q)
    with a pick [OF j] show thesis by auto
  next
    case (Picked q i)
    with a fill [OF j] show thesis by (auto simp: bind_eq_Some_conv)
  next
    case (Filled q i)
    with a seal [OF j] show thesis by (auto simp: bind_eq_Some_conv)
  next
    case (Sealed q i)
    with a call [OF j] show thesis by (auto simp: bind_eq_Some_conv)
  qed
qed

subsection \<open>Who holds what\<close>

fun in_next :: "pc \<Rightarrow> bool" where
  "in_next InNext = True"
| "in_next (HasRead q) = True"
| "in_next (Bumped q) = True"
| "in_next c = False"

fun in_transmit :: "pc \<Rightarrow> bool" where
  "in_transmit (InTransmit q) = True"
| "in_transmit (Picked q i) = True"
| "in_transmit (Filled q i) = True"
| "in_transmit (Sealed q i) = True"
| "in_transmit c = False"

definition job_transport :: "'w senders \<Rightarrow> nat \<Rightarrow> nat option" where
  "job_transport s t = (case jobs s t of [] \<Rightarrow> None | (k, p) # js \<Rightarrow> Some k)"

definition locks_ok :: "'w senders \<Rightarrow> bool" where
  "locks_ok s \<longleftrightarrow>
     (\<forall>k t. sequence_owner s k = Some t \<longleftrightarrow> in_next (pc_of s t) \<and> job_transport s t = Some k) \<and>
     (\<forall>t. transmit_owner s = Some t \<longleftrightarrow> in_transmit (pc_of s t)) \<and>
     (\<forall>t. pc_of s t \<noteq> Ready \<longrightarrow> jobs s t \<noteq> [])"

lemma locks_ok_start: "locks_ok (senders_start js tx w)"
  by (simp add: locks_ok_def senders_start_def)

lemma locks_ok_step:
  assumes "advance wr t s = Some s'" and "locks_ok s"
  shows "locks_ok s'"
  using assms(1)
proof (cases rule: advance_cases)
  case (lock_next k p js)
  then have "\<not> (in_next (pc_of s t') \<and> job_transport s t' = Some k)" for t'
    using assms(2) unfolding locks_ok_def by (metis option.distinct(1))
  with lock_next assms(2) show ?thesis by (auto simp: locks_ok_def job_transport_def)
next
  case (unlock_next k p js q n)
  then have "sequence_owner s k = Some t"
    using assms(2) by (simp add: locks_ok_def job_transport_def)
  then have "\<not> (in_next (pc_of s t') \<and> job_transport s t' = Some k)" if "t' \<noteq> t" for t'
    using assms(2) that unfolding locks_ok_def by (metis option.inject)
  with unlock_next assms(2) show ?thesis by (auto simp: locks_ok_def job_transport_def)
next
  case (call k p js q i cb ok w)
  then have "transmit_owner s = Some t"
    using assms(2) by (simp add: locks_ok_def)
  then have "\<not> in_transmit (pc_of s t')" if "t' \<noteq> t" for t'
    using assms(2) that unfolding locks_ok_def by (metis option.inject)
  with call assms(2) show ?thesis by (auto simp: locks_ok_def job_transport_def)
qed (use assms(2) in \<open>auto simp: locks_ok_def job_transport_def\<close>)

lemma in_next_cases:
  assumes "in_next c"
  obtains "c = InNext" | q where "c = HasRead q" | q where "c = Bumped q"
  using assms by (cases c) auto

subsection \<open>The sequence numbers\<close>

definition number :: "nat \<Rightarrow> u16" where
  "number n = of_nat (n mod 65535 + 1)"

lemma unat_number: "unat (number n) = n mod 65535 + 1"
proof -
  have "n mod 65535 + 1 < 2 ^ 16" using mod_less_divisor [of 65535 n] by simp
  then show ?thesis by (simp add: number_def unsigned_of_nat take_bit_nat_eq_self del: of_nat_add of_nat_Suc)
qed

lemma number_Suc: "number (Suc n) = (if number n + 1 = 0 then number n + 1 + 1 else number n + 1)"
proof -
  define ft :: "unit frame_transport" where "ft = \<lparr>ft_write = None, ft_next_sequence = number n\<rparr>"
  have "unat (ft_next_sequence (snd (NextSequence ft))) = Suc n mod 65535 + 1"
    using unat_next_sequence [of ft] by (simp add: ft_def unat_number mod_Suc_eq)
  then have "ft_next_sequence (snd (NextSequence ft)) = number (Suc n)"
    by (metis unat_number word_eq_iff_unsigned)
  then show ?thesis by (simp add: ft_def NextSequence_def Let_def)
qed

definition counter_ok :: "'w senders \<Rightarrow> bool" where
  "counter_ok s \<longleftrightarrow> (\<forall>k. let n = length (allotted s k) in
     map snd (allotted s k) = map number [0..<n] \<and>
     next_sequence s k = (case sequence_owner s k of
        None \<Rightarrow> number n
      | Some t \<Rightarrow> (case pc_of s t of Bumped q \<Rightarrow> number n + 1 | _ \<Rightarrow> number n)) \<and>
     (\<forall>t q. sequence_owner s k = Some t \<and> (pc_of s t = HasRead q \<or> pc_of s t = Bumped q) \<longrightarrow> q = number n))"

lemma counter_ok_start: "counter_ok (senders_start js tx w)"
  by (simp add: counter_ok_def senders_start_def number_def)

lemma counter_ok_step:
  assumes "advance wr t s = Some s'" and "locks_ok s" and "counter_ok s"
  shows "counter_ok s'"
proof -
  have own: "sequence_owner s k = Some t" if "in_next (pc_of s t)" "jobs s t = (k, p) # js" for k p js
    using assms(2) that by (simp add: locks_ok_def job_transport_def)
  have other: "sequence_owner s k \<noteq> Some t" if "\<not> in_next (pc_of s t)" for k
    using assms(2) that by (simp add: locks_ok_def)
  have one: "k' = k" if "sequence_owner s k = Some t" "sequence_owner s k' = Some t" for k k'
    using assms(2) that unfolding locks_ok_def by (metis option.inject)
  note c = assms(3) [unfolded counter_ok_def Let_def]
  show ?thesis
    using assms(1)
  proof (cases rule: advance_cases)
    case (lock_next k p js)
    with c other show ?thesis by (auto simp: counter_ok_def Let_def split: option.splits)
  next
    case (read_next k p js)
    from own [OF _ read_next(1)] read_next(2) have o: "sequence_owner s k = Some t" by simp
    from read_next c o show ?thesis by (auto simp: counter_ok_def Let_def dest: one [OF o] split: option.splits)
  next
    case (bump k p js q)
    from own [OF _ bump(1)] bump(2) have o: "sequence_owner s k = Some t" by simp
    from bump c o show ?thesis by (auto simp: counter_ok_def Let_def dest: one [OF o] split: option.splits)
  next
    case (unlock_next k p js q n)
    from own [OF _ unlock_next(1)] unlock_next(2) have o: "sequence_owner s k = Some t" by simp
    with c unlock_next(2) have q: "q = number (length (allotted s k))" "next_sequence s k = q + 1"
      by auto
    from unlock_next c o q show ?thesis
      by (auto simp: counter_ok_def Let_def number_Suc dest: one [OF o] split: option.splits)
  qed (use c other in \<open>auto simp: counter_ok_def Let_def split: option.splits\<close>)
qed

subsection \<open>The frames, one after another\<close>

text \<open>The calls of \<open>TransmitFrame\<close> for what was sent, one after another without interleaving.\<close>

primrec serial ::
  "(nat \<Rightarrow> 'w write_callback option) \<Rightarrow> send_event list \<Rightarrow> transmit_state \<times> 'w \<Rightarrow> (transmit_state \<times> 'w) option" where
  "serial wr [] s = Some s"
| "serial wr (e # es) s =
     (case e of
        Refused t k q p \<Rightarrow> serial wr es s
      | Sent t k q p \<Rightarrow> do {
          (ok, s') \<leftarrow> TransmitFrame \<lparr>ft_write = wr k, ft_next_sequence = q\<rparr> FrameType_Data q (Some p) (length p) (fst s) (snd s);
          serial wr es s'
        })"

lemma serial_append: "serial wr (es @ es') s = do { s' \<leftarrow> serial wr es s; serial wr es' s' }"
  by (induction es arbitrary: s) (auto simp: case_prod_unfold split: send_event.split)

text \<open>What the static state is while its mutex is held, from what it was before.\<close>

fun inside :: "transmit_state \<Rightarrow> u8 list \<Rightarrow> pc \<Rightarrow> transmit_state \<Rightarrow> bool" where
  "inside tx0 p (InTransmit q) tx = (tx = tx0)"
| "inside tx0 p (Picked q i) tx = (i = activeBufferIndex tx0 \<and> tx = pick_buffer tx0)"
| "inside tx0 p (Filled q i) tx = (i = activeBufferIndex tx0 \<and> fill_buffer i q p (pick_buffer tx0) = Some tx)"
| "inside tx0 p (Sealed q i) tx = (i = activeBufferIndex tx0 \<and> tx = store_frame tx0 (data_frame q p))"
| "inside tx0 p c tx = False"

fun holder_ok ::
  "(nat \<Rightarrow> 'w write_callback option) \<Rightarrow> transmit_state \<Rightarrow> (nat \<times> u8 list) list \<Rightarrow> pc \<Rightarrow> transmit_state \<Rightarrow> bool" where
  "holder_ok wr tx0 [] c tx = False"
| "holder_ok wr tx0 ((k, p) # js) c tx = (wr k \<noteq> None \<and> length p \<le> kMaxFrameSize \<and> inside tx0 p c tx)"

definition serial_ok :: "(nat \<Rightarrow> 'w write_callback option) \<Rightarrow> transmit_state \<times> 'w \<Rightarrow> 'w senders \<Rightarrow> bool" where
  "serial_ok wr tw s \<longleftrightarrow> (\<exists>tx0. transmit_ok tx0 \<and> serial wr (history s) tw = Some (tx0, world s) \<and>
     (transmit_owner s = None \<longrightarrow> static_state s = tx0) \<and>
     (\<forall>t. transmit_owner s = Some t \<longrightarrow> holder_ok wr tx0 (jobs s t) (pc_of s t) (static_state s)))"

lemma serial_ok_start: "transmit_ok tx \<Longrightarrow> serial_ok wr (tx, w) (senders_start js tx w)"
  by (simp add: serial_ok_def senders_start_def)

text \<open>A step outside the critical section does not touch what it is about.\<close>

lemma serial_ok_frame:
  assumes "serial_ok wr tw s" and "serial wr (history s') tw = serial wr (history s) tw" and "world s' = world s"
    and "static_state s' = static_state s" and "transmit_owner s' = transmit_owner s"
    and "\<And>t'. transmit_owner s = Some t' \<Longrightarrow> jobs s' t' = jobs s t' \<and> pc_of s' t' = pc_of s t'"
  shows "serial_ok wr tw s'"
  using assms unfolding serial_ok_def by auto

lemma serial_ok_step:
  assumes "advance wr t s = Some s'" and "locks_ok s" and "serial_ok wr tw s"
  shows "serial_ok wr tw s'"
proof -
  have other: "transmit_owner s \<noteq> Some t" if "\<not> in_transmit (pc_of s t)"
    using assms(2) that by (simp add: locks_ok_def)
  have hold: "transmit_owner s = Some t" if "in_transmit (pc_of s t)"
    using assms(2) that by (simp add: locks_ok_def)
  obtain tx0 where tx0: "transmit_ok tx0" "serial wr (history s) tw = Some (tx0, world s)"
    and free: "transmit_owner s = None \<longrightarrow> static_state s = tx0"
    and held: "\<forall>t. transmit_owner s = Some t \<longrightarrow> holder_ok wr tx0 (jobs s t) (pc_of s t) (static_state s)"
    using assms(3) unfolding serial_ok_def by (elim exE conjE)
  note frame = serial_ok_frame [OF assms(3)]
  show ?thesis
    using assms(1)
  proof (cases rule: advance_cases)
    case (refuse k p js q)
    then show ?thesis using other by (intro frame) (auto simp: serial_append bind_eq_None_conv)
  next
    case (lock_transmit k p js q cb)
    with tx0 free show ?thesis by (auto simp: serial_ok_def)
  next
    case (pick k p js q)
    with hold held tx0 show ?thesis by (auto simp: serial_ok_def intro!: exI [of _ tx0])
  next
    case (fill k p js q i tx)
    with hold held tx0 show ?thesis by (auto simp: serial_ok_def intro!: exI [of _ tx0])
  next
    case (seal k p js q i tx)
    then have h: "length p \<le> kMaxFrameSize" "wr k \<noteq> None" "i = activeBufferIndex tx0"
      "fill_buffer i q p (pick_buffer tx0) = Some (static_state s)" "transmit_owner s = Some t"
      using hold held by auto
    from transmit_parts [OF tx0(1) h(1), of q] h(3,4) seal(3) have "tx = store_frame tx0 (data_frame q p)" by auto
    with seal h tx0 show ?thesis by (auto simp: serial_ok_def intro!: exI [of _ tx0])
  next
    case (call k p js q i cb ok w)
    then have h: "length p \<le> kMaxFrameSize" "i = activeBufferIndex tx0"
      "static_state s = store_frame tx0 (data_frame q p)"
      using hold held by auto
    have okw: "(ok, w) = cb (data_frame q p) (world s)"
      using transmit_parts [OF tx0(1) h(1), of q] h(2,3) call(4) by (metis option.inject)
    have "TransmitFrame \<lparr>ft_write = wr k, ft_next_sequence = q\<rparr> FrameType_Data q (Some p) (length p) tx0 (world s)
        = Some (ok, static_state s, w)"
      using TransmitFrame_ok [of "\<lparr>ft_write = wr k, ft_next_sequence = q\<rparr>" cb "length p" tx0 "Some p"] call(3) h tx0(1)
      by (simp add: payload_ok_def payload_bytes_def Let_def flip: okw)
    moreover have "transmit_ok (static_state s)"
      unfolding h(3) by (rule store_frame_ok [OF tx0(1)]) (use h(1) in \<open>simp add: transmit_consts size_consts\<close>)
    ultimately show ?thesis using call tx0 by (simp add: serial_ok_def serial_append)
  qed (use other in \<open>(intro frame; auto)+\<close>)
qed

subsection \<open>Every job once, in its thread's order\<close>

definition done_by :: "nat \<Rightarrow> send_event list \<Rightarrow> (nat \<times> u8 list) list" where
  "done_by t es = map (\<lambda>e. (event_transport e, event_payload e)) (filter (\<lambda>e. event_thread e = t) es)"

lemma done_by_append: "done_by t (es @ es') = done_by t es @ done_by t es'"
  by (simp add: done_by_def)

lemma done_by_step:
  assumes "advance wr t s = Some s'"
  shows "done_by t' (history s') @ jobs s' t' = done_by t' (history s) @ jobs s t'"
  using assms by (cases rule: advance_cases) (auto simp: done_by_append done_by_def)

text \<open>Numbers given out are the numbers used, but for those on the way.\<close>

fun pending :: "pc \<Rightarrow> u16 option" where
  "pending (Numbered q) = Some q"
| "pending (InTransmit q) = Some q"
| "pending (Picked q i) = Some q"
| "pending (Filled q i) = Some q"
| "pending (Sealed q i) = Some q"
| "pending c = None"

definition used :: "nat \<Rightarrow> send_event list \<Rightarrow> (nat \<times> u16) list" where
  "used k es = map (\<lambda>e. (event_thread e, event_number e)) (filter (\<lambda>e. event_transport e = k) es)"

definition numbers_ok :: "'w senders \<Rightarrow> bool" where
  "numbers_ok s \<longleftrightarrow> (\<forall>k t q. count (mset (allotted s k)) (t, q) = count (mset (used k (history s))) (t, q) +
     (if pending (pc_of s t) = Some q \<and> job_transport s t = Some k then 1 else 0))"

lemma used_append: "used k (es @ es') = used k es @ used k es'"
  by (simp add: used_def)

lemma used_single: "used k [e] = (if event_transport e = k then [(event_thread e, event_number e)] else [])"
  by (simp add: used_def)

lemma numbers_ok_start: "numbers_ok (senders_start js tx w)"
  by (simp add: numbers_ok_def senders_start_def used_def)

lemma numbers_ok_step:
  assumes "advance wr t s = Some s'" and "numbers_ok s"
  shows "numbers_ok s'"
  using assms(1)
  by (cases rule: advance_cases)
     (use assms(2) in \<open>auto simp: numbers_ok_def job_transport_def used_append used_single\<close>)

lemma used_allotted:
  assumes "numbers_ok s"
  shows "mset (used k (history s)) \<subseteq># mset (allotted s k)"
proof (rule mset_subset_eqI)
  fix a :: "nat \<times> u16"
  obtain t q where a: "a = (t, q)" by force
  show "count (mset (used k (history s))) a \<le> count (mset (allotted s k)) a"
    using assms unfolding numbers_ok_def a by simp
qed

subsection \<open>Progress\<close>

primrec steps_left :: "pc \<Rightarrow> nat" where
  "steps_left Ready = 9"
| "steps_left InNext = 8"
| "steps_left (HasRead q) = 7"
| "steps_left (Bumped q) = 6"
| "steps_left (Numbered q) = 5"
| "steps_left (InTransmit q) = 4"
| "steps_left (Picked q i) = 3"
| "steps_left (Filled q i) = 2"
| "steps_left (Sealed q i) = 1"

definition thread_work :: "'w senders \<Rightarrow> nat \<Rightarrow> nat" where
  "thread_work s t = (case jobs s t of [] \<Rightarrow> 0 | j # js \<Rightarrow> 9 * length js + steps_left (pc_of s t))"

definition work_left :: "nat set \<Rightarrow> 'w senders \<Rightarrow> nat" where
  "work_left T s = (\<Sum>t\<in>T. thread_work s t)"

lemma thread_work_step:
  assumes "advance wr t s = Some s'"
  shows "thread_work s' t < thread_work s t" and "t' \<noteq> t \<Longrightarrow> thread_work s' t' = thread_work s t'"
  using assms by (cases rule: advance_cases; auto simp: thread_work_def split: list.split)+

lemma work_left_step:
  assumes "advance wr t s = Some s'" and "finite T" and "t \<in> T"
  shows "work_left T s' < work_left T s"
  unfolding work_left_def
  by (rule sum_strict_mono_ex1 [OF assms(2)])
     (use thread_work_step [OF assms(1)] assms(3) less_imp_le in \<open>metis order_refl\<close>, use thread_work_step(1) [OF assms(1)] assms(3) in blast)

text \<open>A thread inside a critical section can always go on, so nobody waits for ever.\<close>

lemma advance_in_next:
  assumes "jobs s t \<noteq> []" and "in_next (pc_of s t)"
  shows "advance wr t s \<noteq> None"
proof -
  obtain k p js where "jobs s t = (k, p) # js" using assms(1) by (metis list.exhaust surj_pair)
  with assms(2) show ?thesis by (cases "pc_of s t") (auto simp: advance_def Let_def)
qed

lemma advance_in_transmit:
  assumes "serial_ok wr tw s" and "transmit_owner s = Some t"
  shows "advance wr t s \<noteq> None"
proof -
  obtain tx0 where ok: "transmit_ok tx0" and h: "holder_ok wr tx0 (jobs s t) (pc_of s t) (static_state s)"
    using assms unfolding serial_ok_def by auto
  then obtain k p js where j: "jobs s t = (k, p) # js" by (cases "jobs s t") auto
  with h have h: "wr k \<noteq> None" "length p \<le> kMaxFrameSize" "inside tx0 p (pc_of s t) (static_state s)" by auto
  have parts: "fill_buffer (activeBufferIndex tx0) q p (pick_buffer tx0) \<noteq> None"
    "fill_buffer (activeBufferIndex tx0) q p (pick_buffer tx0) = Some tx2 \<Longrightarrow>
      seal_buffer (activeBufferIndex tx0) (length p) tx2 \<noteq> None"
    "write_buffer cb (activeBufferIndex tx0) (length p) (store_frame tx0 (data_frame q p)) (world s) \<noteq> None" for q tx2 cb
    using transmit_parts [OF ok h(2), of q] by (metis option.inject option.distinct(1))+
  from h(1) obtain cb where cb: "wr k = Some cb" by blast
  show ?thesis
  proof (cases "pc_of s t")
    case (Picked q i)
    with h j parts(1) [of q] show ?thesis by (auto simp: advance_def Let_def)
  next
    case (Filled q i)
    with h j parts(2) [of q "static_state s"] show ?thesis by (auto simp: advance_def Let_def)
  next
    case (Sealed q i)
    with h j parts(3) [of cb q] cb show ?thesis by (auto simp: advance_def Let_def split_beta)
  qed (use h j in \<open>auto simp: advance_def Let_def\<close>)
qed

lemma progress:
  assumes "locks_ok s" and "serial_ok wr tw s" and "jobs s t \<noteq> []"
  shows "\<exists>t'. advance wr t' s \<noteq> None"
proof (rule ccontr)
  assume "\<not> ?thesis"
  then have none: "advance wr t' s = None" for t' by blast
  obtain k p js where j: "jobs s t = (k, p) # js" using assms(3) by (metis list.exhaust surj_pair)
  have idle: "\<not> in_next (pc_of s t')" if "jobs s t' \<noteq> []" for t'
    using advance_in_next [OF that] none by blast
  have "sequence_owner s k = None"
  proof (rule ccontr)
    assume "sequence_owner s k \<noteq> None"
    then obtain t' where "sequence_owner s k = Some t'" by auto
    with assms(1) have "in_next (pc_of s t')" "job_transport s t' = Some k" by (auto simp: locks_ok_def)
    with idle [of t'] show False by (auto simp: job_transport_def split: list.splits)
  qed
  moreover have "transmit_owner s = None"
    using advance_in_transmit [OF assms(2)] none by (cases "transmit_owner s") auto
  moreover have "\<not> in_transmit (pc_of s t)"
    using assms(1) \<open>transmit_owner s = None\<close> by (auto simp: locks_ok_def)
  ultimately show False
    using none [of t] j idle [of t] by (cases "pc_of s t") (auto simp: advance_def Let_def split: if_splits)
qed

subsection \<open>What holds in every reachable state\<close>

definition senders_inv :: "(nat \<Rightarrow> 'w write_callback option) \<Rightarrow> (nat \<Rightarrow> (nat \<times> u8 list) list) \<Rightarrow> transmit_state \<times> 'w \<Rightarrow> 'w senders \<Rightarrow> bool" where
  "senders_inv wr js tw s \<longleftrightarrow> locks_ok s \<and> counter_ok s \<and> serial_ok wr tw s \<and> numbers_ok s \<and>
     (\<forall>t. done_by t (history s) @ jobs s t = js t)"

lemma senders_inv_reach:
  assumes "senders_reach wr (senders_start js tx w) s" and "transmit_ok tx"
  shows "senders_inv wr js (tx, w) s"
  using assms(1)
proof (induction rule: senders_reach.induct)
  case start
  then show ?case
    using assms(2)
    by (simp add: senders_inv_def locks_ok_start counter_ok_start serial_ok_start numbers_ok_start)
       (simp add: senders_start_def done_by_def)
next
  case (step s t s')
  then show ?case
    using locks_ok_step counter_ok_step serial_ok_step numbers_ok_step
    by (auto simp: senders_inv_def done_by_step)
qed

lemma distinct_numbers: "n \<le> 65535 \<Longrightarrow> distinct (map number [0..<n])"
proof -
  assume "n \<le> 65535"
  moreover have "i = j" if "number i = number j" "i < 65535" "j < 65535" for i j
    using arg_cong [OF that(1), of unat] that(2,3) by (simp add: unat_number)
  ultimately show ?thesis by (auto simp: distinct_map inj_on_def)
qed

lemma distinct_submset:
  assumes "mset xs \<subseteq># mset ys" and "distinct ys"
  shows "distinct xs"
proof -
  obtain zs where "mset ys = mset (xs @ zs)"
    using assms(1) by (metis ex_mset mset_append subset_mset.add_diff_inverse)
  with assms(2) show ?thesis by (metis distinct_append mset_eq_imp_distinct_iff)
qed

lemma run_schedule_append: "run_schedule wr (ts @ ts') s = run_schedule wr ts' (run_schedule wr ts s)"
  by (induction ts arbitrary: s) simp_all

text \<open>Two stretches of one thread's steps, undisturbed.\<close>

lemma run_number:
  assumes "jobs s t = (k, p) # js" and "pc_of s t = Ready" and "sequence_owner s k = None" and "next_sequence s k = q"
    and "q + 1 \<noteq> 0"
  shows "run_schedule wr (replicate 4 t) s = s\<lparr>next_sequence := (next_sequence s)(k := q + 1),
     pc_of := (pc_of s)(t := Numbered q), allotted := (allotted s)(k := allotted s k @ [(t, q)])\<rparr>"
  using assms by (simp add: eval_nat_numeral advance_def Let_def fun_upd_idem)

lemma run_transmit:
  assumes "jobs s t = (k, p) # js" and "pc_of s t = Numbered q" and "transmit_owner s = None" and "wr k = Some cb"
    and "length p \<le> kMaxFrameSize" and "transmit_ok (static_state s)"
  shows "run_schedule wr (replicate 5 t) s = s\<lparr>static_state := store_frame (static_state s) (data_frame q p),
     world := snd (cb (data_frame q p) (world s)), pc_of := (pc_of s)(t := Ready), jobs := (jobs s)(t := js),
     history := history s @ [Sent t k q p]\<rparr>"
proof -
  let ?i = "activeBufferIndex (static_state s)"
  obtain tx2 where 1: "fill_buffer ?i q p (pick_buffer (static_state s)) = Some tx2"
    and 2: "seal_buffer ?i (length p) tx2 = Some (store_frame (static_state s) (data_frame q p))"
    and 3: "write_buffer cb ?i (length p) (store_frame (static_state s) (data_frame q p)) (world s) = Some (cb (data_frame q p) (world s))"
    using transmit_parts [OF assms(6,5), of q] by metis
  show ?thesis
    using assms(1-5) 1 2 3 by (simp add: eval_nat_numeral advance_def Let_def split_beta)
qed

text \<open>One thread that sends alone, for the examples.\<close>

abbreviation lone_jobs :: "nat \<Rightarrow> (nat \<times> u8 list) list" where
  "lone_jobs \<equiv> (\<lambda>t. []) (1 := [(0, [7])])"
abbreviation log_writers :: "nat \<Rightarrow> u8 list list write_callback option" where
  "log_writers \<equiv> \<lambda>k. Some (\<lambda>bs log. (True, log @ [bs]))"
abbreviation lone_start :: "u8 list list senders" where
  "lone_start \<equiv> senders_start lone_jobs initial_transmit_state []"

lemma lone_run: "senders_reach log_writers lone_start \<lparr>next_sequence = (\<lambda>_. 1)(0 := 2), sequence_owner = (\<lambda>_. None),
   static_state = store_frame initial_transmit_state (data_frame 1 [7]), transmit_owner = None, world = [data_frame 1 [7]],
   pc_of = (\<lambda>_. Ready), jobs = (\<lambda>_. []), allotted = (\<lambda>_. [])(0 := [(1, 1)]), history = [Sent 1 0 1 [7]]\<rparr>"
  (is "senders_reach _ _ ?s")
proof -
  let ?s1 = "lone_start\<lparr>next_sequence := (\<lambda>_. 1)(0 := 2), pc_of := (\<lambda>_. Ready)(1 := Numbered 1),
     allotted := (\<lambda>_. [])(0 := [(1, 1)])\<rparr>"
  have 1: "run_schedule log_writers (replicate 4 1) lone_start = ?s1"
    using run_number [of lone_start 1 0 "[7]" "[]" 1 log_writers] by (simp add: senders_start_def)
  have 2: "run_schedule log_writers (replicate 5 1) ?s1 = ?s"
    using run_transmit [of ?s1 1 0 "[7]" "[]" 1 log_writers] transmit_ok_initial
    by (simp add: senders_start_def size_consts fun_upd_idem)
  show ?thesis
    using run_schedule_reach [OF run_schedule_reach [OF senders_reach.start, of log_writers lone_start "replicate 4 1"], of "replicate 5 1"]
    unfolding 1 2 .
qed

subsection \<open>Properties\<close>

text \<open>
  C6. Concurrent sends are serialised: whatever the interleaving, when no thread is inside
  \<open>TransmitFrame\<close> the static buffers and the world are those of the frames sent, transmitted one
  after another by the atomic \<open>TransmitFrame\<close>; so every frame goes out whole, with its own number
  and payload. Each thread's jobs are dealt with once each, in the thread's order.
\<close>

theorem concurrent_sends_serialize:
  assumes "transmit_ok tx" and "senders_reach wr (senders_start js tx w) s" and "transmit_owner s = None"
  shows "serial wr (history s) (tx, w) = Some (static_state s, world s) \<and>
     (\<forall>t. done_by t (history s) @ jobs s t = js t)"
  using senders_inv_reach [OF assms(2,1)] assms(3) by (auto simp: senders_inv_def serial_ok_def)

theorem concurrent_sends_serialize_witness:
  "serial log_writers [Sent 1 0 1 [7]] (initial_transmit_state, []) =
     Some (store_frame initial_transmit_state (data_frame 1 [7]), [data_frame 1 [7]])"
  using concurrent_sends_serialize [OF transmit_ok_initial lone_run] by simp

text \<open>
  C39. Sequence numbers under concurrency: a transport gives out 1, 2, ..., 65535 and then again,
  in this order, however the threads interleave; and the jobs finished on it have pairwise
  different numbers as long as it has not given out more than 65535.
\<close>

theorem concurrent_sequence_numbers:
  assumes "transmit_ok tx" and "senders_reach wr (senders_start js tx w) s"
    and "length (allotted s k) \<le> 65535"
  shows "map (unat \<circ> snd) (allotted s k) = [1..<length (allotted s k) + 1] \<and>
     distinct (map event_number (filter (\<lambda>e. event_transport e = k) (history s)))"
proof -
  have inv: "counter_ok s" "numbers_ok s" using senders_inv_reach [OF assms(2,1)] by (simp_all add: senders_inv_def)
  let ?n = "length (allotted s k)"
  have nums: "map snd (allotted s k) = map number [0..<?n]" using inv(1) by (simp add: counter_ok_def Let_def)
  then have "map unat (map snd (allotted s k)) = map (\<lambda>i. i mod 65535 + 1) [0..<?n]"
    by (simp add: unat_number comp_def)
  also have "\<dots> = map Suc [0..<?n]" using assms(3) by (intro map_cong) auto
  finally have 1: "map (unat \<circ> snd) (allotted s k) = [1..<?n + 1]" by (simp add: map_Suc_upt)
  have "image_mset snd (mset (used k (history s))) \<subseteq># image_mset snd (mset (allotted s k))"
    by (rule image_mset_subseteq_mono [OF used_allotted [OF inv(2)]])
  then have sub: "mset (map snd (used k (history s))) \<subseteq># mset (map snd (allotted s k))" by simp
  have "distinct (map snd (allotted s k))" unfolding nums by (rule distinct_numbers [OF assms(3)])
  then have "distinct (map snd (used k (history s)))"
    by (rule distinct_submset [OF sub])
  with 1 show ?thesis by (simp add: used_def comp_def)
qed

theorem concurrent_sequence_numbers_witness:
  "\<exists>s :: u8 list list senders. history s = [Sent 1 0 1 [7]] \<and> map (unat \<circ> snd) (allotted s 0) = [1]"
proof (intro exI conjI)
  show "history \<lparr>next_sequence = (\<lambda>_. 1)(0 := 2), sequence_owner = (\<lambda>_. None),
   static_state = store_frame initial_transmit_state (data_frame 1 [7]), transmit_owner = None, world = [data_frame 1 [7]],
   pc_of = (\<lambda>_. Ready), jobs = (\<lambda>_. []), allotted = (\<lambda>_. [])(0 := [(1, 1)]), history = [Sent 1 0 1 [7]]\<rparr> = [Sent 1 0 1 [7]]"
    by simp
qed (use concurrent_sequence_numbers [OF transmit_ok_initial lone_run, of 0] in simp)

text \<open>
  C10. No deadlock, and an end: as long as a job is left some thread can go on, and every step
  takes something from the work left; so a run of finitely many threads ends, after at most nine
  steps for each job, with all jobs done.
\<close>

theorem concurrent_sends_finish:
  assumes "transmit_ok tx" and "senders_reach wr (senders_start js tx w) s"
    and "finite T" and "\<forall>t. t \<notin> T \<longrightarrow> js t = []"
  shows "(\<forall>t s'. advance wr t s = Some s' \<longrightarrow> work_left T s' < work_left T s) \<and>
     ((\<forall>t. advance wr t s = None) \<longrightarrow> (\<forall>t. done_by t (history s) = js t))"
proof (intro conjI allI impI)
  have inv: "locks_ok s" "serial_ok wr (tx, w) s" "done_by t (history s) @ jobs s t = js t" for t
    using senders_inv_reach [OF assms(2,1)] by (simp_all add: senders_inv_def)
  fix t
  show "work_left T s' < work_left T s" if adv: "advance wr t s = Some s'" for s'
  proof -
    have "jobs s t \<noteq> []" using adv by (auto simp: advance_def)
    with inv(3) [of t] assms(4) have "t \<in> T" by (metis append_is_Nil_conv)
    then show ?thesis by (rule work_left_step [OF adv assms(3)])
  qed
  show "done_by t (history s) = js t" if "\<forall>t. advance wr t s = None"
    using progress [OF inv(1,2)] that inv(3) [of t] by (metis append_Nil2)
qed

theorem concurrent_sends_finish_witness:
  "work_left {1} (the (advance log_writers 1 lone_start)) < work_left {1} lone_start"
proof -
  have "advance log_writers 1 lone_start \<noteq> None" by (simp add: advance_def senders_start_def)
  then have "advance log_writers 1 lone_start = Some (the (advance log_writers 1 lone_start))" by simp
  with concurrent_sends_finish [OF transmit_ok_initial senders_reach.start, of "{1}" lone_jobs log_writers "[]"]
  show ?thesis by simp
qed

text \<open>
  Frames overtake each other: the number is taken under one mutex and the frame written under
  another, so of two threads sending over one transport the second may write its frame, with
  number 2, before the first has written number 1.
\<close>

theorem concurrent_frames_overtake:
  assumes "transmit_ok tx" and "wr k = Some cb" and "length p1 \<le> kMaxFrameSize" and "length p2 \<le> kMaxFrameSize"
    and "js = (\<lambda>t. []) (1 := [(k, p1)], 2 := [(k, p2)])"
  shows "\<exists>ts. history (run_schedule wr ts (senders_start js tx w)) = [Sent 2 k 2 p2, Sent 1 k 1 p1] \<and>
     world (run_schedule wr ts (senders_start js tx w)) = snd (cb (data_frame 1 p1) (snd (cb (data_frame 2 p2) w)))"
proof -
  let ?s0 = "senders_start js tx w"
  let ?s2 = "?s0\<lparr>next_sequence := (\<lambda>_. 1)(k := 3), pc_of := (\<lambda>_. Ready)(1 := Numbered 1, 2 := Numbered 2),
     allotted := (\<lambda>_. [])(k := [(1, 1), (2, 2)])\<rparr>"
  let ?s3 = "?s2\<lparr>static_state := store_frame tx (data_frame 2 p2), world := snd (cb (data_frame 2 p2) w),
     pc_of := (\<lambda>_. Ready)(1 := Numbered 1, 2 := Ready), jobs := js(2 := []), history := [Sent 2 k 2 p2]\<rparr>"
  have j: "js 1 = [(k, p1)]" "js 2 = [(k, p2)]" by (simp_all add: assms(5))
  have "run_schedule wr (replicate 4 1) ?s0 = ?s0\<lparr>next_sequence := (\<lambda>_. 1)(k := 2), pc_of := (\<lambda>_. Ready)(1 := Numbered 1),
     allotted := (\<lambda>_. [])(k := [(1, 1)])\<rparr>"
    using run_number [of ?s0 1 k p1 "[]" 1 wr] j by (simp add: senders_start_def)
  moreover have "run_schedule wr (replicate 4 2) \<dots> = ?s2"
    using run_number [of "?s0\<lparr>next_sequence := (\<lambda>_. 1)(k := 2), pc_of := (\<lambda>_. Ready)(1 := Numbered 1),
       allotted := (\<lambda>_. [])(k := [(1, 1)])\<rparr>" 2 k p2 "[]" 2 wr] j
    by (simp add: senders_start_def)
  moreover have "run_schedule wr (replicate 5 2) ?s2 = ?s3"
    using run_transmit [of ?s2 2 k p2 "[]" 2 wr cb] j assms(1,2,4) by (simp add: senders_start_def fun_upd_twist)
  moreover have "transmit_ok (store_frame tx (data_frame 2 p2))"
    by (rule store_frame_ok [OF assms(1)]) (use assms(4) in \<open>simp add: transmit_consts size_consts\<close>)
  then have "history (run_schedule wr (replicate 5 1) ?s3) = [Sent 2 k 2 p2, Sent 1 k 1 p1] \<and>
      world (run_schedule wr (replicate 5 1) ?s3) = snd (cb (data_frame 1 p1) (snd (cb (data_frame 2 p2) w)))"
    using run_transmit [of ?s3 1 k p1 "[]" 1 wr cb] j assms(2,3) by (simp add: senders_start_def)
  ultimately show ?thesis
    by (intro exI [of _ "replicate 4 1 @ replicate 4 2 @ replicate 5 2 @ replicate 5 1"])
       (simp only: run_schedule_append)
qed

theorem concurrent_frames_overtake_witness:
  "\<exists>ts. world (run_schedule log_writers ts (senders_start ((\<lambda>t. []) (1 := [(0, [7])], 2 := [(0, [8])])) initial_transmit_state []))
     = [data_frame 2 [8], data_frame 1 [7]]"
  using concurrent_frames_overtake [OF transmit_ok_initial, of log_writers 0 "\<lambda>bs log. (True, log @ [bs])" "[7]" "[8]" _ "[]"]
  by (auto simp: size_consts)

end
