(* ===== verification/Dbus_Transport.thy ===== *)
theory Dbus_Transport
  imports Frame_Transport "HOL-Library.Multiset"
begin

section \<open>The D-Bus transport of the examples (examples/dbus_transport)\<close>

text \<open>
  A client whose \<open>Transmit\<close> is the write callback of an endpoint: it sends the frame as the byte
  array of a method call and waits for a boolean reply; and a server that answers such calls with
  what its handler says of the bytes. libdbus is not part of the repository: its functions are the
  record \<open>libdbus\<close>, a parameter, acting on a world. A function that fails with an error set
  returns \<open>Inr\<close>, one that can run out of memory \<open>None\<close> or \<open>False\<close>; the functions that read a
  message get the world it is in.

  Two things are proved for any libdbus: what the transport tells its caller, in terms of what
  libdbus told it; and that it keeps the ownership rules, with a libdbus that counts references
  (\<open>tracked\<close>) around the given one.
\<close>

subsection \<open>libdbus\<close>

record DBusAddress =
  addr_service :: string
  addr_object_path :: string
  addr_interface :: string
  addr_method :: string

record DBusError =
  error_name :: string
  error_text :: string

datatype name_reply = PrimaryOwner | OtherReply int

datatype arg_type = TypeArray | TypeByte | TypeOther

datatype handler_result = ResultHandled | ResultNotYetHandled | ResultNeedMemory

record ('c, 'm, 'i, 'w) libdbus =
  bus_get :: "'w \<Rightarrow> ('c + DBusError) \<times> 'w"
  set_exit_on_disconnect :: "'c \<Rightarrow> bool \<Rightarrow> 'w \<Rightarrow> 'w"
  connection_unref :: "'c \<Rightarrow> 'w \<Rightarrow> 'w"
  request_name :: "'c \<Rightarrow> string \<Rightarrow> 'w \<Rightarrow> (name_reply + DBusError) \<times> 'w"
  register_object_path :: "'c \<Rightarrow> string \<Rightarrow> 'w \<Rightarrow> bool \<times> 'w"
  unregister_object_path :: "'c \<Rightarrow> string \<Rightarrow> 'w \<Rightarrow> 'w"
  new_method_call :: "DBusAddress \<Rightarrow> 'w \<Rightarrow> 'm option \<times> 'w"
  message_unref :: "'m \<Rightarrow> 'w \<Rightarrow> 'w"
  open_byte_array :: "'m \<Rightarrow> 'w \<Rightarrow> bool \<times> 'w"
  append_fixed_array :: "'m \<Rightarrow> u8 list \<Rightarrow> int \<Rightarrow> 'w \<Rightarrow> bool \<times> 'w"
  close_array :: "'m \<Rightarrow> 'w \<Rightarrow> bool \<times> 'w"
  send_with_reply_and_block :: "'c \<Rightarrow> 'm \<Rightarrow> int \<Rightarrow> 'w \<Rightarrow> ('m + DBusError) \<times> 'w"
  get_boolean :: "'m \<Rightarrow> 'w \<Rightarrow> (bool + DBusError) \<times> 'w"
  is_method_call :: "'m \<Rightarrow> string \<Rightarrow> string \<Rightarrow> 'w \<Rightarrow> bool"
  iter_init :: "'m \<Rightarrow> 'w \<Rightarrow> 'i option"
  get_arg_type :: "'i \<Rightarrow> 'w \<Rightarrow> arg_type"
  recurse :: "'i \<Rightarrow> 'w \<Rightarrow> 'i"
  get_fixed_array :: "'i \<Rightarrow> 'w \<Rightarrow> ptr \<times> int"
  new_method_return :: "'m \<Rightarrow> 'w \<Rightarrow> 'm option \<times> 'w"
  append_boolean :: "'m \<Rightarrow> bool \<Rightarrow> 'w \<Rightarrow> bool \<times> 'w"
  connection_send :: "'c \<Rightarrow> 'm \<Rightarrow> 'w \<Rightarrow> bool \<times> 'w"
  connection_flush :: "'c \<Rightarrow> 'w \<Rightarrow> 'w"
  print_stderr :: "string \<Rightarrow> 'w \<Rightarrow> 'w"

subsection \<open>The client\<close>

record 'c DBusClientTransport =
  client_connection :: "'c option"
  client_address :: DBusAddress

text \<open>Prints an error if one is set.\<close>

definition LogAndClearError :: "('c, 'm, 'i, 'w) libdbus \<Rightarrow> string \<Rightarrow> DBusError option \<Rightarrow> 'w \<Rightarrow> 'w" where
  "LogAndClearError lib where_at err w =
     (case err of
        None \<Rightarrow> w
      | Some e \<Rightarrow> print_stderr lib (where_at @ '': '' @ error_name e @ '' - '' @ error_text e @ [CHR 0x0A]) w)"

definition open_client :: "('c, 'm, 'i, 'w) libdbus \<Rightarrow> DBusAddress \<Rightarrow> 'w \<Rightarrow> 'c DBusClientTransport \<times> 'w" where
  "open_client lib address w =
     (case bus_get lib w of
        (Inr e, w1) \<Rightarrow> (\<lparr>client_connection = None, client_address = address\<rparr>,
          LogAndClearError lib ''DBusClientTransport: failed to connect to session bus'' (Some e) w1)
      | (Inl c, w1) \<Rightarrow> (\<lparr>client_connection = Some c, client_address = address\<rparr>,
          set_exit_on_disconnect lib c False (LogAndClearError lib ''DBusClientTransport'' None w1)))"

definition close_client :: "('c, 'm, 'i, 'w) libdbus \<Rightarrow> 'c DBusClientTransport \<Rightarrow> 'w \<Rightarrow> 'c DBusClientTransport \<times> 'w" where
  "close_client lib cl w =
     (case client_connection cl of
        None \<Rightarrow> (cl, w)
      | Some c \<Rightarrow> (cl\<lparr>client_connection := None\<rparr>, connection_unref lib c w))"

definition client_Valid :: "'c DBusClientTransport \<Rightarrow> bool" where
  "client_Valid cl \<longleftrightarrow> client_connection cl \<noteq> None"

text \<open>\<open>static_cast<int>(size)\<close>; the array handed over is what \<open>length\<close> then covers.\<close>

definition int_length :: "nat \<Rightarrow> int" where
  "int_length n = sint (of_nat n :: 32 word)"

definition AppendByteArray ::
  "('c, 'm, 'i, 'w) libdbus \<Rightarrow> 'm \<Rightarrow> u8 list \<Rightarrow> nat \<Rightarrow> 'w \<Rightarrow> (bool \<times> 'w) option" where
  "AppendByteArray lib message data n w =
     (let (opened, w1) = open_byte_array lib message w in
      if \<not> opened then Some (False, w1)
      else do {
        bs \<leftarrow> read_at data 0 (nat (int_length n));
        let (appended, w2) = append_fixed_array lib message bs (int_length n) w1;
        let (closed, w3) = close_array lib message w2;
        if \<not> appended then Some (False, w3)
        else if \<not> closed then Some (False, w3)
        else Some (True, w3)
      })"

definition Transmit ::
  "('c, 'm, 'i, 'w) libdbus \<Rightarrow> 'c DBusClientTransport \<Rightarrow> ptr \<Rightarrow> nat \<Rightarrow> 'w \<Rightarrow> (bool \<times> 'w) option" where
  "Transmit lib cl data n w =
     (case (client_connection cl, data) of
        (Some c, Some mem) \<Rightarrow>
          if n = 0 then Some (False, w)
          else (case new_method_call lib (client_address cl) w of
            (None, w1) \<Rightarrow>
              Some (False, print_stderr lib (''DBusClientTransport: failed to allocate message'' @ [CHR 0x0A]) w1)
          | (Some message, w1) \<Rightarrow> do {
              (appended, w2) \<leftarrow> AppendByteArray lib message mem n w1;
              if \<not> appended
              then Some (False, message_unref lib message
                (print_stderr lib (''DBusClientTransport: failed to append payload'' @ [CHR 0x0A]) w2))
              else
                let (reply, w3) = send_with_reply_and_block lib c message (- 1) w2;
                    w4 = message_unref lib message w3 in
                (case reply of
                   Inr e \<Rightarrow> Some (False, LogAndClearError lib ''DBusClientTransport: send failed'' (Some e) w4)
                 | Inl answer \<Rightarrow>
                     (case get_boolean lib answer w4 of
                        (Inr e, w5) \<Rightarrow> Some (False, message_unref lib answer
                          (LogAndClearError lib ''DBusClientTransport: failed to parse reply'' (Some e) w5))
                      | (Inl success, w5) \<Rightarrow> Some (success, message_unref lib answer w5)))
            })
      | _ \<Rightarrow> Some (False, w))"

text \<open>The delegate given to an endpoint: an endpoint calls it with a readable frame.\<close>

definition MakeWriteCallback :: "('c, 'm, 'i, 'w) libdbus \<Rightarrow> 'c DBusClientTransport \<Rightarrow> 'w write_callback" where
  "MakeWriteCallback lib cl bs w =
     (case Transmit lib cl (Some bs) (length bs) w of Some r \<Rightarrow> r | None \<Rightarrow> (False, w))"

subsection \<open>The server\<close>

record ('c, 'w) DBusServerTransport =
  server_connection :: "'c option"
  server_address :: DBusAddress
  server_handler :: "'w data_handler option"

definition new_server :: "DBusAddress \<Rightarrow> ('c, 'w) DBusServerTransport" where
  "new_server address = \<lparr>server_connection = None, server_address = address, server_handler = None\<rparr>"

definition close_server ::
  "('c, 'm, 'i, 'w) libdbus \<Rightarrow> ('c, 'w) DBusServerTransport \<Rightarrow> 'w \<Rightarrow> ('c, 'w) DBusServerTransport \<times> 'w" where
  "close_server lib sv w =
     (case server_connection sv of
        None \<Rightarrow> (sv, w)
      | Some c \<Rightarrow> (sv\<lparr>server_connection := None\<rparr>,
          connection_unref lib c (unregister_object_path lib c (addr_object_path (server_address sv)) w)))"

definition server_Start ::
  "('c, 'm, 'i, 'w) libdbus \<Rightarrow> 'w data_handler option \<Rightarrow> ('c, 'w) DBusServerTransport \<Rightarrow> 'w
     \<Rightarrow> bool \<times> ('c, 'w) DBusServerTransport \<times> 'w" where
  "server_Start lib h sv w =
     (let sv1 = sv\<lparr>server_handler := h\<rparr> in
      case bus_get lib w of
        (Inr e, w1) \<Rightarrow> (False, sv1\<lparr>server_connection := None\<rparr>,
          LogAndClearError lib ''DBusServerTransport: failed to connect to session bus'' (Some e) w1)
      | (Inl c, w1) \<Rightarrow>
          let sv2 = sv1\<lparr>server_connection := Some c\<rparr>;
              w2 = set_exit_on_disconnect lib c False w1 in
          (case request_name lib c (addr_service (server_address sv)) w2 of
             (Inr e, w3) \<Rightarrow>
               (False, sv2, LogAndClearError lib ''DBusServerTransport: failed to request name'' (Some e) w3)
           | (Inl reply, w3) \<Rightarrow>
               if reply \<noteq> PrimaryOwner
               then (False, sv2, print_stderr lib (''DBusServerTransport: name already taken'' @ [CHR 0x0A]) w3)
               else
                 let (registered, w4) = register_object_path lib c (addr_object_path (server_address sv)) w3 in
                 if \<not> registered
                 then (False, sv2, print_stderr lib (''DBusServerTransport: failed to register object path'' @ [CHR 0x0A]) w4)
                 else (True, sv2, w4)))"

text \<open>The payload of a call: a non-empty byte array as first argument.\<close>

definition call_payload :: "('c, 'm, 'i, 'w) libdbus \<Rightarrow> 'm \<Rightarrow> 'w \<Rightarrow> (u8 list \<times> nat) option" where
  "call_payload lib message w =
     (case iter_init lib message w of
        None \<Rightarrow> None
      | Some it \<Rightarrow>
          if get_arg_type lib it w = TypeArray then
            let array = recurse lib it w in
            if get_arg_type lib array w = TypeByte then
              (case get_fixed_array lib array w of
                 (Some raw, len) \<Rightarrow> if len > 0 then Some (raw, nat len) else None
               | (None, len) \<Rightarrow> None)
            else None
          else None)"

definition HandleMessage ::
  "('c, 'm, 'i, 'w) libdbus \<Rightarrow> 'c \<Rightarrow> 'm option \<Rightarrow> ('c, 'w) DBusServerTransport option \<Rightarrow> 'w
     \<Rightarrow> (handler_result \<times> 'w) option" where
  "HandleMessage lib conn message self w =
     (case (self, message) of
        (Some sv, Some m) \<Rightarrow>
          if \<not> is_method_call lib m (addr_interface (server_address sv)) (addr_method (server_address sv)) w
          then Some (ResultNotYetHandled, w)
          else do {
            (handled, w1) \<leftarrow> (case (call_payload lib m w, server_handler sv) of
               (Some (payload, n), Some h) \<Rightarrow> h payload n w
             | _ \<Rightarrow> Some (False, w));
            (case new_method_return lib m w1 of
               (None, w2) \<Rightarrow> Some (ResultNeedMemory,
                 print_stderr lib (''DBusServerTransport: failed to allocate reply'' @ [CHR 0x0A]) w2)
             | (Some reply, w2) \<Rightarrow>
                 let (appended, w3) = append_boolean lib reply handled w2 in
                 if \<not> appended
                 then Some (ResultNeedMemory, print_stderr lib (''DBusServerTransport: failed to append reply data'' @ [CHR 0x0A])
                   (message_unref lib reply w3))
                 else
                   let (sent, w4) = connection_send lib conn reply w3 in
                   if \<not> sent
                   then Some (ResultNeedMemory, print_stderr lib (''DBusServerTransport: failed to send reply'' @ [CHR 0x0A])
                     (message_unref lib reply w4))
                   else Some (ResultHandled, message_unref lib reply (connection_flush lib conn w4)))
          }
      | _ \<Rightarrow> Some (ResultNotYetHandled, w))"

subsection \<open>The main loop\<close>

text \<open>
  \<open>dispatch\<close> hands queued messages to the registered handler and says whether more are waiting.
  Neither loop needs to end, so both are \<open>None\<close> if they do not.
\<close>

record ('c, 'm, 'w) dbus_queue =
  read_write :: "'c \<Rightarrow> int \<Rightarrow> 'w \<Rightarrow> bool \<times> 'w"
  dispatch_remains :: "('m \<Rightarrow> 'w \<Rightarrow> (handler_result \<times> 'w) option) \<Rightarrow> 'c \<Rightarrow> 'w \<Rightarrow> (bool \<times> 'w) option"

partial_function (option) drain ::
  "('c, 'm, 'w) dbus_queue \<Rightarrow> ('m \<Rightarrow> 'w \<Rightarrow> (handler_result \<times> 'w) option) \<Rightarrow> 'c \<Rightarrow> 'w \<Rightarrow> 'w option" where
  "drain q h c w = do {
     (remains, w1) \<leftarrow> dispatch_remains q h c w;
     if remains then drain q h c w1 else Some w1
   }"

definition keeps_running :: "('w \<Rightarrow> bool \<times> 'w) option \<Rightarrow> 'w \<Rightarrow> bool \<times> 'w" where
  "keeps_running keep w = (case keep of None \<Rightarrow> (True, w) | Some k \<Rightarrow> k w)"

definition loop_pass ::
  "('c, 'm, 'w) dbus_queue \<Rightarrow> ('m \<Rightarrow> 'w \<Rightarrow> (handler_result \<times> 'w) option) \<Rightarrow> 'c \<Rightarrow> 'w \<Rightarrow> 'w option" where
  "loop_pass q h c w = drain q h c (snd (read_write q c 100 w))"

partial_function (option) run_loop ::
  "('c, 'm, 'w) dbus_queue \<Rightarrow> ('m \<Rightarrow> 'w \<Rightarrow> (handler_result \<times> 'w) option) \<Rightarrow> 'c \<Rightarrow> ('w \<Rightarrow> bool \<times> 'w) option
     \<Rightarrow> 'w \<Rightarrow> 'w option" where
  "run_loop q h c keep w =
     (case keeps_running keep w of (go, w1) \<Rightarrow>
        if go then do { w2 \<leftarrow> loop_pass q h c w1; run_loop q h c keep w2 } else Some w1)"

definition RunWhile ::
  "('c, 'm, 'i, 'w) libdbus \<Rightarrow> ('c, 'm, 'w) dbus_queue \<Rightarrow> ('c, 'w) DBusServerTransport \<Rightarrow> ('w \<Rightarrow> bool \<times> 'w) option
     \<Rightarrow> 'w \<Rightarrow> 'w option" where
  "RunWhile lib q sv keep w =
     (case server_connection sv of
        None \<Rightarrow> Some w
      | Some c \<Rightarrow> run_loop q (\<lambda>m. HandleMessage lib c (Some m) (Some sv)) c keep w)"

definition RunForever ::
  "('c, 'm, 'i, 'w) libdbus \<Rightarrow> ('c, 'm, 'w) dbus_queue \<Rightarrow> ('c, 'w) DBusServerTransport \<Rightarrow> 'w \<Rightarrow> 'w option" where
  "RunForever lib q sv w = RunWhile lib q sv None w"

text \<open>The world after \<open>n\<close> passes, each after the predicate has said yes.\<close>

primrec after_passes ::
  "('c, 'm, 'w) dbus_queue \<Rightarrow> ('m \<Rightarrow> 'w \<Rightarrow> (handler_result \<times> 'w) option) \<Rightarrow> 'c \<Rightarrow> ('w \<Rightarrow> bool \<times> 'w) option
     \<Rightarrow> nat \<Rightarrow> 'w \<Rightarrow> 'w option" where
  "after_passes q h c keep 0 w = Some w"
| "after_passes q h c keep (Suc n) w =
     (case keeps_running keep w of (go, w1) \<Rightarrow>
        if go then do { w2 \<leftarrow> loop_pass q h c w1; after_passes q h c keep n w2 } else None)"

lemma run_loop_passes:
  fixes q :: "('c, 'm, 'w) dbus_queue"
  assumes "run_loop q h c keep w = Some y"
  shows "\<exists>n v. after_passes q h c keep n w = Some v \<and> keeps_running keep v = (False, y)"
proof (rule run_loop.raw_induct [OF _ assms])
  fix loop :: "('c, 'm, 'w) dbus_queue \<Rightarrow> ('m \<Rightarrow> 'w \<Rightarrow> (handler_result \<times> 'w) option) \<Rightarrow> 'c \<Rightarrow> ('w \<Rightarrow> bool \<times> 'w) option \<Rightarrow> 'w \<Rightarrow> 'w option"
    and q h c keep w y
  assume ih: "\<And>q h c keep w y. loop q h c keep w = Some y \<Longrightarrow>
      \<exists>n v. after_passes q h c keep n w = Some v \<and> keeps_running keep v = (False, y)"
    and body: "(case keeps_running keep w of (go, w1) \<Rightarrow>
        if go then do { w2 \<leftarrow> loop_pass q h c w1; loop q h c keep w2 } else Some w1) = Some y"
  obtain b w1 where k: "keeps_running keep w = (b, w1)" by force
  show "\<exists>n v. after_passes q h c keep n w = Some v \<and> keeps_running keep v = (False, y)"
  proof (cases b)
    case False
    with k body show ?thesis by (intro exI [of _ 0] exI [of _ w]) simp
  next
    case True
    with k body obtain w2 where w2: "loop_pass q h c w1 = Some w2" "loop q h c keep w2 = Some y"
      by (auto simp: bind_eq_Some_conv)
    from ih [OF w2(2)] obtain n v where "after_passes q h c keep n w2 = Some v" "keeps_running keep v = (False, y)"
      by blast
    with k True w2(1) show ?thesis by (intro exI [of _ "Suc n"] exI [of _ v]) simp
  qed
qed

lemma run_loop_after_passes:
  "after_passes q h c keep n w = Some v \<Longrightarrow> keeps_running keep v = (False, y) \<Longrightarrow> run_loop q h c keep w = Some y"
proof (induction n arbitrary: w)
  case 0
  then show ?case by (subst run_loop.simps) simp
next
  case (Suc n)
  then show ?case by (subst run_loop.simps) (auto simp: bind_eq_Some_conv split: prod.splits if_splits)
qed

lemma run_loop_returns:
  "run_loop q h c keep w = Some y \<longleftrightarrow> (\<exists>n v. after_passes q h c keep n w = Some v \<and> keeps_running keep v = (False, y))"
  by (blast intro: run_loop_passes run_loop_after_passes)

subsection \<open>A libdbus that counts references\<close>

text \<open>
  \<open>messages\<close> and \<open>connections\<close> are the references held, \<open>paths\<close> the object paths registered. \<open>sound\<close>
  is cleared by a use of something not held, a release of it, or the removal of a path that is not
  registered (which libdbus documents as a bug of its caller). \<open>verdicts\<close> has the boolean appended to
  a message, \<open>answers\<close> those of the messages sent, and \<open>calls\<close> what the handler was called with.
\<close>

record ('c, 'm, 'w) tracked =
  messages :: "'m multiset"
  connections :: "'c multiset"
  paths :: "('c \<times> string) multiset"
  sound :: bool
  verdicts :: "'m \<Rightarrow> bool option"
  answers :: "bool option list"
  calls :: "(u8 list \<times> nat) list"
  base :: 'w

definition on_base :: "('w \<Rightarrow> 'r \<times> 'w) \<Rightarrow> ('c, 'm, 'w) tracked \<Rightarrow> 'r \<times> ('c, 'm, 'w) tracked" where
  "on_base f s = (fst (f (base s)), s\<lparr>base := snd (f (base s))\<rparr>)"

definition with_message :: "'m \<Rightarrow> ('c, 'm, 'w) tracked \<Rightarrow> ('c, 'm, 'w) tracked" where
  "with_message m s = s\<lparr>sound := (sound s \<and> m \<in># messages s)\<rparr>"

definition with_connection :: "'c \<Rightarrow> ('c, 'm, 'w) tracked \<Rightarrow> ('c, 'm, 'w) tracked" where
  "with_connection c s = s\<lparr>sound := (sound s \<and> c \<in># connections s)\<rparr>"

definition gain_message :: "'m option \<times> ('c, 'm, 'w) tracked \<Rightarrow> 'm option \<times> ('c, 'm, 'w) tracked" where
  "gain_message r = (case r of (None, s) \<Rightarrow> (None, s) | (Some m, s) \<Rightarrow> (Some m, s\<lparr>messages := add_mset m (messages s)\<rparr>))"

definition tracking :: "('c, 'm, 'i, 'w) libdbus \<Rightarrow> ('c, 'm, 'i, ('c, 'm, 'w) tracked) libdbus" where
  "tracking lib = \<lparr>
     bus_get = (\<lambda>s. case on_base (bus_get lib) s of
        (Inl c, s1) \<Rightarrow> (Inl c, s1\<lparr>connections := add_mset c (connections s1)\<rparr>) | (Inr e, s1) \<Rightarrow> (Inr e, s1)),
     set_exit_on_disconnect = (\<lambda>c b s. (with_connection c s)\<lparr>base := set_exit_on_disconnect lib c b (base s)\<rparr>),
     connection_unref = (\<lambda>c s. (with_connection c s)
        \<lparr>connections := connections s - {#c#}, base := connection_unref lib c (base s)\<rparr>),
     request_name = (\<lambda>c name s. on_base (request_name lib c name) (with_connection c s)),
     register_object_path = (\<lambda>c path s. case on_base (register_object_path lib c path) (with_connection c s) of
        (ok, s1) \<Rightarrow> (ok, if ok then s1\<lparr>paths := add_mset (c, path) (paths s1)\<rparr> else s1)),
     unregister_object_path = (\<lambda>c path s. (with_connection c s)
        \<lparr>sound := (sound (with_connection c s) \<and> (c, path) \<in># paths s), paths := paths s - {#(c, path)#},
         base := unregister_object_path lib c path (base s)\<rparr>),
     new_method_call = (\<lambda>a s. gain_message (on_base (new_method_call lib a) s)),
     message_unref = (\<lambda>m s. (with_message m s)\<lparr>messages := messages s - {#m#}, base := message_unref lib m (base s)\<rparr>),
     open_byte_array = (\<lambda>m s. on_base (open_byte_array lib m) (with_message m s)),
     append_fixed_array = (\<lambda>m bs n s. on_base (append_fixed_array lib m bs n) (with_message m s)),
     close_array = (\<lambda>m s. on_base (close_array lib m) (with_message m s)),
     send_with_reply_and_block = (\<lambda>c m t s. case on_base (send_with_reply_and_block lib c m t) (with_message m (with_connection c s)) of
        (Inl r, s1) \<Rightarrow> (Inl r, s1\<lparr>messages := add_mset r (messages s1)\<rparr>) | (Inr e, s1) \<Rightarrow> (Inr e, s1)),
     get_boolean = (\<lambda>m s. on_base (get_boolean lib m) (with_message m s)),
     is_method_call = (\<lambda>m i n s. is_method_call lib m i n (base s)),
     iter_init = (\<lambda>m s. iter_init lib m (base s)),
     get_arg_type = (\<lambda>it s. get_arg_type lib it (base s)),
     recurse = (\<lambda>it s. recurse lib it (base s)),
     get_fixed_array = (\<lambda>it s. get_fixed_array lib it (base s)),
     new_method_return = (\<lambda>m s. gain_message (on_base (new_method_return lib m) (with_message m s))),
     append_boolean = (\<lambda>m b s. case on_base (append_boolean lib m b) (with_message m s) of
        (ok, s1) \<Rightarrow> (ok, if ok then s1\<lparr>verdicts := (verdicts s1)(m := Some b)\<rparr> else s1)),
     connection_send = (\<lambda>c m s. case on_base (connection_send lib c m) (with_message m (with_connection c s)) of
        (ok, s1) \<Rightarrow> (ok, if ok then s1\<lparr>answers := answers s1 @ [verdicts s1 m]\<rparr> else s1)),
     connection_flush = (\<lambda>c s. (with_connection c s)\<lparr>base := connection_flush lib c (base s)\<rparr>),
     print_stderr = (\<lambda>line s. s\<lparr>base := print_stderr lib line (base s)\<rparr>)\<rparr>"

lemmas tracking_defs = tracking_def on_base_def with_message_def with_connection_def gain_message_def

text \<open>A run on the base world, with every reference and \<open>sound\<close> left as they are.\<close>

definition in_base :: "('c, 'm, 'w) tracked \<Rightarrow> ('r \<times> 'w) option \<Rightarrow> ('r \<times> ('c, 'm, 'w) tracked) option" where
  "in_base s = map_option (\<lambda>(r, w). (r, s\<lparr>base := w\<rparr>))"

lemma in_base_simps [simp]:
  "in_base s None = None"
  "in_base s (Some (r, w)) = Some (r, s\<lparr>base := w\<rparr>)"
  by (simp_all add: in_base_def)

lemma AppendByteArray_tracked:
  assumes "m \<in># messages s"
  shows "AppendByteArray (tracking lib) m data n s = in_base s (AppendByteArray lib m data n (base s))"
  using assms
  by (cases s) (simp add: AppendByteArray_def tracking_defs Let_def case_prod_unfold split: bind_splits)

lemma Transmit_tracked:
  assumes "\<forall>c. client_connection cl = Some c \<longrightarrow> c \<in># connections s"
  shows "Transmit (tracking lib) cl data n s = in_base s (Transmit lib cl data n (base s))"
proof (cases "client_connection cl")
  case None
  then show ?thesis by (cases s) (simp add: Transmit_def)
next
  case (Some c)
  then have c: "c \<in># connections s" using assms by simp
  show ?thesis
  proof (cases data)
    case None
    with Some show ?thesis by (cases s) (simp add: Transmit_def)
  next
    case mem: (Some mem)
    obtain r w1 where new: "new_method_call lib (client_address cl) (base s) = (r, w1)" by force
    show ?thesis
    proof (cases r)
      case None
      with Some mem new show ?thesis by (cases s) (simp add: Transmit_def tracking_defs)
    next
      case m: (Some m)
      let ?s1 = "s\<lparr>messages := add_mset m (messages s), base := w1\<rparr>"
      have "AppendByteArray (tracking lib) m mem n ?s1 = in_base ?s1 (AppendByteArray lib m mem n w1)"
        by (simp add: AppendByteArray_tracked)
      with Some mem new m c show ?thesis
        by (cases s; cases "AppendByteArray lib m mem n w1")
          (auto simp: Transmit_def tracking_defs LogAndClearError_def Let_def split: prod.splits sum.splits)
    qed
  qed
qed

subsection \<open>A client's life\<close>

primrec Transmit_all ::
  "('c, 'm, 'i, 'w) libdbus \<Rightarrow> 'c DBusClientTransport \<Rightarrow> (ptr \<times> nat) list \<Rightarrow> 'w \<Rightarrow> (bool list \<times> 'w) option" where
  "Transmit_all lib cl [] w = Some ([], w)"
| "Transmit_all lib cl (r # rs) w = do {
     (ok, w1) \<leftarrow> Transmit lib cl (fst r) (snd r) w;
     (oks, w2) \<leftarrow> Transmit_all lib cl rs w1;
     Some (ok # oks, w2)
   }"

definition client_session ::
  "('c, 'm, 'i, 'w) libdbus \<Rightarrow> DBusAddress \<Rightarrow> (ptr \<times> nat) list \<Rightarrow> 'w \<Rightarrow> (bool list \<times> 'w) option" where
  "client_session lib address requests w =
     (let (cl, w1) = open_client lib address w in do {
        (oks, w2) \<leftarrow> Transmit_all lib cl requests w1;
        Some (oks, snd (close_client lib cl w2))
      })"

lemma Transmit_all_tracked:
  assumes "\<forall>c. client_connection cl = Some c \<longrightarrow> c \<in># connections s"
  shows "Transmit_all (tracking lib) cl rs s = in_base s (Transmit_all lib cl rs (base s))"
  using assms
proof (induction rs arbitrary: s)
  case (Cons r rs)
  have step: "Transmit_all (tracking lib) cl rs (s\<lparr>base := w\<rparr>) = in_base (s\<lparr>base := w\<rparr>) (Transmit_all lib cl rs w)" for w
    using Cons.IH [of "s\<lparr>base := w\<rparr>"] Cons.prems by simp
  show ?case
    by (simp add: Transmit_tracked [OF Cons.prems] step in_base_def case_prod_unfold option.map_comp comp_def
        split: bind_splits)
qed simp

text \<open>
  C29. A client takes as many references of libdbus objects as it gives back: opening it, transmitting
  any requests whatever comes of each (an allocation, an append, the call or its reply may fail), and
  closing it leaves the messages and the connections held as they were, and no object is used or
  released that the client does not hold. Counting the references changes nothing else.
\<close>

theorem client_session_balanced:
  "client_session (tracking lib) address requests s = in_base s (client_session lib address requests (base s))"
proof (cases "fst (bus_get lib (base s))")
  case (Inl c)
  let ?cl = "\<lparr>client_connection = Some c, client_address = address\<rparr>"
  let ?w = "set_exit_on_disconnect lib c False (snd (bus_get lib (base s)))"
  let ?s = "s\<lparr>connections := add_mset c (connections s), base := ?w\<rparr>"
  have "Transmit_all (tracking lib) ?cl requests ?s = in_base ?s (Transmit_all lib ?cl requests ?w)"
    by (simp add: Transmit_all_tracked)
  with Inl show ?thesis
    by (cases s; cases "Transmit_all lib ?cl requests ?w")
      (auto simp: client_session_def open_client_def close_client_def tracking_defs LogAndClearError_def
        case_prod_unfold)
next
  case (Inr e)
  let ?cl = "\<lparr>client_connection = None, client_address = address\<rparr>"
  have "Transmit_all (tracking lib) ?cl requests s' = in_base s' (Transmit_all lib ?cl requests (base s'))" for s'
    by (simp add: Transmit_all_tracked)
  with Inr show ?thesis
    by (cases s)
      (simp add: client_session_def open_client_def close_client_def tracking_defs LogAndClearError_def
        case_prod_unfold in_base_def option.map_comp comp_def split: bind_splits)
qed

text \<open>
  A frame that can be read is never read past, so the last case of \<open>MakeWriteCallback\<close> does not
  arise; and the length of every frame the transport sends fits \<open>int\<close>.
\<close>

lemma int_length_le: "nat (int_length n) \<le> n"
proof -
  have "signed_take_bit 31 (int n) \<le> int n" by (simp add: signed_take_bit_int_less_eq_self_iff)
  then show ?thesis by (simp add: int_length_def signed_of_nat)
qed

lemma Transmit_readable: "Transmit lib cl (Some bs) (length bs) w \<noteq> None"
proof -
  have appends: "AppendByteArray lib m bs (length bs) w \<noteq> None" for m w
    using int_length_le [of "length bs"] by (auto simp: AppendByteArray_def mem_simps Let_def case_prod_unfold)
  show ?thesis
    by (auto simp: Transmit_def Let_def case_prod_unfold appends simp del: not_None_eq
        split: bind_splits option.splits sum.splits)
qed


lemma int_length_exact: "n < 2 ^ 31 \<Longrightarrow> int_length n = int n"
  by (simp add: int_length_def signed_of_nat signed_take_bit_int_eq_self)

subsection \<open>A server's life\<close>

text \<open>A handler, each call of it noted; it touches none of the references.\<close>

definition lift_handler :: "'w data_handler \<Rightarrow> ('c, 'm, 'w) tracked data_handler" where
  "lift_handler h p n s = in_base (s\<lparr>calls := calls s @ [(p, n)]\<rparr>) (h p n (base s))"


definition lift_server :: "('c, 'w) DBusServerTransport \<Rightarrow> ('c, ('c, 'm, 'w) tracked) DBusServerTransport" where
  "lift_server sv = \<lparr>server_connection = server_connection sv, server_address = server_address sv,
     server_handler = map_option lift_handler (server_handler sv)\<rparr>"

lemma lift_server_simps [simp]:
  "server_connection (lift_server sv) = server_connection sv"
  "server_address (lift_server sv) = server_address sv"
  "server_handler (lift_server sv) = map_option lift_handler (server_handler sv)"
  by (simp_all add: lift_server_def)

text \<open>What the handler has to be called with for a message, and what has to be answered.\<close>

definition due_calls :: "('c, 'm, 'i, 'w) libdbus \<Rightarrow> ('c, 'w) DBusServerTransport \<Rightarrow> 'm \<Rightarrow> 'w \<Rightarrow> (u8 list \<times> nat) list" where
  "due_calls lib sv m w =
     (case (call_payload lib m w, server_handler sv) of (Some p, Some h) \<Rightarrow> [p] | _ \<Rightarrow> [])"

definition due_answer :: "('c, 'm, 'i, 'w) libdbus \<Rightarrow> ('c, 'w) DBusServerTransport \<Rightarrow> 'm \<Rightarrow> 'w \<Rightarrow> bool option" where
  "due_answer lib sv m w =
     (case (call_payload lib m w, server_handler sv) of
        (Some (p, n), Some h) \<Rightarrow> map_option fst (h p n w) | _ \<Rightarrow> Some False)"

text \<open>libdbus hands over a message and the connection it came on, and holds both meanwhile.\<close>

definition holding :: "'c \<Rightarrow> 'm \<Rightarrow> ('c, 'm, 'w) tracked \<Rightarrow> ('c, 'm, 'w) tracked" where
  "holding c m s = s\<lparr>connections := add_mset c (connections s), messages := add_mset m (messages s)\<rparr>"

definition same_refs :: "('c, 'm, 'w) tracked \<Rightarrow> ('c, 'm, 'w) tracked \<Rightarrow> bool" where
  "same_refs s s' \<longleftrightarrow> messages s' = messages s \<and> connections s' = connections s \<and> paths s' = paths s \<and> sound s' = sound s"

lemma call_payload_tracked [simp]: "call_payload (tracking lib) m s = call_payload lib m (base s)"
  by (simp add: call_payload_def tracking_def Let_def split: option.split)

text \<open>The reply to a call, once the handler has been asked.\<close>

definition reply_to :: "('c, 'm, 'i, 'w) libdbus \<Rightarrow> 'c \<Rightarrow> 'm \<Rightarrow> bool \<Rightarrow> 'w \<Rightarrow> handler_result \<times> 'w" where
  "reply_to lib conn m handled w1 =
     (case new_method_return lib m w1 of
        (None, w2) \<Rightarrow> (ResultNeedMemory,
          print_stderr lib (''DBusServerTransport: failed to allocate reply'' @ [CHR 0x0A]) w2)
      | (Some reply, w2) \<Rightarrow>
          let (appended, w3) = append_boolean lib reply handled w2 in
          if \<not> appended
          then (ResultNeedMemory, print_stderr lib (''DBusServerTransport: failed to append reply data'' @ [CHR 0x0A])
            (message_unref lib reply w3))
          else
            let (sent, w4) = connection_send lib conn reply w3 in
            if \<not> sent
            then (ResultNeedMemory, print_stderr lib (''DBusServerTransport: failed to send reply'' @ [CHR 0x0A])
              (message_unref lib reply w4))
            else (ResultHandled, message_unref lib reply (connection_flush lib conn w4)))"

lemma HandleMessage_parts:
  "HandleMessage lib conn (Some m) (Some sv) w =
     (if \<not> is_method_call lib m (addr_interface (server_address sv)) (addr_method (server_address sv)) w
      then Some (ResultNotYetHandled, w)
      else do {
        (handled, w1) \<leftarrow> (case (call_payload lib m w, server_handler sv) of
           (Some (payload, n), Some h) \<Rightarrow> h payload n w
         | _ \<Rightarrow> Some (False, w));
        Some (reply_to lib conn m handled w1)
      })"
proof -
  have "(case new_method_return lib m w1 of
           (None, w2) \<Rightarrow> Some (ResultNeedMemory,
             print_stderr lib (''DBusServerTransport: failed to allocate reply'' @ [CHR 0x0A]) w2)
         | (Some reply, w2) \<Rightarrow>
             let (appended, w3) = append_boolean lib reply handled w2 in
             if \<not> appended
             then Some (ResultNeedMemory, print_stderr lib (''DBusServerTransport: failed to append reply data'' @ [CHR 0x0A])
               (message_unref lib reply w3))
             else
               let (sent, w4) = connection_send lib conn reply w3 in
               if \<not> sent
               then Some (ResultNeedMemory, print_stderr lib (''DBusServerTransport: failed to send reply'' @ [CHR 0x0A])
                 (message_unref lib reply w4))
               else Some (ResultHandled, message_unref lib reply (connection_flush lib conn w4)))
       = Some (reply_to lib conn m handled w1)" for handled w1
    by (simp add: reply_to_def Let_def case_prod_unfold split: option.split)
  then show ?thesis by (simp add: HandleMessage_def)
qed

lemma reply_to_tracked:
  assumes "m \<in># messages s" and "conn \<in># connections s"
  obtains s' where "reply_to (tracking lib) conn m handled s = (fst (reply_to lib conn m handled (base s)), s')"
    and "base s' = snd (reply_to lib conn m handled (base s))" and "same_refs s s'" and "calls s' = calls s"
    and "fst (reply_to lib conn m handled (base s)) \<noteq> ResultNotYetHandled"
    and "answers s' = answers s @
      (if fst (reply_to lib conn m handled (base s)) = ResultHandled then [Some handled] else [])"
proof
  let ?s' = "snd (reply_to (tracking lib) conn m handled s)"
  let ?r = "reply_to lib conn m handled (base s)"
  have "reply_to (tracking lib) conn m handled s = (fst ?r, ?s') \<and> base ?s' = snd ?r \<and> same_refs s ?s' \<and>
      calls ?s' = calls s \<and> fst ?r \<noteq> ResultNotYetHandled \<and>
      answers ?s' = answers s @ (if fst ?r = ResultHandled then [Some handled] else [])"
    using assms
    by (cases s; cases "fst (new_method_return lib m (base s))")
      (simp_all add: reply_to_def tracking_defs same_refs_def Let_def case_prod_unfold)
  then show "reply_to (tracking lib) conn m handled s = (fst ?r, ?s')" "base ?s' = snd ?r" "same_refs s ?s'"
    "calls ?s' = calls s" "fst ?r \<noteq> ResultNotYetHandled"
    "answers ?s' = answers s @ (if fst ?r = ResultHandled then [Some handled] else [])" by blast+
qed

text \<open>
  C28. The handler is called exactly once for a matching call with a payload, with the payload's bytes
  and length, and never otherwise; a message that is not such a call is passed on untouched. If the
  result is that the message is handled, exactly one reply has been sent and it carries what the
  handler said (false if there was nothing to give it); else no reply has been sent, although the
  handler has run. All references are given back in every case.
\<close>

theorem HandleMessage_answers_once:
  "case HandleMessage (tracking lib) conn (Some m) (Some (lift_server sv)) (holding conn m s) of
     None \<Rightarrow> HandleMessage lib conn (Some m) (Some sv) (base s) = None
   | Some (r, s') \<Rightarrow>
       HandleMessage lib conn (Some m) (Some sv) (base s) = Some (r, base s') \<and>
       same_refs (holding conn m s) s' \<and>
       (if is_method_call lib m (addr_interface (server_address sv)) (addr_method (server_address sv)) (base s)
        then r \<noteq> ResultNotYetHandled \<and> calls s' = calls s @ due_calls lib sv m (base s) \<and>
          answers s' = answers s @ (if r = ResultHandled then [due_answer lib sv m (base s)] else [])
        else r = ResultNotYetHandled \<and> s' = holding conn m s)"
proof (cases "is_method_call lib m (addr_interface (server_address sv)) (addr_method (server_address sv)) (base s)")
  case False
  then show ?thesis
    by (simp add: HandleMessage_parts same_refs_def holding_def tracking_def)
next
  case True
  let ?w = "base s"
  let ?asked = "\<lambda>lib' hd w. (case (call_payload lib m ?w, hd) of (Some (p, n), Some h) \<Rightarrow> h p n w | _ \<Rightarrow> Some (False, w))"
  let ?s1 = "holding conn m s\<lparr>calls := calls s @ due_calls lib sv m ?w\<rparr>"
  have b [simp]: "base (holding conn m s) = ?w" by (simp add: holding_def)
  have call: "is_method_call (tracking lib) m i k (holding conn m s) = is_method_call lib m i k ?w" for i k
    by (simp add: tracking_def)
  show ?thesis
  proof (cases "?asked lib (server_handler sv) ?w")
    case None
    with True show ?thesis
      by (auto simp: HandleMessage_parts call lift_handler_def split: option.splits prod.splits)
  next
    case (Some a)
    obtain handled w1 where a: "a = (handled, w1)" by force
    have asked: "(case (call_payload lib m ?w, server_handler (lift_server sv)) of
        (Some (p, n), Some h) \<Rightarrow> h p n (holding conn m s) | _ \<Rightarrow> Some (False, holding conn m s)) =
      Some (handled, ?s1\<lparr>base := w1\<rparr>)"
      using Some a
      by (cases s) (auto simp: lift_handler_def due_calls_def holding_def split: option.splits prod.splits)
    have verdict: "due_answer lib sv m ?w = Some handled"
      using Some a by (auto simp: due_answer_def split: option.splits prod.splits)
    obtain s' where s': "reply_to (tracking lib) conn m handled (?s1\<lparr>base := w1\<rparr>) = (fst (reply_to lib conn m handled w1), s')"
      "base s' = snd (reply_to lib conn m handled w1)" "same_refs ?s1 s'" "calls s' = calls ?s1"
      "fst (reply_to lib conn m handled w1) \<noteq> ResultNotYetHandled"
      "answers s' = answers s @ (if fst (reply_to lib conn m handled w1) = ResultHandled then [Some handled] else [])"
      by (rule reply_to_tracked [of m "?s1\<lparr>base := w1\<rparr>" conn lib handled])
        (simp_all add: holding_def same_refs_def)
    show ?thesis
      using True Some a asked verdict s'
      by (simp add: HandleMessage_parts call same_refs_def)
  qed
qed

text \<open>
  C40. A server that is started and then destroyed releases the connection it got, whatever failed.
  A connection that the server already had when it was started is not released. If the start
  succeeded, nothing is misused; if it failed after the connection was there, the destructor removes
  an object path that this server never registered: another server's, if there is one on that
  connection, and otherwise none, which is a misuse of libdbus.
\<close>

theorem server_lifecycle:
  "let (ok, sv1, s1) = server_Start (tracking lib) h sv s;
       (sv2, s2) = close_server (tracking lib) sv1 s1 in
   server_connection sv2 = None \<and> connections s2 = connections s \<and> messages s2 = messages s \<and>
   (case server_connection sv1 of
      None \<Rightarrow> \<not> ok \<and> sv2 = sv1 \<and> paths s2 = paths s \<and> sound s2 = sound s
    | Some c \<Rightarrow>
        if ok then paths s2 = paths s \<and> sound s2 = sound s
        else paths s2 = paths s - {#(c, addr_object_path (server_address sv))#} \<and>
          sound s2 = (sound s \<and> (c, addr_object_path (server_address sv)) \<in># paths s))"
proof (cases "fst (bus_get lib (base s))")
  case (Inr e)
  then show ?thesis
    by (cases s) (simp add: server_Start_def close_server_def tracking_defs case_prod_unfold LogAndClearError_def)
next
  case (Inl c)
  let ?w = "set_exit_on_disconnect lib c False (snd (bus_get lib (base s)))"
  let ?asked = "request_name lib c (addr_service (server_address sv)) ?w"
  show ?thesis
  proof (cases "fst ?asked")
    case (Inr e)
    with Inl show ?thesis
      by (cases s) (simp add: server_Start_def close_server_def tracking_defs case_prod_unfold LogAndClearError_def Let_def)
  next
    case reply: (Inl reply)
    with Inl show ?thesis
      by (cases s) (auto simp: server_Start_def close_server_def tracking_defs case_prod_unfold LogAndClearError_def Let_def)
  qed
qed

text \<open>
  A server's loop returns exactly when its predicate turns false after some number of passes that
  all return (each pass waits for input and drains the queue), with the world the predicate leaves;
  without a connection it returns at once. \<open>RunForever\<close> never returns once there is a connection.
\<close>

theorem RunWhile_returns:
  "(RunWhile lib q sv keep w = Some w' \<longleftrightarrow>
     (case server_connection sv of
        None \<Rightarrow> w' = w
      | Some c \<Rightarrow> \<exists>n v. after_passes q (\<lambda>m. HandleMessage lib c (Some m) (Some sv)) c keep n w = Some v \<and>
          keeps_running keep v = (False, w'))) \<and>
   RunForever lib q sv w = (if server_connection sv = None then Some w else None)"
proof -
  have "run_loop q h c None w = None" for h c
    by (cases "run_loop q h c None w") (simp_all add: run_loop_returns keeps_running_def)
  then show ?thesis
    by (cases "server_connection sv") (auto simp: RunWhile_def RunForever_def run_loop_returns)
qed

end
