(* ===== verification/Dbus_Sender.thy ===== *)
theory Dbus_Sender
  imports Dbus_Transport Midi_Endpoint Pwm_Endpoint "HOL-Library.Sublist"
begin

section \<open>The sender of the D-Bus example (examples/dbus_sender/main.cpp)\<close>

text \<open>
  The program opens a D-Bus client, gives its write callback to a MIDI and a PWM endpoint, and
  sends nine messages with pauses in between; the first one that is not sent ends it with exit code
  1. Clock, sleep and the two output streams are the operating system's: the record \<open>posix\<close> is a
  parameter. \<open>main\<close> passes the endpoints' constructors a second argument that they no longer
  take; the model leaves it out.
\<close>

record 'w posix =
  clock_gettime :: "'w \<Rightarrow> (int \<times> int) option \<times> 'w"
  nanosleep :: "int \<Rightarrow> int \<Rightarrow> 'w \<Rightarrow> 'w"
  print_stdout :: "string \<Rightarrow> 'w \<Rightarrow> 'w"
  print_error :: "string \<Rightarrow> 'w \<Rightarrow> 'w"

definition kAddress :: DBusAddress where
  "kAddress = \<lparr>addr_service = ''org.midi2pwm.libcomm'', addr_object_path = ''/org/midi2pwm/libcomm/Endpoint'',
     addr_interface = ''org.midi2pwm.libcomm.Endpoint'', addr_method = ''SendEnvelope''\<rparr>"

text \<open>Milliseconds of a clock in seconds and nanoseconds, in 64 bits; 0 if there is no clock.\<close>

definition TimestampNow :: "'w posix \<Rightarrow> 'w \<Rightarrow> u64 \<times> 'w" where
  "TimestampNow env w =
     (case clock_gettime env w of
        (None, w1) \<Rightarrow> (0, w1)
      | (Some (tv_sec, tv_nsec), w1) \<Rightarrow>
          let seconds = of_int tv_sec; nanos = of_int tv_nsec in
          (seconds * 1000 + nanos div 1000000, w1))"

definition SleepMilliseconds :: "'w posix \<Rightarrow> u32 \<Rightarrow> 'w \<Rightarrow> 'w" where
  "SleepMilliseconds env milliseconds w =
     nanosleep env (uint (milliseconds div 1000)) (uint (milliseconds mod 1000) * 1000000) w"

subsection \<open>The steps of \<open>main\<close>\<close>

record 'w sender =
  sender_midi :: "'w midi_endpoint"
  sender_pwm :: "'w pwm_endpoint"
  sender_tx :: transmit_state
  sender_world :: 'w

text \<open>
  A step ends the program with an exit code (\<open>Inl\<close>) or goes on (\<open>Inr\<close>). \<open>None\<close> is an access
  outside an array.
\<close>

type_synonym 'w sender_step = "'w sender \<Rightarrow> (nat \<times> 'w sender + 'w sender) option"

primrec run_steps :: "'w sender_step list \<Rightarrow> 'w sender_step" where
  "run_steps [] st = Some (Inr st)"
| "run_steps (step # steps) st = do {
     r \<leftarrow> step st;
     (case r of Inl x \<Rightarrow> Some (Inl x) | Inr st' \<Rightarrow> run_steps steps st')
   }"

text \<open>\<open>if (!endpoint.Send(...)) { fprintf(stderr, ...); return 1; } printf(...)\<close>\<close>

definition checked_send :: "'w posix \<Rightarrow> string \<Rightarrow> string \<Rightarrow> bool \<Rightarrow> 'w sender_step" where
  "checked_send env failing sending ok st =
     (if \<not> ok
      then Some (Inl (1, st\<lparr>sender_world := print_error env (''[sender] Failed to send '' @ failing @ ''.'' @ [CHR 0x0A]) (sender_world st)\<rparr>))
      else Some (Inr (st\<lparr>sender_world := print_stdout env (''[sender] '' @ sending @ '' sent.'' @ [CHR 0x0A]) (sender_world st)\<rparr>)))"

definition midi_step :: "'w posix \<Rightarrow> string \<Rightarrow> string \<Rightarrow> detached_buffer \<Rightarrow> 'w sender_step" where
  "midi_step env failing sending buf st = do {
     (ok, ep, tx, w) \<leftarrow> MidiEndpoint_Send (sender_midi st) buf (sender_tx st) (sender_world st);
     checked_send env failing sending ok (st\<lparr>sender_midi := ep, sender_tx := tx, sender_world := w\<rparr>)
   }"

definition pwm_step :: "'w posix \<Rightarrow> string \<Rightarrow> string \<Rightarrow> detached_buffer \<Rightarrow> 'w sender_step" where
  "pwm_step env failing sending buf st = do {
     (ok, ep, tx, w) \<leftarrow> PwmEndpoint_Send (sender_pwm st) buf (sender_tx st) (sender_world st);
     checked_send env failing sending ok (st\<lparr>sender_pwm := ep, sender_tx := tx, sender_world := w\<rparr>)
   }"

definition sleep_step :: "'w posix \<Rightarrow> u32 \<Rightarrow> 'w sender_step" where
  "sleep_step env ms st = Some (Inr (st\<lparr>sender_world := SleepMilliseconds env ms (sender_world st)\<rparr>))"

definition ping_step :: "'w posix \<Rightarrow> midi_packet codec \<Rightarrow> 'w sender_step" where
  "ping_step env mc st =
     (let (now, w) = TimestampNow env (sender_world st) in
      midi_step env ''Ping message'' ''Ping message'' (BuildPingMessage mc 1 now) (st\<lparr>sender_world := w\<rparr>))"

definition system_exclusive_step :: "'w posix \<Rightarrow> midi_packet codec \<Rightarrow> 'w sender_step" where
  "system_exclusive_step env mc st =
     (let manufacturer = [0x00, 0x20, 0x33]; sysex_payload = [0x7D, 0x01, 0x02, 0x03] in do {
        sysex \<leftarrow> BuildSystemExclusiveMessage mc (Some manufacturer) (length manufacturer) (Some sysex_payload) (length sysex_payload);
        midi_step env ''SysEx message'' ''SystemExclusive message'' sysex st
      })"

text \<open>The fields \<open>main\<close> does not set have the defaults of the schema; \<open>12.3F\<close> is \<open>0x4144CCCD\<close>.\<close>

definition telemetry_ch :: ChannelTelemetry where
  "telemetry_ch =
     \<lparr>telemetry_channel_number = 0, telemetry_configuration = FullBridge, telemetry_status = Active, telemetry_note = 60,
      voltage = 0x4144CCCD, current = 0x3FA00000, duty_cycle = 0, telemetry_polarity = Forward, had_fault = False,
      telemetry_output_mode = Instant, telemetry_mode_params = Mode_NONE, telemetry_note_b = 255,
      status_a = Inactive, status_b = Inactive\<rparr>"

definition telemetry_step :: "'w posix \<Rightarrow> pwm_message codec \<Rightarrow> 'w sender_step" where
  "telemetry_step env pc st = do {
     pwm_telemetry \<leftarrow> BuildBatchTelemetryMessage pc [telemetry_ch] 1 0;
     pwm_step env ''PWM telemetry message'' ''PWM telemetry message'' pwm_telemetry st
   }"

definition fault_log_step :: "'w posix \<Rightarrow> pwm_message codec \<Rightarrow> 'w sender_step" where
  "fault_log_step env pc st =
     (let (t1, w1) = TimestampNow env (sender_world st);
          (t2, w2) = TimestampNow env w1;
          fault_entries =
            [\<lparr>entry_timestamp_ms = ucast (t1 AND 0xFFFFFFFF), entry_fault = OverCurrent\<rparr>,
             \<lparr>entry_timestamp_ms = ucast ((t2 + 42) AND 0xFFFFFFFF), entry_fault = Thermal\<rparr>] in do {
        pwm_fault_log \<leftarrow> BuildFaultLogMessage pc 2 (Some fault_entries) 2;
        pwm_step env ''PWM fault log message'' ''PWM fault log message'' pwm_fault_log (st\<lparr>sender_world := w2\<rparr>)
      })"

definition sender_script :: "'w posix \<Rightarrow> midi_packet codec \<Rightarrow> pwm_message codec \<Rightarrow> 'w sender_step list" where
  "sender_script env mc pc =
     [ping_step env mc,
      sleep_step env 250,
      midi_step env ''NoteOn message'' ''NoteOn message'' (BuildNoteOnMessage mc 0 60 110),
      sleep_step env 50,
      midi_step env ''ControlChange message'' ''ControlChange message'' (BuildControlChangeMessage mc 0 74 100),
      sleep_step env 50,
      midi_step env ''SystemRealTime message'' ''SystemRealTime message'' (BuildSystemRealTimeMessage mc TimingClock),
      system_exclusive_step env mc,
      sleep_step env 50,
      pwm_step env ''PWM ChannelConfig message'' ''PWM ChannelConfig message''
        (BuildChannelConfigMessage pc 0 FullBridge 60 0x3F000000 0 0x3F800000),
      sleep_step env 50,
      telemetry_step env pc,
      sleep_step env 50,
      fault_log_step env pc,
      sleep_step env 50,
      pwm_step env ''PWM fault control command'' ''PWM fault control command'' (BuildFaultControlCommand pc Reset 0)]"

text \<open>From the construction of the endpoints on, with the callback they are given.\<close>

definition send_all ::
  "'w posix \<Rightarrow> midi_packet codec \<Rightarrow> pwm_message codec \<Rightarrow> 'w write_callback \<Rightarrow> transmit_state \<Rightarrow> 'w \<Rightarrow> (nat \<times> 'w sender) option" where
  "send_all env mc pc write tx w = do {
     r \<leftarrow> run_steps (sender_script env mc pc)
       \<lparr>sender_midi = MidiEndpoint (Some write), sender_pwm = PwmEndpoint (Some write), sender_tx = tx, sender_world = w\<rparr>;
     Some (case r of Inl x \<Rightarrow> x | Inr st \<Rightarrow> (0, st))
   }"

text \<open>The client's destructor runs on every return.\<close>

definition sender_main ::
  "('c, 'm, 'i, 'w) libdbus \<Rightarrow> 'w posix \<Rightarrow> midi_packet codec \<Rightarrow> pwm_message codec \<Rightarrow> transmit_state \<Rightarrow> 'w \<Rightarrow> (nat \<times> 'w) option" where
  "sender_main lib env mc pc tx w =
     (let (client, w1) = open_client lib kAddress w in
      if \<not> client_Valid client
      then Some (1, snd (close_client lib client
        (print_error env (''[sender] Failed to initialise D-Bus client transport.'' @ [CHR 0x0A]) w1)))
      else do {
        (code, st) \<leftarrow> send_all env mc pc (MakeWriteCallback lib client) tx w1;
        Some (code, snd (close_client lib client (sender_world st)))
      })"

subsection \<open>What goes out\<close>

text \<open>The messages, as a function of the three times the clock is read.\<close>

definition sender_midi_messages :: "u64 \<Rightarrow> midi_packet list" where
  "sender_midi_messages t0 =
     [Packet_Ping (Some \<lparr>ping_sequence = 1, ping_timestamp = t0\<rparr>),
      Packet_ChannelMessage (Some \<lparr>channel = 0, channel_message_type = NoteOn, data1 = 60, data2 = 110\<rparr>),
      Packet_ChannelMessage (Some \<lparr>channel = 0, channel_message_type = ControlChange, data1 = 74, data2 = 100\<rparr>),
      Packet_SystemRealTimeMessage (Some \<lparr>real_time_message_type = TimingClock\<rparr>),
      Packet_SystemExclusiveMessage (Some \<lparr>manufacturer_id = Some [0x00, 0x20, 0x33], sysex_payload = Some [0x7D, 1, 2, 3]\<rparr>)]"

definition sender_pwm_messages :: "u64 \<Rightarrow> u64 \<Rightarrow> pwm_message list" where
  "sender_pwm_messages t1 t2 =
     [Message_ChannelConfig (Some
        \<lparr>config_channel_number = 0, config_configuration = FullBridge, config_note = 60, midpoint = 0x3F000000,
         min_point = 0, max_point = 0x3F800000, config_output_mode = Instant, config_mode_params = Mode_NONE,
         config_polarity = Forward, release_action = ActiveBrake, config_note_b = 255\<rparr>),
      Message_BatchTelemetry (Some \<lparr>telemetry_channels = Some [telemetry_ch], input_voltage = 0\<rparr>),
      Message_FaultLog (Some \<lparr>log_size = 2, entries = Some
        [\<lparr>timestamp_ms = ucast t1, fault = OverCurrent\<rparr>, \<lparr>timestamp_ms = ucast (t2 + 42), fault = Thermal\<rparr>]\<rparr>),
      Message_FaultControlCommand (Some \<lparr>operation = Reset, fault_channel_number = 0\<rparr>)]"

text \<open>Each endpoint numbers its frames from 1.\<close>

definition numbered_frames :: "'env codec \<Rightarrow> 'env list \<Rightarrow> u8 list list" where
  "numbered_frames codec ms = map2 (\<lambda>k m. data_frame (of_nat k) (FinishBuffer codec m)) [1..<length ms + 1] ms"

definition sender_frames :: "midi_packet codec \<Rightarrow> pwm_message codec \<Rightarrow> u64 \<Rightarrow> u64 \<Rightarrow> u64 \<Rightarrow> u8 list list" where
  "sender_frames mc pc t0 t1 t2 =
     numbered_frames mc (sender_midi_messages t0) @ numbered_frames pc (sender_pwm_messages t1 t2)"

subsection \<open>Running the script over any link\<close>

text \<open>
  What is known of the world while the program runs: \<open>I sent\<close> after the frames \<open>sent\<close> have all been
  taken by the callback, \<open>R sent fr\<close> once the frame \<open>fr\<close> after them has been refused.
\<close>

locale sender_link =
  fixes env :: "'w posix" and wr :: "'w write_callback"
    and I :: "u8 list list \<Rightarrow> 'w \<Rightarrow> bool" and R :: "u8 list list \<Rightarrow> u8 list \<Rightarrow> 'w \<Rightarrow> bool"
  assumes frame_taken: "I sent w \<Longrightarrow> fr \<noteq> [] \<Longrightarrow> length fr \<le> MAXIMUM_TOTAL_BUFFER_SIZE_BYTES \<Longrightarrow> wr fr w = (True, w') \<Longrightarrow> I (sent @ [fr]) w'"
    and frame_refused: "I sent w \<Longrightarrow> fr \<noteq> [] \<Longrightarrow> length fr \<le> MAXIMUM_TOTAL_BUFFER_SIZE_BYTES \<Longrightarrow> wr fr w = (False, w') \<Longrightarrow> R sent fr w'"
    and clock_keeps: "I sent w \<Longrightarrow> I sent (snd (clock_gettime env w))"
    and sleep_keeps: "I sent w \<Longrightarrow> I sent (nanosleep env secs nanos w)"
    and stdout_keeps: "I sent w \<Longrightarrow> I sent (print_stdout env line w)"
    and error_keeps: "R sent fr w \<Longrightarrow> R sent fr (print_error env line w)"

text \<open>
  The state after the frames \<open>sent\<close> have all been taken; and how a program that stops there ends,
  because the next one was refused.
\<close>

definition all_taken ::
  "'w write_callback \<Rightarrow> (u8 list list \<Rightarrow> 'w \<Rightarrow> bool) \<Rightarrow> u8 list list \<Rightarrow> u16 \<Rightarrow> u16 \<Rightarrow> 'w sender \<Rightarrow> bool" where
  "all_taken write I sent m p st \<longleftrightarrow>
     I sent (sender_world st) \<and> transmit_ok (sender_tx st) \<and>
     ft_write (midi_transport (sender_midi st)) = Some write \<and> ft_next_sequence (midi_transport (sender_midi st)) = m \<and>
     ft_write (pwm_transport (sender_pwm st)) = Some write \<and> ft_next_sequence (pwm_transport (sender_pwm st)) = p"

definition refused_after ::
  "(u8 list list \<Rightarrow> u8 list \<Rightarrow> 'w \<Rightarrow> bool) \<Rightarrow> u8 list list \<Rightarrow> u8 list \<Rightarrow> nat \<times> 'w sender \<Rightarrow> bool" where
  "refused_after R sent fr x \<longleftrightarrow> fst x = 1 \<and> R sent fr (sender_world (snd x))"

text \<open>
  How the program may end, and that it ends so from every state in which \<open>sent\<close> has been taken, with
  the steps that are left.
\<close>

definition ends_well ::
  "midi_packet codec \<Rightarrow> pwm_message codec \<Rightarrow> u64 set \<Rightarrow> (u8 list list \<Rightarrow> 'w \<Rightarrow> bool) \<Rightarrow> (u8 list list \<Rightarrow> u8 list \<Rightarrow> 'w \<Rightarrow> bool)
     \<Rightarrow> nat \<times> 'w sender + 'w sender \<Rightarrow> bool" where
  "ends_well mc pc T I R r \<longleftrightarrow>
     (case r of
        Inr st \<Rightarrow> \<exists>t0 \<in> T. \<exists>t1 \<in> T. \<exists>t2 \<in> T. I (sender_frames mc pc t0 t1 t2) (sender_world st)
      | Inl x \<Rightarrow> \<exists>t0 \<in> T. \<exists>t1 \<in> T. \<exists>t2 \<in> T. \<exists>sent fr rest.
          sent @ fr # rest = sender_frames mc pc t0 t1 t2 \<and> refused_after R sent fr x)"

definition finishes ::
  "midi_packet codec \<Rightarrow> pwm_message codec \<Rightarrow> u64 set \<Rightarrow> 'w write_callback \<Rightarrow> (u8 list list \<Rightarrow> 'w \<Rightarrow> bool)
     \<Rightarrow> (u8 list list \<Rightarrow> u8 list \<Rightarrow> 'w \<Rightarrow> bool) \<Rightarrow> u8 list list \<Rightarrow> u16 \<Rightarrow> u16 \<Rightarrow> 'w sender_step list \<Rightarrow> bool" where
  "finishes mc pc T write I R sent m p steps \<longleftrightarrow>
     (\<forall>st. all_taken write I sent m p st \<longrightarrow> (\<exists>r. run_steps steps st = Some r \<and> ends_well mc pc T I R r))"

lemma finishesD: "finishes mc pc T write I R sent m p steps \<Longrightarrow> all_taken write I sent m p st \<Longrightarrow>
    \<exists>r. run_steps steps st = Some r \<and> ends_well mc pc T I R r"
  by (simp add: finishes_def)

lemma finishes_end: "sent = sender_frames mc pc t0 t1 t2 \<Longrightarrow> {t0, t1, t2} \<subseteq> T \<Longrightarrow> finishes mc pc T write I R sent m p []"
  by (auto simp: finishes_def ends_well_def all_taken_def)

lemma ends_well_refused:
  assumes "prefix (sent @ [fr]) (sender_frames mc pc t0 t1 t2)" and "{t0, t1, t2} \<subseteq> T" and "refused_after R sent fr x"
  shows "ends_well mc pc T I R (Inl x)"
proof -
  from assms(1) obtain rest where "sent @ fr # rest = sender_frames mc pc t0 t1 t2"
    by (auto simp: prefix_def)
  with assms(2,3) show ?thesis by (simp add: ends_well_def) blast
qed

lemma next_sequence_plus: "ft_next_sequence ft + 1 \<noteq> 0 \<Longrightarrow>
    ft_next_sequence (snd (NextSequence ft)) = ft_next_sequence ft + 1"
  by (simp add: NextSequence_def Let_def)

text \<open>The times the clock may show.\<close>

definition clock_times :: "'w posix \<Rightarrow> u64 set" where
  "clock_times env = range (\<lambda>w. fst (TimestampNow env w))"

lemma TimestampNow_world: "snd (TimestampNow env w) = snd (clock_gettime env w)"
  by (simp add: TimestampNow_def Let_def split: prod.split option.split)

lemma fault_entries:
  fixes t1 t2 :: u64
  shows "map CreateFaultLogEntry
     [\<lparr>entry_timestamp_ms = ucast (t1 AND 0xFFFFFFFF), entry_fault = OverCurrent\<rparr>,
      \<lparr>entry_timestamp_ms = ucast ((t2 + 42) AND 0xFFFFFFFF), entry_fault = Thermal\<rparr>]
   = [\<lparr>timestamp_ms = ucast t1, fault = OverCurrent\<rparr>, \<lparr>timestamp_ms = ucast (t2 + 42), fault = Thermal\<rparr>]"
proof -
  have "ucast (ucast (ucast (t AND 0xFFFFFFFF :: u64) :: u32) :: u64) = (ucast t :: u32)" for t :: u64
  proof -
    have "t AND 0xFFFFFFFF = take_bit 32 t" by (simp add: take_bit_eq_mask mask_eq_exp_minus_1)
    then show ?thesis by (simp add: bit_eq_iff bit_simps)
  qed
  then show ?thesis by (simp add: CreateFaultLogEntry_def Let_def)
qed

lemma system_exclusive_step_eq:
  "system_exclusive_step env mc = midi_step env ''SysEx message'' ''SystemExclusive message''
     (Some (FinishBuffer mc (Packet_SystemExclusiveMessage
       (Some \<lparr>manufacturer_id = Some [0x00, 0x20, 0x33], sysex_payload = Some [0x7D, 1, 2, 3]\<rparr>))))"
  by (simp add: fun_eq_iff system_exclusive_step_def BuildSystemExclusiveMessage_def optional_vector_def mem_simps)

lemma telemetry_step_eq:
  "telemetry_step env pc = pwm_step env ''PWM telemetry message'' ''PWM telemetry message''
     (Some (FinishBuffer pc (Message_BatchTelemetry (Some \<lparr>telemetry_channels = Some [telemetry_ch], input_voltage = 0\<rparr>))))"
  by (simp add: fun_eq_iff telemetry_step_def BuildBatchTelemetryMessage_def read_elements_def
      buildSerializedPwmMessageEnvelope_def)

lemmas sender_frames_defs = sender_frames_def numbered_frames_def sender_midi_messages_def sender_pwm_messages_def

text \<open>A step may send the next frame and go on, or end the program because that frame was refused.\<close>

context sender_link begin

lemma checked_taken:
  assumes "all_taken wr I sent m p st"
  shows "\<exists>st'. checked_send env a b True st = Some (Inr st') \<and> all_taken wr I sent m p st'"
  using assms stdout_keeps by (simp add: checked_send_def all_taken_def)

lemma checked_refused:
  assumes "R sent fr (sender_world st)"
  shows "\<exists>x. checked_send env a b False st = Some (Inl x) \<and> refused_after R sent fr x"
  using assms error_keeps by (simp add: checked_send_def refused_after_def)

lemma midi_step_outcome:
  assumes "all_taken wr I sent m p st" and "buf = Some (FinishBuffer mc msg)"
    and "length (FinishBuffer mc msg) \<le> kMaxFrameSize" and "m + 1 \<noteq> 0"
    and "fr = data_frame m (FinishBuffer mc msg)"
  obtains (taken) st' where "midi_step env a b buf st = Some (Inr st')" and "all_taken wr I (sent @ [fr]) (m + 1) p st'"
  | (refused) x where "midi_step env a b buf st = Some (Inl x)" and "refused_after R sent fr x"
proof -
  from assms(1) have st: "I sent (sender_world st)" "transmit_ok (sender_tx st)"
    "ft_write (midi_transport (sender_midi st)) = Some wr" "ft_next_sequence (midi_transport (sender_midi st)) = m"
    "ft_write (pwm_transport (sender_pwm st)) = Some wr" "ft_next_sequence (pwm_transport (sender_pwm st)) = p"
    by (simp_all add: all_taken_def)
  have fr: "length fr \<le> MAXIMUM_TOTAL_BUFFER_SIZE_BYTES" and ne: "fr \<noteq> []"
    using assms(3,5) by (auto simp: transmit_consts size_consts)
  have seq: "ft_next_sequence (snd (NextSequence (midi_transport (sender_midi st)))) = m + 1"
    using assms(4) st(4) by (simp add: next_sequence_plus)
  let ?st = "\<lambda>w'. st\<lparr>sender_midi := sender_midi st\<lparr>midi_transport := snd (NextSequence (midi_transport (sender_midi st)))\<rparr>,
      sender_tx := store_frame (sender_tx st) fr, sender_world := w'\<rparr>"
  have "MidiEndpoint_Send (sender_midi st) buf (sender_tx st) (sender_world st) =
      (case wr fr (sender_world st) of (ok, w') \<Rightarrow>
        Some (ok, sender_midi st\<lparr>midi_transport := snd (NextSequence (midi_transport (sender_midi st)))\<rparr>, store_frame (sender_tx st) fr, w'))"
    unfolding assms(2) by (rule midi.send_finished [OF assms(3) st(2,3)]) (simp add: assms(5) st(4))
  moreover obtain ok w' where w': "wr fr (sender_world st) = (ok, w')" by force
  ultimately have step: "midi_step env a b buf st = checked_send env a b ok (?st w')" by (simp add: midi_step_def)
  show thesis
  proof (cases ok)
    case True
    with w' seq st store_frame_ok [OF st(2) fr] frame_taken [OF st(1) ne fr]
    have "all_taken wr I (sent @ [fr]) (m + 1) p (?st w')" by (simp add: all_taken_def)
    from checked_taken [OF this] step True taken show thesis by auto
  next
    case False
    with w' frame_refused [OF st(1) ne fr] have "R sent fr (sender_world (?st w'))" by simp
    from checked_refused [OF this] step False refused show thesis by auto
  qed
qed

lemma pwm_step_outcome:
  assumes "all_taken wr I sent m p st" and "buf = Some (FinishBuffer pc msg)"
    and "length (FinishBuffer pc msg) \<le> kMaxFrameSize" and "p + 1 \<noteq> 0"
    and "fr = data_frame p (FinishBuffer pc msg)"
  obtains (taken) st' where "pwm_step env a b buf st = Some (Inr st')" and "all_taken wr I (sent @ [fr]) m (p + 1) st'"
  | (refused) x where "pwm_step env a b buf st = Some (Inl x)" and "refused_after R sent fr x"
proof -
  from assms(1) have st: "I sent (sender_world st)" "transmit_ok (sender_tx st)"
    "ft_write (midi_transport (sender_midi st)) = Some wr" "ft_next_sequence (midi_transport (sender_midi st)) = m"
    "ft_write (pwm_transport (sender_pwm st)) = Some wr" "ft_next_sequence (pwm_transport (sender_pwm st)) = p"
    by (simp_all add: all_taken_def)
  have fr: "length fr \<le> MAXIMUM_TOTAL_BUFFER_SIZE_BYTES" and ne: "fr \<noteq> []"
    using assms(3,5) by (auto simp: transmit_consts size_consts)
  have seq: "ft_next_sequence (snd (NextSequence (pwm_transport (sender_pwm st)))) = p + 1"
    using assms(4) st(6) by (simp add: next_sequence_plus)
  let ?st = "\<lambda>w'. st\<lparr>sender_pwm := sender_pwm st\<lparr>pwm_transport := snd (NextSequence (pwm_transport (sender_pwm st)))\<rparr>,
      sender_tx := store_frame (sender_tx st) fr, sender_world := w'\<rparr>"
  have "PwmEndpoint_Send (sender_pwm st) buf (sender_tx st) (sender_world st) =
      (case wr fr (sender_world st) of (ok, w') \<Rightarrow>
        Some (ok, sender_pwm st\<lparr>pwm_transport := snd (NextSequence (pwm_transport (sender_pwm st)))\<rparr>, store_frame (sender_tx st) fr, w'))"
    unfolding assms(2) by (rule pwm.send_finished [OF assms(3) st(2,5)]) (simp add: assms(5) st(6))
  moreover obtain ok w' where w': "wr fr (sender_world st) = (ok, w')" by force
  ultimately have step: "pwm_step env a b buf st = checked_send env a b ok (?st w')" by (simp add: pwm_step_def)
  show thesis
  proof (cases ok)
    case True
    with w' seq st store_frame_ok [OF st(2) fr] frame_taken [OF st(1) ne fr]
    have "all_taken wr I (sent @ [fr]) m (p + 1) (?st w')" by (simp add: all_taken_def)
    from checked_taken [OF this] step True taken show thesis by auto
  next
    case False
    with w' frame_refused [OF st(1) ne fr] have "R sent fr (sender_world (?st w'))" by simp
    from checked_refused [OF this] step False refused show thesis by auto
  qed
qed

text \<open>A rule for each kind of step.\<close>

lemma finishes_sleep:
  assumes "finishes mc pc T wr I R sent m p steps"
  shows "finishes mc pc T wr I R sent m p (sleep_step env ms # steps)"
  using assms sleep_keeps by (auto simp: finishes_def sleep_step_def all_taken_def SleepMilliseconds_def)

lemma finishes_midi:
  assumes "finishes mc pc T wr I R (sent @ [data_frame m (FinishBuffer mc msg)]) (m + 1) p steps"
    and "buf = Some (FinishBuffer mc msg)" and "length (FinishBuffer mc msg) \<le> kMaxFrameSize" and "m + 1 \<noteq> 0"
    and "prefix (sent @ [data_frame m (FinishBuffer mc msg)]) (sender_frames mc pc t0 t1 t2)" and "{t0, t1, t2} \<subseteq> T"
  shows "finishes mc pc T wr I R sent m p (midi_step env a b buf # steps)"
  unfolding finishes_def
proof (intro allI impI)
  fix st
  assume st: "all_taken wr I sent m p st"
  show "\<exists>r. run_steps (midi_step env a b buf # steps) st = Some r \<and> ends_well mc pc T I R r"
  proof (cases rule: midi_step_outcome [OF st assms(2-4) refl, of a b])
    case (1 st')
    with finishesD [OF assms(1) 1(2)] show ?thesis by simp
  next
    case (2 x)
    then show ?thesis by (simp add: ends_well_refused [OF assms(5,6)])
  qed
qed

lemma finishes_pwm:
  assumes "finishes mc pc T wr I R (sent @ [data_frame p (FinishBuffer pc msg)]) m (p + 1) steps"
    and "buf = Some (FinishBuffer pc msg)" and "length (FinishBuffer pc msg) \<le> kMaxFrameSize" and "p + 1 \<noteq> 0"
    and "prefix (sent @ [data_frame p (FinishBuffer pc msg)]) (sender_frames mc pc t0 t1 t2)" and "{t0, t1, t2} \<subseteq> T"
  shows "finishes mc pc T wr I R sent m p (pwm_step env a b buf # steps)"
  unfolding finishes_def
proof (intro allI impI)
  fix st
  assume st: "all_taken wr I sent m p st"
  show "\<exists>r. run_steps (pwm_step env a b buf # steps) st = Some r \<and> ends_well mc pc T I R r"
  proof (cases rule: pwm_step_outcome [OF st assms(2-4) refl, of a b])
    case (1 st')
    with finishesD [OF assms(1) 1(2)] show ?thesis by simp
  next
    case (2 x)
    then show ?thesis by (simp add: ends_well_refused [OF assms(5,6)])
  qed
qed

text \<open>The clock is read before a step.\<close>

lemma clock_read:
  assumes "all_taken wr I sent m p st"
  obtains t w where "TimestampNow env (sender_world st) = (t, w)" and "t \<in> clock_times env" and "all_taken wr I sent m p (st\<lparr>sender_world := w\<rparr>)"
proof -
  obtain t w where t: "TimestampNow env (sender_world st) = (t, w)" by force
  with assms clock_keeps [of sent "sender_world st"] TimestampNow_world [of env "sender_world st"]
  have "all_taken wr I sent m p (st\<lparr>sender_world := w\<rparr>)" by (simp add: all_taken_def)
  moreover have "t \<in> clock_times env" using t unfolding clock_times_def by (metis fst_conv rangeI)
  ultimately show thesis using t that by blast
qed

lemma finishes_ping:
  assumes "\<And>t. t \<in> clock_times env \<Longrightarrow> finishes mc pc T wr I R sent m p (midi_step env ''Ping message'' ''Ping message'' (BuildPingMessage mc 1 t) # steps)"
  shows "finishes mc pc T wr I R sent m p (ping_step env mc # steps)"
  unfolding finishes_def
proof (intro allI impI)
  fix st
  assume "all_taken wr I sent m p st"
  then obtain t w where t: "TimestampNow env (sender_world st) = (t, w)" "t \<in> clock_times env" "all_taken wr I sent m p (st\<lparr>sender_world := w\<rparr>)"
    by (rule clock_read)
  from finishesD [OF assms [OF t(2)] t(3)] t(1)
  show "\<exists>r. run_steps (ping_step env mc # steps) st = Some r \<and> ends_well mc pc T I R r"
    by (simp add: ping_step_def)
qed

lemma finishes_fault_log:
  assumes "\<And>(t1 :: u64) (t2 :: u64). t1 \<in> clock_times env \<Longrightarrow> t2 \<in> clock_times env \<Longrightarrow> finishes mc pc T wr I R sent m p
      (pwm_step env ''PWM fault log message'' ''PWM fault log message''
        (Some (FinishBuffer pc (Message_FaultLog (Some \<lparr>log_size = 2, entries = Some
          [\<lparr>timestamp_ms = ucast t1, fault = OverCurrent\<rparr>, \<lparr>timestamp_ms = ucast (t2 + 42), fault = Thermal\<rparr>]\<rparr>)))) # steps)"
  shows "finishes mc pc T wr I R sent m p (fault_log_step env pc # steps)"
  unfolding finishes_def
proof (intro allI impI)
  fix st
  assume st: "all_taken wr I sent m p st"
  then obtain t1 w1 where t1: "TimestampNow env (sender_world st) = (t1, w1)" and in1: "t1 \<in> clock_times env"
    and st1: "all_taken wr I sent m p (st\<lparr>sender_world := w1\<rparr>)" by (rule clock_read)
  from st1 obtain t2 w2 where t2: "TimestampNow env w1 = (t2, w2)" and in2: "t2 \<in> clock_times env"
    and st2: "all_taken wr I sent m p (st\<lparr>sender_world := w2\<rparr>)"
    by (rule clock_read) auto
  let ?es = "[\<lparr>entry_timestamp_ms = ucast (t1 AND 0xFFFFFFFF), entry_fault = OverCurrent\<rparr>,
      \<lparr>entry_timestamp_ms = ucast ((t2 + 42) AND 0xFFFFFFFF), entry_fault = Thermal\<rparr>]"
  have "BuildFaultLogMessage pc 2 (Some ?es) 2 = Some (Some (FinishBuffer pc (Message_FaultLog (Some \<lparr>log_size = 2, entries = Some
      [\<lparr>timestamp_ms = ucast t1, fault = OverCurrent\<rparr>, \<lparr>timestamp_ms = ucast (t2 + 42), fault = Thermal\<rparr>]\<rparr>))))"
    unfolding BuildFaultLogMessage_def
    by (simp add: read_elements_def MAXIMUM_FAULT_LOG_ENTRIES_PER_MESSAGE_def buildSerializedPwmMessageEnvelope_def
        fault_entries [simplified])
  then show "\<exists>r. run_steps (fault_log_step env pc # steps) st = Some r \<and> ends_well mc pc T I R r"
    using finishesD [OF assms [OF in1 in2] st2] t1 t2 by (simp add: fault_log_step_def)
qed

lemma script_finishes:
  assumes "\<And>t. t \<in> clock_times env \<Longrightarrow> list_all (\<lambda>m. length (FinishBuffer mc m) \<le> kMaxFrameSize) (sender_midi_messages t)"
    and "\<And>t1 t2. t1 \<in> clock_times env \<Longrightarrow> t2 \<in> clock_times env \<Longrightarrow>
      list_all (\<lambda>m. length (FinishBuffer pc m) \<le> kMaxFrameSize) (sender_pwm_messages t1 t2)"
  shows "finishes mc pc (clock_times env) wr I R [] 1 1 (sender_script env mc pc)"
proof -
  let ?T = "clock_times env"
  have last: "finishes mc pc ?T wr I R (take 7 (sender_frames mc pc t0 t1 t2)) 6 3
      [pwm_step env a b (Some (FinishBuffer pc (sender_pwm_messages t1 t2 ! 2))), sleep_step env c,
       pwm_step env d e (Some (FinishBuffer pc (sender_pwm_messages t1 t2 ! 3)))]"
    if t: "t0 \<in> ?T" "t1 \<in> ?T" "t2 \<in> ?T" for t0 t1 t2 a b c d e
  proof -
    note fits = assms(2) [OF t(2,3), unfolded sender_pwm_messages_def, simplified]
    show ?thesis
      by (rule finishes_pwm [where ?t0.0 = t0 and ?t1.0 = t1 and ?t2.0 = t2], rule finishes_sleep,
          rule finishes_pwm [where ?t0.0 = t0 and ?t1.0 = t1 and ?t2.0 = t2],
          rule finishes_end [where ?t0.0 = t0 and ?t1.0 = t1 and ?t2.0 = t2])
        (simp_all add: sender_frames_defs fits t)
  qed
  have first: "finishes mc pc ?T wr I R [] 1 1 (midi_step env ''Ping message'' ''Ping message'' (BuildPingMessage mc 1 t0) #
      tl (sender_script env mc pc))" if t: "t0 \<in> ?T" for t0
  proof -
    note fits = assms(1) [OF t, unfolded sender_midi_messages_def, simplified]
      assms(2) [OF t t, unfolded sender_pwm_messages_def, simplified]
    show ?thesis
      unfolding sender_script_def list.sel system_exclusive_step_eq telemetry_step_eq
      apply (rule finishes_midi [where ?t0.0 = t0 and ?t1.0 = t0 and ?t2.0 = t0], rule finishes_sleep)
      apply (rule finishes_midi [where ?t0.0 = t0 and ?t1.0 = t0 and ?t2.0 = t0], rule finishes_sleep)
      apply (rule finishes_midi [where ?t0.0 = t0 and ?t1.0 = t0 and ?t2.0 = t0], rule finishes_sleep)
      apply (rule finishes_midi [where ?t0.0 = t0 and ?t1.0 = t0 and ?t2.0 = t0])
      apply (rule finishes_midi [where ?t0.0 = t0 and ?t1.0 = t0 and ?t2.0 = t0], rule finishes_sleep)
      apply (rule finishes_pwm [where ?t0.0 = t0 and ?t1.0 = t0 and ?t2.0 = t0], rule finishes_sleep)
      apply (rule finishes_pwm [where ?t0.0 = t0 and ?t1.0 = t0 and ?t2.0 = t0], rule finishes_sleep)
      apply (rule finishes_fault_log)
      apply (insert last [OF t])
      apply (simp add: sender_frames_defs BuildFaultControlCommand_def buildSerializedPwmMessageEnvelope_def)
      apply (simp_all add: sender_frames_defs fits t midi_builders pwm_builders)
      done
  qed
  show ?thesis
    unfolding sender_script_def
    by (rule finishes_ping) (rule first [unfolded sender_script_def list.sel])
qed

end

subsection \<open>A callback that notes its frames\<close>

text \<open>Every frame and its answer, in a world that keeps the notes.\<close>

type_synonym 'w noted = "'w \<times> (u8 list \<times> bool) list"

definition noting :: "'w write_callback \<Rightarrow> 'w noted write_callback" where
  "noting write fr s = (case write fr (fst s) of (ok, w) \<Rightarrow> (ok, (w, snd s @ [(fr, ok)])))"

definition noting_env :: "'w posix \<Rightarrow> 'w noted posix" where
  "noting_env env =
     \<lparr>clock_gettime = \<lambda>s. (case clock_gettime env (fst s) of (t, w) \<Rightarrow> (t, (w, snd s))),
      nanosleep = \<lambda>a b s. (nanosleep env a b (fst s), snd s),
      print_stdout = \<lambda>line s. (print_stdout env line (fst s), snd s),
      print_error = \<lambda>line s. (print_error env line (fst s), snd s)\<rparr>"

definition noted_taken :: "u8 list list \<Rightarrow> 'w noted \<Rightarrow> bool" where
  "noted_taken sent s \<longleftrightarrow> snd s = map (\<lambda>fr. (fr, True)) sent"

definition noted_refused :: "u8 list list \<Rightarrow> u8 list \<Rightarrow> 'w noted \<Rightarrow> bool" where
  "noted_refused sent fr s \<longleftrightarrow> snd s = map (\<lambda>fr. (fr, True)) sent @ [(fr, False)]"

interpretation noted: sender_link "noting_env env" "noting wr" noted_taken noted_refused for env wr
  by unfold_locales (auto simp: noting_def noting_env_def noted_taken_def noted_refused_def split: prod.splits)

text \<open>
  The sender hands its nine frames to the callback in order, five of the MIDI endpoint and four
  of the PWM endpoint, each endpoint numbering its own from 1, each frame with the message \<open>main\<close>
  builds at that place. It exits with 0 exactly if all have been taken; the first one that is refused
  is the last one handed over, and the program exits with 1.
\<close>

theorem sender_sends_in_order:
  assumes "transmit_ok tx"
    and "\<forall>t. \<forall>m \<in> set (sender_midi_messages t). length (FinishBuffer mc m) \<le> kMaxFrameSize"
    and "\<forall>t1 t2. \<forall>m \<in> set (sender_pwm_messages t1 t2). length (FinishBuffer pc m) \<le> kMaxFrameSize"
  shows "\<exists>code st t0 t1 t2. send_all (noting_env env) mc pc (noting write) tx (w, []) = Some (code, st) \<and>
     (let frames = sender_frames mc pc t0 t1 t2; notes = snd (sender_world st) in
      code = 0 \<and> notes = map (\<lambda>fr. (fr, True)) frames \<or>
      code = 1 \<and> (\<exists>sent fr rest. frames = sent @ fr # rest \<and> notes = map (\<lambda>fr. (fr, True)) sent @ [(fr, False)]))"
proof -
  let ?st = "\<lparr>sender_midi = MidiEndpoint (Some (noting write)), sender_pwm = PwmEndpoint (Some (noting write)), sender_tx = tx,
      sender_world = (w, [])\<rparr>"
  have m: "\<And>t. list_all (\<lambda>m. length (FinishBuffer mc m) \<le> kMaxFrameSize) (sender_midi_messages t)"
    and p: "\<And>t1 t2. list_all (\<lambda>m. length (FinishBuffer pc m) \<le> kMaxFrameSize) (sender_pwm_messages t1 t2)"
    using assms(2,3) by (simp_all add: list_all_iff)
  have "finishes mc pc (clock_times (noting_env env)) (noting write) noted_taken noted_refused [] 1 1 (sender_script (noting_env env) mc pc)"
    by (rule noted.script_finishes [OF m p])
  moreover have "all_taken (noting write) noted_taken [] 1 1 ?st"
    using assms(1) by (simp add: all_taken_def noted_taken_def MidiEndpoint_def PwmEndpoint_def FrameTransport_def)
  ultimately obtain r where "run_steps (sender_script (noting_env env) mc pc) ?st = Some r"
    "ends_well mc pc (clock_times (noting_env env)) noted_taken noted_refused r"
    by (blast dest: finishesD)
  then show ?thesis
    by (auto simp: send_all_def ends_well_def refused_after_def noted_taken_def noted_refused_def Let_def
        split: sum.splits) metis
qed

text \<open>A system in which nothing happens, and codecs with one buffer each.\<close>

definition quiet_env :: "'w posix" where
  "quiet_env = \<lparr>clock_gettime = \<lambda>w. (None, w), nanosleep = \<lambda>a b w. w, print_stdout = \<lambda>line w. w, print_error = \<lambda>line w. w\<rparr>"

definition constant_codec :: "u8 list \<Rightarrow> 'env codec" where
  "constant_codec bs = \<lparr>BufferHasIdentifier = \<lambda>mem. Some True, VerifyBuffer = \<lambda>b. True, GetRoot = \<lambda>mem. None, FinishBuffer = \<lambda>e. bs\<rparr>"

theorem sender_sends_in_order_witness:
  "\<exists>code st t0 t1 t2.
     send_all (noting_env quiet_env) (constant_codec [1, 2]) (constant_codec [3]) (noting (\<lambda>fr n. (n < 6, n + 1)))
       initial_transmit_state (0 :: nat, []) = Some (code, st) \<and>
     (let frames = sender_frames (constant_codec [1, 2]) (constant_codec [3]) t0 t1 t2; notes = snd (sender_world st) in
      code = 0 \<and> notes = map (\<lambda>fr. (fr, True)) frames \<or>
      code = 1 \<and> (\<exists>sent fr rest. frames = sent @ fr # rest \<and> notes = map (\<lambda>fr. (fr, True)) sent @ [(fr, False)]))"
  by (rule sender_sends_in_order [OF transmit_ok_initial]) (simp_all add: constant_codec_def size_consts)

end
