(* ===== verification/Dbus_Receiver.thy ===== *)
theory Dbus_Receiver
  imports Receiver Dbus_Sender
begin

section \<open>The receiver of the D-Bus example (examples/dbus_receiver/main.cpp)\<close>

text \<open>
  The program registers a handler for each kind of message that prints one line for it (the fault
  log some more), starts a D-Bus server with \<open>CombinedHandler\<close> and runs it until a signal clears a
  flag. \<open>main\<close> also passes the constructors a second argument that they no longer take, and registers
  \<open>PrintChannelTelemetry\<close> by a function that \<open>PwmEndpoint\<close> no longer has: the model leaves these two out.
  \<open>PrintChannelTelemetry\<close> itself reads fields that the schema no longer has; its argument is the record of
  what it reads. The C library's \<open>%.2f\<close> is a parameter.
\<close>

subsection \<open>Numbers as \<open>printf\<close> writes them\<close>

fun show_nat :: "nat \<Rightarrow> string" where
  "show_nat n = (if n < 10 then [char_of (48 + n)] else show_nat (n div 10) @ [char_of (48 + n mod 10)])"

declare show_nat.simps [simp del]

definition show_u :: "'a::len word \<Rightarrow> string" where
  "show_u x = show_nat (unat x)"

primrec ChannelMessageType_code :: "ChannelMessageType \<Rightarrow> nat" where
  "ChannelMessageType_code NoteOff = 0"
| "ChannelMessageType_code NoteOn = 1"
| "ChannelMessageType_code PolyphonicKeyPressure = 2"
| "ChannelMessageType_code ControlChange = 3"
| "ChannelMessageType_code ProgramChange = 4"
| "ChannelMessageType_code ChannelPressure = 5"
| "ChannelMessageType_code ChannelMessageType.PitchBend = 6"
| "ChannelMessageType_code (ChannelMessageType_Other n) = unat n"

primrec SystemCommonType_code :: "SystemCommonType \<Rightarrow> nat" where
  "SystemCommonType_code TimeCodeQuarterFrame = 0"
| "SystemCommonType_code SongPositionPointer = 1"
| "SystemCommonType_code SongSelect = 2"
| "SystemCommonType_code TuneRequest = 3"
| "SystemCommonType_code (SystemCommonType_Other n) = unat n"

primrec SystemRealTimeType_code :: "SystemRealTimeType \<Rightarrow> nat" where
  "SystemRealTimeType_code TimingClock = 0"
| "SystemRealTimeType_code Start = 1"
| "SystemRealTimeType_code Continue = 2"
| "SystemRealTimeType_code Stop = 3"
| "SystemRealTimeType_code ActiveSensing = 4"
| "SystemRealTimeType_code SystemReset = 5"
| "SystemRealTimeType_code (SystemRealTimeType_Other n) = unat n"

primrec ChannelConfiguration_code :: "ChannelConfiguration \<Rightarrow> nat" where
  "ChannelConfiguration_code FullBridge = 0"
| "ChannelConfiguration_code HalfBridge = 1"
| "ChannelConfiguration_code (ChannelConfiguration_Other n) = unat n"

primrec FaultType_code :: "FaultType \<Rightarrow> nat" where
  "FaultType_code None_Fault = 0"
| "FaultType_code OverVoltage = 1"
| "FaultType_code UnderVoltage = 2"
| "FaultType_code OverCurrent = 3"
| "FaultType_code Thermal = 4"
| "FaultType_code Communication = 5"
| "FaultType_code Unknown = 255"
| "FaultType_code (FaultType_Other n) = unat n"

primrec FaultControlOperation_code :: "FaultControlOperation \<Rightarrow> nat" where
  "FaultControlOperation_code Reset = 0"
| "FaultControlOperation_code Fetch = 1"
| "FaultControlOperation_code EnableAutoReset = 2"
| "FaultControlOperation_code DisableAutoReset = 3"
| "FaultControlOperation_code (FaultControlOperation_Other n) = unat n"

subsection \<open>The handlers\<close>

definition receiver_kAddress :: DBusAddress where
  "receiver_kAddress = \<lparr>addr_service = ''org.midi2pwm.libcomm'', addr_object_path = ''/org/midi2pwm/libcomm/Endpoint'',
     addr_interface = ''org.midi2pwm.libcomm.Endpoint'', addr_method = ''SendEnvelope''\<rparr>"

definition NullWrite :: "'w posix \<Rightarrow> 'w write_callback" where
  "NullWrite env bs w =
     (False, print_error env (''[libcomm] No outbound transport configured for receiver.'' @ [CHR 0x0A]) w)"

definition PrintPing :: "'w posix \<Rightarrow> Ping \<Rightarrow> 'w \<Rightarrow> 'w" where
  "PrintPing env ping = print_stdout env
     (''[receiver] Ping received - sequence: '' @ show_u (ping_sequence ping) @
      '', timestamp: '' @ show_u (ping_timestamp ping) @ [CHR 0x0A])"

definition PrintChannel :: "'w posix \<Rightarrow> ChannelMessage \<Rightarrow> 'w \<Rightarrow> 'w" where
  "PrintChannel env message = print_stdout env
     (''[receiver] Channel message - type: '' @ show_nat (ChannelMessageType_code (channel_message_type message)) @
      '', channel: '' @ show_u (channel message) @ '', data1: '' @ show_u (data1 message) @
      '', data2: '' @ show_u (data2 message) @ [CHR 0x0A])"

definition PrintSystemCommon :: "'w posix \<Rightarrow> SystemCommonMessage \<Rightarrow> 'w \<Rightarrow> 'w" where
  "PrintSystemCommon env message = print_stdout env
     (''[receiver] System Common message - type: '' @ show_nat (SystemCommonType_code (common_message_type message)) @
      '', value: '' @ show_u (common_value message) @ [CHR 0x0A])"

definition PrintSystemRealTime :: "'w posix \<Rightarrow> SystemRealTimeMessage \<Rightarrow> 'w \<Rightarrow> 'w" where
  "PrintSystemRealTime env message = print_stdout env
     (''[receiver] System Real-Time message - type: '' @
      show_nat (SystemRealTimeType_code (real_time_message_type message)) @ [CHR 0x0A])"

text \<open>The size of a vector is a \<open>uoffset_t\<close>, an unsigned 32-bit number; an absent vector counts 0.\<close>

definition vector_size :: "'a list option \<Rightarrow> u32" where
  "vector_size v = (case v of None \<Rightarrow> 0 | Some xs \<Rightarrow> of_nat (length xs))"

definition PrintSystemExclusive :: "'w posix \<Rightarrow> SystemExclusiveMessage \<Rightarrow> 'w \<Rightarrow> 'w" where
  "PrintSystemExclusive env message = print_stdout env
     (''[receiver] SysEx message - manufacturer length: '' @ show_u (vector_size (manufacturer_id message)) @
      '', payload length: '' @ show_u (vector_size (sysex_payload message)) @ [CHR 0x0A])"

text \<open>What \<open>PrintChannelTelemetry\<close> reads of its message, enumerations as their numbers.\<close>

record telemetry_view =
  view_channel_number :: u32
  view_configuration :: u32
  view_status :: u32
  view_voltage :: float_bits
  view_current :: float_bits
  view_midpoint :: float_bits
  view_min_point :: float_bits
  view_max_point :: float_bits
  view_had_fault :: bool

definition PrintChannelTelemetry :: "(float_bits \<Rightarrow> string) \<Rightarrow> 'w posix \<Rightarrow> telemetry_view \<Rightarrow> 'w \<Rightarrow> 'w" where
  "PrintChannelTelemetry f2 env telemetry = print_stdout env
     (''[receiver] PWM telemetry - channel: '' @ show_u (view_channel_number telemetry) @
      '', config: '' @ show_u (view_configuration telemetry) @
      '', status: '' @ show_u (view_status telemetry) @
      '', voltage: '' @ f2 (view_voltage telemetry) @ '', current: '' @ f2 (view_current telemetry) @
      '', midpoint: '' @ f2 (view_midpoint telemetry) @ '', min: '' @ f2 (view_min_point telemetry) @
      '', max: '' @ f2 (view_max_point telemetry) @
      '', had_fault: '' @ (if view_had_fault telemetry then ''true'' else ''false'') @ [CHR 0x0A])"

definition PrintChannelConfig :: "(float_bits \<Rightarrow> string) \<Rightarrow> 'w posix \<Rightarrow> ChannelConfig \<Rightarrow> 'w \<Rightarrow> 'w" where
  "PrintChannelConfig f2 env config = print_stdout env
     (''[receiver] PWM config - channel: '' @ show_u (config_channel_number config) @
      '', config: '' @ show_nat (ChannelConfiguration_code (config_configuration config)) @
      '', note: '' @ show_u (config_note config) @
      '', midpoint: '' @ f2 (midpoint config) @ '', min: '' @ f2 (min_point config) @
      '', max: '' @ f2 (max_point config) @ [CHR 0x0A])"

text \<open>The loop over the entries; \<open>i\<close> is the index, also a \<open>uoffset_t\<close>.\<close>

primrec print_entries :: "'w posix \<Rightarrow> u32 \<Rightarrow> FaultLogEntry list \<Rightarrow> 'w \<Rightarrow> 'w" where
  "print_entries env i [] w = w"
| "print_entries env i (entry # rest) w = print_entries env (i + 1) rest (print_stdout env
     (''  - entry['' @ show_u i @ '']: timestamp='' @ show_u (timestamp_ms entry) @
      '', fault='' @ show_nat (FaultType_code (fault entry)) @ [CHR 0x0A]) w)"

definition PrintFaultLog :: "'w posix \<Rightarrow> FaultLog \<Rightarrow> 'w \<Rightarrow> 'w" where
  "PrintFaultLog env flog w =
     (let w1 = print_stdout env
        (''[receiver] PWM fault log - size: '' @ show_u (log_size flog) @
         '', reported entries: '' @ show_u (vector_size (entries flog)) @ [CHR 0x0A]) w in
      (case entries flog of None \<Rightarrow> w1 | Some es \<Rightarrow> print_entries env 0 es w1))"

definition PrintFaultControl :: "'w posix \<Rightarrow> FaultControlCommand \<Rightarrow> 'w \<Rightarrow> 'w" where
  "PrintFaultControl env command = print_stdout env
     (''[receiver] PWM fault control command - operation: '' @
      show_nat (FaultControlOperation_code (operation command)) @ [CHR 0x0A])"

subsection \<open>\<open>main\<close>\<close>

definition receiver_midi :: "'w posix \<Rightarrow> 'w midi_endpoint" where
  "receiver_midi env =
     OnSystemExclusive (Some (PrintSystemExclusive env))
     (OnSystemRealTime (Some (PrintSystemRealTime env))
     (OnSystemCommon (Some (PrintSystemCommon env))
     (OnChannelMessage (Some (PrintChannel env))
     (OnPing (Some (PrintPing env)) (MidiEndpoint (Some (NullWrite env)))))))"

definition receiver_pwm :: "(float_bits \<Rightarrow> string) \<Rightarrow> 'w posix \<Rightarrow> 'w pwm_endpoint" where
  "receiver_pwm f2 env =
     OnFaultControl (Some (PrintFaultControl env))
     (OnFaultLog (Some (PrintFaultLog env))
     (OnChannelConfig (Some (PrintChannelConfig f2 env)) (PwmEndpoint (Some (NullWrite env)))))"

definition receiver_handler ::
  "midi_packet codec \<Rightarrow> pwm_message codec \<Rightarrow> nat \<Rightarrow> (float_bits \<Rightarrow> string) \<Rightarrow> 'w posix \<Rightarrow> 'w data_handler" where
  "receiver_handler mc pc szw f2 env payload n w =
     CombinedHandler mc pc szw (receiver_midi env) (receiver_pwm f2 env) (Some payload) n w"

text \<open>
  The flag that a signal clears, in front of the rest of the process's world; a signal may come during
  any call of the environment.
\<close>

record 'w process =
  g_running :: bool
  process_rest :: 'w

definition HandleSignal :: "'w process \<Rightarrow> 'w process" where
  "HandleSignal p = p\<lparr>g_running := False\<rparr>"

definition KeepRunning :: "'w process \<Rightarrow> bool \<times> 'w process" where
  "KeepRunning p = (g_running p, p)"

definition receiver_main ::
  "('c, 'm, 'i, 'w process) libdbus \<Rightarrow> ('c, 'm, 'w process) dbus_queue \<Rightarrow> 'w process posix \<Rightarrow> midi_packet codec
     \<Rightarrow> pwm_message codec \<Rightarrow> nat \<Rightarrow> (float_bits \<Rightarrow> string) \<Rightarrow> 'w process \<Rightarrow> (nat \<times> 'w process) option" where
  "receiver_main lib q env mc pc szw f2 w =
     (let (started, server, w1) = server_Start lib (Some (receiver_handler mc pc szw f2 env)) (new_server receiver_kAddress) w in
      if \<not> started
      then Some (1, snd (close_server lib server
        (print_error env (''[receiver] Failed to start D-Bus server transport.'' @ [CHR 0x0A]) w1)))
      else do {
        w2 \<leftarrow> RunWhile lib q server (Some KeepRunning)
          (print_stdout env (''[receiver] Listening on D-Bus. Press Ctrl+C to stop.'' @ [CHR 0x0A]) w1);
        Some (0, snd (close_server lib server (print_stdout env (''[receiver] Shutting down.'' @ [CHR 0x0A]) w2)))
      })"

lemma server_Start_connected:
  "server_Start lib h sv w = (True, sv', w') \<Longrightarrow> server_connection sv' \<noteq> None"
  by (auto simp: server_Start_def Let_def split: prod.splits sum.splits if_splits)

lemma run_until_signal:
  "run_loop q h c (Some KeepRunning) w = Some w' \<longleftrightarrow>
     \<not> g_running w' \<and> (\<exists>n. after_passes q h c (Some KeepRunning) n w = Some w')"
  by (auto simp: run_loop_returns keeps_running_def KeepRunning_def)

text \<open>
  The receiver stops for a signal and for nothing else: once the server has been started, \<open>main\<close>
  returns exactly if after some number of passes, each of which returns, the flag is cleared; it
  then says so, closes the server and ends with 0. A server that does not start ends it with 1.
\<close>

theorem receiver_runs_until_signal:
  "case server_Start lib (Some (receiver_handler mc pc szw f2 env)) (new_server receiver_kAddress) w of (started, server, w1) \<Rightarrow>
     receiver_main lib q env mc pc szw f2 w = Some (code, w') \<longleftrightarrow>
     (if started
      then \<exists>c n w2. server_connection server = Some c \<and> code = 0 \<and>
        after_passes q (\<lambda>m. HandleMessage lib c (Some m) (Some server)) c (Some KeepRunning) n
          (print_stdout env (''[receiver] Listening on D-Bus. Press Ctrl+C to stop.'' @ [CHR 0x0A]) w1) = Some w2 \<and>
        \<not> g_running w2 \<and>
        w' = snd (close_server lib server (print_stdout env (''[receiver] Shutting down.'' @ [CHR 0x0A]) w2))
      else code = 1 \<and> w' = snd (close_server lib server
        (print_error env (''[receiver] Failed to start D-Bus server transport.'' @ [CHR 0x0A]) w1)))"
proof -
  obtain started server w1 where s: "server_Start lib (Some (receiver_handler mc pc szw f2 env)) (new_server receiver_kAddress) w =
    (started, server, w1)" by (metis prod_cases3)
  show ?thesis
  proof (cases started)
    case False
    with s show ?thesis by (auto simp: receiver_main_def)
  next
    case True
    then obtain c where "server_connection server = Some c" using server_Start_connected [of lib] s by force
    with s True show ?thesis
      by (auto simp: receiver_main_def RunWhile_def run_until_signal bind_eq_Some_conv)
  qed
qed

subsection \<open>The two programs together\<close>

text \<open>The receiver's handler, called for one frame after another.\<close>

primrec receive_frames ::
  "midi_packet codec \<Rightarrow> pwm_message codec \<Rightarrow> nat \<Rightarrow> (float_bits \<Rightarrow> string) \<Rightarrow> 'w posix \<Rightarrow> u8 list list \<Rightarrow> 'w \<Rightarrow> (bool list \<times> 'w) option" where
  "receive_frames mc pc szw f2 env [] w = Some ([], w)"
| "receive_frames mc pc szw f2 env (fr # frs) w = do {
     (handled, w1) \<leftarrow> receiver_handler mc pc szw f2 env fr (length fr) w;
     (hs, w2) \<leftarrow> receive_frames mc pc szw f2 env frs w1;
     Some (handled # hs, w2)
   }"

text \<open>What appears on the receiver's terminal, line by line.\<close>

definition sender_lines :: "(float_bits \<Rightarrow> string) \<Rightarrow> u64 \<Rightarrow> u64 \<Rightarrow> u64 \<Rightarrow> string list" where
  "sender_lines f2 t0 t1 t2 = map (\<lambda>s. s @ [CHR 0x0A])
     [''[receiver] Ping received - sequence: 1, timestamp: '' @ show_u t0,
      ''[receiver] Channel message - type: 1, channel: 0, data1: 60, data2: 110'',
      ''[receiver] Channel message - type: 3, channel: 0, data1: 74, data2: 100'',
      ''[receiver] System Real-Time message - type: 0'',
      ''[receiver] SysEx message - manufacturer length: 3, payload length: 4'',
      ''[receiver] PWM config - channel: 0, config: 0, note: 60, midpoint: '' @ f2 0x3F000000 @
        '', min: '' @ f2 0 @ '', max: '' @ f2 0x3F800000,
      ''[receiver] PWM fault log - size: 2, reported entries: 2'',
      ''  - entry[0]: timestamp='' @ show_u (ucast t1 :: u32) @ '', fault=3'',
      ''  - entry[1]: timestamp='' @ show_u (ucast (t2 + 42) :: u32) @ '', fault=4'',
      ''[receiver] PWM fault control command - operation: 0'']"

lemma show_numerals:
  "show_nat 0 = ''0''" "show_nat 1 = ''1''" "show_nat 2 = ''2''" "show_nat 3 = ''3''" "show_nat 4 = ''4''"
  "show_nat 60 = ''60''" "show_nat 74 = ''74''" "show_nat 100 = ''100''" "show_nat 110 = ''110''"
  by code_simp+

lemma receive_midi_frames:
  assumes "codec_ok mc midi_exact" and "32 \<le> szw" and "length ks = length ms"
    and "list_all (\<lambda>m. midi_exact m \<and> length (FinishBuffer mc m) \<le> kMaxFrameSize) ms"
  shows "receive_frames mc pc szw f2 env (map2 (\<lambda>k m. data_frame (of_nat k) (FinishBuffer mc m)) ks ms @ rest) w =
     map_option (\<lambda>(hs, w). (replicate (length ms) True @ hs, w))
       (receive_frames mc pc szw f2 env rest (fold (\<lambda>m w. snd (midi_dispatch (receiver_midi env) m w)) ms w))"
  using assms(3,4)
proof (induction ks ms arbitrary: w rule: list_induct2)
  case Nil
  show ?case by (simp add: split_def option.map_ident)
next
  case (Cons k ks m ms)
  have "receiver_handler mc pc szw f2 env (data_frame (of_nat k) (FinishBuffer mc m))
      (length (data_frame (of_nat k) (FinishBuffer mc m))) w = Some (True, snd (midi_dispatch (receiver_midi env) m w))"
    unfolding receiver_handler_def
    by (rule combined_midi [OF assms(1,2) _ _ refl]) (use Cons.prems in simp_all)
  moreover note Cons.IH [of "snd (midi_dispatch (receiver_midi env) m w)"]
  ultimately show ?case
    using Cons.prems
    by (cases "receive_frames mc pc szw f2 env rest (fold (\<lambda>m w. snd (midi_dispatch (receiver_midi env) m w)) (m # ms) w)")
      auto
qed

lemma receive_pwm_frames:
  assumes "codec_ok pc pwm_exact" and "identifiers_differ mc pc" and "32 \<le> szw" and "length ks = length ms"
    and "list_all (\<lambda>m. pwm_exact m \<and> length (FinishBuffer pc m) \<le> kMaxFrameSize) ms"
  shows "receive_frames mc pc szw f2 env (map2 (\<lambda>k m. data_frame (of_nat k) (FinishBuffer pc m)) ks ms) w =
     Some (replicate (length ms) True, fold (\<lambda>m w. snd (pwm_dispatch (receiver_pwm f2 env) m w)) ms w)"
  using assms(4,5)
proof (induction ks ms arbitrary: w rule: list_induct2)
  case (Cons k ks m ms)
  have "receiver_handler mc pc szw f2 env (data_frame (of_nat k) (FinishBuffer pc m))
      (length (data_frame (of_nat k) (FinishBuffer pc m))) w = Some (True, snd (pwm_dispatch (receiver_pwm f2 env) m w))"
    unfolding receiver_handler_def
    by (rule combined_pwm [OF assms(1-3) _ _ refl]) (use Cons.prems in simp_all)
  with Cons.IH Cons.prems show ?case by simp
qed simp

lemmas receiver_handlers = receiver_midi_def receiver_pwm_def OnPing_def OnChannelMessage_def OnSystemCommon_def
  OnSystemRealTime_def OnSystemExclusive_def OnChannelConfig_def OnFaultLog_def OnFaultControl_def MidiEndpoint_def PwmEndpoint_def

lemmas receiver_prints = PrintPing_def PrintChannel_def PrintSystemRealTime_def PrintSystemExclusive_def
  PrintChannelConfig_def PrintFaultLog_def PrintFaultControl_def vector_size_def show_u_def show_numerals show_numerals [simplified]

lemma midi_lines:
  "fold (\<lambda>m w. snd (midi_dispatch (receiver_midi env) m w)) (sender_midi_messages t0) w =
   fold (print_stdout env) (take 5 (sender_lines f2 t0 t1 t2)) w"
  by (simp add: sender_midi_messages_def sender_lines_def midi_dispatch_def receiver_handlers receiver_prints)

lemma pwm_lines:
  "fold (\<lambda>m w. snd (pwm_dispatch (receiver_pwm f2 env) m w)) (sender_pwm_messages t1 t2) w =
   fold (print_stdout env) (drop 5 (sender_lines f2 t0 t1 t2)) w"
  by (simp add: sender_pwm_messages_def sender_lines_def pwm_dispatch_def receiver_handlers receiver_prints Let_def)

lemma receive_sender_frames:
  assumes "codec_ok mc midi_exact" and "codec_ok pc pwm_exact" and "identifiers_differ mc pc" and "32 \<le> szw"
    and "\<forall>m \<in> set (sender_midi_messages t0). length (FinishBuffer mc m) \<le> kMaxFrameSize"
    and "\<forall>m \<in> set (sender_pwm_messages t1 t2). length (FinishBuffer pc m) \<le> kMaxFrameSize"
  shows "receive_frames mc pc szw f2 env (sender_frames mc pc t0 t1 t2) w =
     Some (replicate 9 True, fold (print_stdout env) (sender_lines f2 t0 t1 t2) w)"
proof -
  have m: "list_all (\<lambda>m. midi_exact m \<and> length (FinishBuffer mc m) \<le> kMaxFrameSize) (sender_midi_messages t0)"
    using assms(5) by (auto simp: list_all_iff sender_midi_messages_def midi_exact_def)
  have p: "list_all (\<lambda>m. pwm_exact m \<and> length (FinishBuffer pc m) \<le> kMaxFrameSize) (sender_pwm_messages t1 t2)"
    using assms(6)
    by (auto simp: list_all_iff sender_pwm_messages_def plain_config_def plain_telemetry_def plain_float_def telemetry_ch_def)
  have l: "length (sender_midi_messages t0) = 5" "length (sender_pwm_messages t1 t2) = 4"
    by (simp_all add: sender_midi_messages_def sender_pwm_messages_def)
  let ?w = "fold (\<lambda>m w. snd (midi_dispatch (receiver_midi env) m w)) (sender_midi_messages t0) w"
  have "receive_frames mc pc szw f2 env (numbered_frames pc (sender_pwm_messages t1 t2)) ?w =
      Some (replicate 4 True, fold (\<lambda>m w. snd (pwm_dispatch (receiver_pwm f2 env) m w)) (sender_pwm_messages t1 t2) ?w)"
    unfolding numbered_frames_def l(2) [symmetric] by (rule receive_pwm_frames [OF assms(2-4) _ p]) (simp only: length_upt add_diff_cancel_right')
  moreover have "receive_frames mc pc szw f2 env (sender_frames mc pc t0 t1 t2) w =
      map_option (\<lambda>(hs, w). (replicate 5 True @ hs, w))
        (receive_frames mc pc szw f2 env (numbered_frames pc (sender_pwm_messages t1 t2)) ?w)"
    unfolding sender_frames_def numbered_frames_def [of mc] l(1) [symmetric]
    by (rule receive_midi_frames [OF assms(1,4) _ m]) (simp only: length_upt add_diff_cancel_right')
  ultimately have "receive_frames mc pc szw f2 env (sender_frames mc pc t0 t1 t2) w =
      Some (replicate 5 True @ replicate 4 True, fold (print_stdout env) (drop 5 (sender_lines f2 t0 t1 t2))
        (fold (print_stdout env) (take 5 (sender_lines f2 t0 t1 t2)) w))"
    by (simp add: midi_lines [of env t0 _ f2 t1 t2] pwm_lines [of f2 env t1 t2 _ t0])
  also have "\<dots> = Some (replicate 9 True, fold (print_stdout env) (sender_lines f2 t0 t1 t2) w)"
  proof -
    have "fold (print_stdout env) (take 5 (sender_lines f2 t0 t1 t2) @ drop 5 (sender_lines f2 t0 t1 t2)) w =
        fold (print_stdout env) (drop 5 (sender_lines f2 t0 t1 t2)) (fold (print_stdout env) (take 5 (sender_lines f2 t0 t1 t2)) w)"
      by (simp only: fold_append comp_apply)
    moreover have "replicate 5 True @ replicate 4 True = replicate 9 True" by (simp add: replicate_add [symmetric])
    ultimately show ?thesis by (simp only: append_take_drop_id)
  qed
  finally show ?thesis .
qed


text \<open>
  The two example programs agree: if the frames the sender hands over reach the receiver's handler
  in order, every one is handled, and the receiver's terminal shows the messages the sender's \<open>main\<close>
  built, in order and with their values; only the telemetry message leaves no line, since no handler
  is registered for it.
\<close>

theorem receiver_prints_sender_messages:
  assumes "codec_ok mc midi_exact" and "codec_ok pc pwm_exact" and "identifiers_differ mc pc" and "32 \<le> szw"
    and "\<forall>m \<in> set (sender_midi_messages t0). length (FinishBuffer mc m) \<le> kMaxFrameSize"
    and "\<forall>m \<in> set (sender_pwm_messages t1 t2). length (FinishBuffer pc m) \<le> kMaxFrameSize"
  shows "receive_frames mc pc szw f2 env (sender_frames mc pc t0 t1 t2) w =
     Some (replicate 9 True, fold (print_stdout env) (sender_lines f2 t0 t1 t2) w)"
  by (rule receive_sender_frames [OF assms])

text \<open>Two tables of eight-byte buffers, with the identifiers of the schemas.\<close>

definition tagged :: "u8 list \<Rightarrow> 'env list \<Rightarrow> ('env \<times> u8 list) list" where
  "tagged ident ms = zip ms (map (\<lambda>k. [of_nat k, 0, 0, 0] @ ident) [0..<length ms])"

lemma tagged_ok:
  assumes "length ident = 4" and "length ms < 256"
  shows "codec_ok (table_codec ident (tagged ident ms)) exact"
proof (rule table_codec_ok)
  show "\<forall>(e, b) \<in> set (tagged ident ms). length b = 8 \<and> drop 4 b = ident"
    using assms(1) by (auto simp: tagged_def set_zip)
  have "inj_on (of_nat :: nat \<Rightarrow> u8) {0..<length ms}"
    using assms(2) by (auto simp: inj_on_def word_unat_eq_iff unsigned_of_nat take_bit_nat_eq_self)
  then show "distinct (map snd (tagged ident ms))"
    by (auto simp: tagged_def distinct_map inj_on_def)
qed

lemma tagged_finish:
  assumes "length ident = 4" and "m \<in> set ms"
  shows "length (FinishBuffer (table_codec ident (tagged ident ms)) m) = 8"
proof -
  have "m \<in> fst ` set (tagged ident ms)" using assms(2) by (simp add: tagged_def flip: set_map)
  then obtain b where "map_of (tagged ident ms) m = Some b" by (metis map_of_eq_None_iff not_None_eq)
  moreover from map_of_SomeD [OF this] have "length b = 8" using assms(1) by (auto simp: tagged_def set_zip)
  ultimately show ?thesis by (simp add: table_codec_def)
qed

lemma tagged_differ:
  assumes "length i1 = 4" and "length i2 = 4" and "i1 \<noteq> i2" and "i1 \<noteq> [0, 0, 0, 0]"
  shows "identifiers_differ (table_codec i1 tbl) (table_codec i2 (tagged i2 ms))"
  unfolding identifiers_differ_def
proof (intro allI impI)
  fix env and rest :: "u8 list"
  show "BufferHasIdentifier (table_codec i1 tbl) (FinishBuffer (table_codec i2 (tagged i2 ms)) env @ rest) = Some False"
  proof (cases "map_of (tagged i2 ms) env")
    case None
    have "take 4 (drop 4 (replicate 4097 (0 :: u8) @ rest)) = [0, 0, 0, 0]" by (simp add: eval_nat_numeral)
    with None assms(4) show ?thesis by (simp add: table_codec_def)
  next
    case (Some b)
    from map_of_SomeD [OF this] obtain k where "b = [of_nat k, 0, 0, 0] @ i2" by (auto simp: tagged_def set_zip)
    with Some assms(2,3) show ?thesis by (simp add: table_codec_def)
  qed
qed

theorem receiver_prints_sender_messages_witness:
  "\<exists>mc pc. receive_frames mc pc 32 (\<lambda>x. ''?'') (quiet_env\<lparr>print_stdout := \<lambda>line out. out @ line\<rparr>) (sender_frames mc pc 0 0 0) []
     = Some (replicate 9 True, concat (sender_lines (\<lambda>x. ''?'') 0 0 0))"
proof -
  let ?mi = "[77, 50, 80, 77] :: u8 list" and ?pi = "[80, 87, 77, 88] :: u8 list"
  let ?mc = "table_codec ?mi (tagged ?mi (sender_midi_messages 0))" and ?pc = "table_codec ?pi (tagged ?pi (sender_pwm_messages 0 0))"
  let ?env = "quiet_env\<lparr>print_stdout := \<lambda>line out. out @ line\<rparr> :: string posix"
  have "fold (print_stdout ?env) ls out = out @ concat ls" for ls out
    by (induction ls arbitrary: out) simp_all
  moreover have "receive_frames ?mc ?pc 32 (\<lambda>x. ''?'') ?env (sender_frames ?mc ?pc 0 0 0) [] =
      Some (replicate 9 True, fold (print_stdout ?env) (sender_lines (\<lambda>x. ''?'') 0 0 0) [])"
    by (rule receiver_prints_sender_messages)
      (simp_all add: tagged_ok tagged_differ tagged_finish size_consts, simp_all add: sender_midi_messages_def sender_pwm_messages_def tagged_ok)
  ultimately show ?thesis by auto
qed

end
