(* ===== verification/Example_Logger.thy ===== *)
theory Example_Logger
  imports Logging
begin

section \<open>The log sink of the examples (examples/common/example_logger.cpp)\<close>

text \<open>
  A sink that writes one line to standard error for each log statement. The clock, the formatted
  time of day and \<open>vfprintf\<close> are the C library's, and standard error is a byte stream: the record
  \<open>stdio\<close> is a parameter. The callback holds a static mutex from its first to its last
  statement, so that its four steps are one step to any other caller.
\<close>

record ('arg, 'w) stdio =
  clock_time :: "'w \<Rightarrow> string"
  format_args :: "string \<Rightarrow> 'arg list \<Rightarrow> string"
  put_stderr :: "string \<Rightarrow> 'w \<Rightarrow> 'w"

fun level_label :: "LogLevel \<Rightarrow> string" where
  "level_label Error = ''ERROR''"
| "level_label Warning = ''WARN ''"
| "level_label Info = ''INFO ''"
| "level_label Debug = ''DEBUG''"

text \<open>\<open>clock_time\<close> is \<open>strftime\<close> of the local time with the format \<open>%H:%M:%S\<close>.\<close>

definition ExampleLoggerCallback :: "('arg, 'w) stdio \<Rightarrow> ('arg, 'w) log_sink" where
  "ExampleLoggerCallback io level tag format args w =
     (let levelStr = level_label level;
          timeBuffer = clock_time io w;
          w1 = put_stderr io (''['' @ timeBuffer @ ''] ['' @ levelStr @ ''] ['' @ tag @ ''] '') w;
          w2 = put_stderr io (format_args io format args) w1 in
      put_stderr io [CHR 0x0A] w2)"

definition InstallExampleLogger :: "('arg, 'w) stdio \<Rightarrow> ('arg, 'w) log_state \<Rightarrow> ('arg, 'w) log_state" where
  "InstallExampleLogger io s = SetGlobalLogger (Some (ExampleLoggerCallback io)) s"

subsection \<open>Properties\<close>

text \<open>A log statement with all it depends on.\<close>

record 'arg log_statement =
  stmt_level :: LogLevel
  stmt_tag :: string
  stmt_format :: string
  stmt_args :: "'arg list"

definition run_log :: "nat \<Rightarrow> ('arg, 'w) log_state \<Rightarrow> 'arg log_statement list \<Rightarrow> 'w \<Rightarrow> 'w" where
  "run_log n s stmts w =
     fold (\<lambda>l. log_macro (stmt_level l) n s (stmt_tag l) (stmt_format l) (stmt_args l)) stmts w"

text \<open>The line of a statement.\<close>

definition log_line :: "(string \<Rightarrow> 'arg list \<Rightarrow> string) \<Rightarrow> string \<Rightarrow> 'arg log_statement \<Rightarrow> string" where
  "log_line fmt time l =
     ''['' @ time @ ''] ['' @ level_label (stmt_level l) @ ''] ['' @ stmt_tag l @ ''] '' @ fmt (stmt_format l) (stmt_args l) @ [CHR 0x0A]"

text \<open>Standard error as a string; the clock does not move while the statements run.\<close>

definition terminal :: "string \<Rightarrow> (string \<Rightarrow> 'arg list \<Rightarrow> string) \<Rightarrow> ('arg, string) stdio" where
  "terminal time fmt = \<lparr>clock_time = \<lambda>_. time, format_args = fmt, put_stderr = \<lambda>s out. out @ s\<rparr>"

lemma log_macro_installed:
  "log_macro l n (InstallExampleLogger io s) tag format args w =
     (if LogLevel_code l < n then ExampleLoggerCallback io l tag format args w else w)"
  by (cases l) (auto simp: log_macros log_levels InstallExampleLogger_def SetGlobalLogger_def GetGlobalLogger_def LogHelper_def)

text \<open>
  With the example logger installed, a program's log statements appear on standard error as one
  line each, in order and complete: those below the compile-time level, with time, a five-letter
  level, tag and formatted message; the others leave no trace.
\<close>

theorem example_log_lines:
  "run_log n (InstallExampleLogger (terminal time fmt) s) stmts out =
     out @ concat (map (log_line fmt time) (filter (\<lambda>l. LogLevel_code (stmt_level l) < n) stmts)) \<and>
   length (level_label l) = 5 \<and> (level_label l = level_label l' \<longleftrightarrow> l = l')"
proof
  show "run_log n (InstallExampleLogger (terminal time fmt) s) stmts out =
     out @ concat (map (log_line fmt time) (filter (\<lambda>l. LogLevel_code (stmt_level l) < n) stmts))"
    by (induction stmts arbitrary: out)
      (simp_all add: run_log_def log_macro_installed ExampleLoggerCallback_def log_line_def terminal_def Let_def)
  show "length (level_label l) = 5 \<and> (level_label l = level_label l' \<longleftrightarrow> l = l')"
    by (cases l; cases l') simp_all
qed

end
