(* ===== verification/Stream_Reentrancy.thy ===== *)
theory Stream_Reentrancy
  imports Stream_Processor
begin

section \<open>Callbacks that use the stream processor (src/stream_processor.cpp)\<close>

text \<open>
  \<open>Stream_Processor\<close> has callbacks that act on the world only. The code hands out control in the
  middle of its operations, so a callback may as well call \<open>reset\<close>, \<open>feed\<close> or \<open>getBufferUsage\<close> of
  the very processor that called it. Here the operations are modelled again with callbacks that see
  and change the processor's bytes: whatever the code reads after a call is what the call left.

  A move down from behind the end (\<open>etl::copy\<close> of a reversed range, a size that wraps) is undefined
  behaviour: \<open>None\<close>. No operation leaves the size above the capacity, so the space left is never
  negative. Callbacks that leave the processor alone give back the operations of \<open>Stream_Processor\<close>; the
  last sections say what \<open>reset\<close> and \<open>feed\<close> in a callback do. A callback that registers another one in its
  place is left out.
\<close>

subsection \<open>Operations\<close>

record 'w live =
  live_buffer :: "u8 list"
  live_size :: nat
  live_world :: 'w

text \<open>A callback is \<open>None\<close> where it has no result (undefined behaviour, or it does not return).\<close>

record 'w reactions =
  on_frame :: "(u8 list \<Rightarrow> 'w live \<Rightarrow> 'w live option) option"
  on_error :: "(int \<Rightarrow> string \<Rightarrow> 'w live \<Rightarrow> 'w live option) option"

definition live_reset :: "'w live \<Rightarrow> 'w live" where
  "live_reset s = s\<lparr>live_size := 0\<rparr>"

definition live_report :: "'w reactions \<Rightarrow> ErrorType \<Rightarrow> string \<Rightarrow> 'w live \<Rightarrow> 'w live option" where
  "live_report r e message s =
     (case on_error r of None \<Rightarrow> Some s | Some cb \<Rightarrow> cb (error_code e) message s)"

definition live_move_down :: "nat \<Rightarrow> 'w live \<Rightarrow> 'w live option" where
  "live_move_down k s =
     (if live_size s < k then None
      else do {
        bs \<leftarrow> read_at (live_buffer s) k (live_size s - k);
        b \<leftarrow> write_at (live_buffer s) 0 bs;
        Some (s\<lparr>live_buffer := b, live_size := live_size s - k\<rparr>)
      })"

definition live_trySync :: "'w reactions \<Rightarrow> 'w live \<Rightarrow> (bool \<times> 'w live) option" where
  "live_trySync r s = do {
     s1 \<leftarrow> live_report r SyncRecoveryAttempt ''Searching for frame header'' s;
     used \<leftarrow> read_at (live_buffer s1) 0 (live_size s1);
     case find (\<lambda>searchPos. used ! searchPos = 1) [1..<live_size s1] of
       Some searchPos \<Rightarrow> do { s2 \<leftarrow> live_move_down searchPos s1; Some (True, s2) }
     | None \<Rightarrow> Some (False, s1)
   }"

definition live_dataHandler :: "'w reactions \<Rightarrow> 'w live data_handler" where
  "live_dataHandler r payload payloadSize s = do {
     cb \<leftarrow> on_frame r;
     bs \<leftarrow> read_at payload 0 payloadSize;
     s1 \<leftarrow> cb bs s;
     Some (True, s1)
   }"

text \<open>\<open>size_ - expected\<close> is computed after the callbacks; it wraps if they have left less.\<close>

definition live_consume :: "nat \<Rightarrow> 'w live \<Rightarrow> 'w live option" where
  "live_consume expected s =
     (if live_size s = expected then Some (s\<lparr>live_size := 0\<rparr>) else live_move_down expected s)"

definition live_iteration :: "nat \<Rightarrow> 'w reactions \<Rightarrow> bool \<times> 'w live \<Rightarrow> (bool \<times> 'w live) iteration option" where
  "live_iteration szw r as =
     (case as of (any, s) \<Rightarrow>
      if live_size s < kHeaderSize then Some (Break (any, s))
      else do {
        payloadSize \<leftarrow> map_option of_le (read_at (live_buffer s) 4 4);
        let expected = frame_total szw payloadSize in
        if expected > kBufferCapacity then do {
          s1 \<leftarrow> live_report r InvalidFrameSize ''Frame size exceeds buffer capacity'' s;
          (found, s2) \<leftarrow> live_trySync r s1;
          Some (if found then Continue (any, s2) else Break (any, s2\<lparr>live_size := 0\<rparr>))
        }
        else if live_size s < kMinimumFrameSize then Some (Break (any, s))
        else if live_size s < expected then Some (Break (any, s))
        else do {
          (ok, s1) \<leftarrow> HandleIncoming szw (Some (live_buffer s)) expected (Some (live_dataHandler r)) s;
          if ok then do { s2 \<leftarrow> live_consume expected s1; Some (Continue (True, s2)) }
          else do {
            s2 \<leftarrow> live_report r CrcFailure ''Frame validation failed'' s1;
            (found, s3) \<leftarrow> live_trySync r s2;
            if found then Some (Continue (any, s3))
            else do { s4 \<leftarrow> live_consume expected s3; Some (Continue (any, s4)) }
          }
        }
      })"

partial_function (option) live_loop :: "nat \<Rightarrow> 'w reactions \<Rightarrow> bool \<times> 'w live \<Rightarrow> (bool \<times> 'w live) option" where
  "live_loop szw r as = do {
     it \<leftarrow> live_iteration szw r as;
     case it of Break as' \<Rightarrow> Some as' | Continue as' \<Rightarrow> live_loop szw r as'
   }"

definition live_extractFrames :: "nat \<Rightarrow> 'w reactions \<Rightarrow> 'w live \<Rightarrow> (bool \<times> 'w live) option" where
  "live_extractFrames szw r s = live_loop szw r (False, s)"

definition live_append :: "nat \<Rightarrow> 'w reactions \<Rightarrow> u8 list \<Rightarrow> nat \<Rightarrow> 'w live \<Rightarrow> 'w live option" where
  "live_append szw r mem n s = do {
     bs \<leftarrow> read_at mem 0 n;
     b \<leftarrow> write_at (live_buffer s) (live_size s) bs;
     (any, s1) \<leftarrow> live_extractFrames szw r (s\<lparr>live_buffer := b, live_size := live_size s + n\<rparr>);
     Some s1
   }"

definition live_feed :: "nat \<Rightarrow> 'w reactions \<Rightarrow> ptr \<Rightarrow> nat \<Rightarrow> 'w live \<Rightarrow> 'w live option" where
  "live_feed szw r data n s =
     (case data of
        None \<Rightarrow> Some s
      | Some mem \<Rightarrow>
          if n = 0 then Some s
          else if on_frame r = None
          then live_report r InvalidHeader ''Frame callback not registered'' s
          else if n > kBufferCapacity - live_size s then do {
            s1 \<leftarrow> live_report r BufferOverflow ''Insufficient buffer space'' s;
            (found, s2) \<leftarrow> live_trySync r s1;
            let s3 = (if found then s2 else s2\<lparr>live_size := 0\<rparr>);
            if n > kBufferCapacity - live_size s3 then Some s3
            else live_append szw r mem n s3
          }
          else live_append szw r mem n s)"

subsection \<open>Callbacks that leave the processor alone\<close>

definition live_of :: "'v stream_processor \<Rightarrow> 'w \<Rightarrow> 'w live" where
  "live_of sp w = \<lparr>live_buffer = sp_buffer sp, live_size = sp_size sp, live_world = w\<rparr>"

lemma live_of_simps [simp]:
  "live_buffer (live_of sp w) = sp_buffer sp" "live_size (live_of sp w) = sp_size sp" "live_world (live_of sp w) = w"
  "(live_of sp w)\<lparr>live_world := w'\<rparr> = live_of sp w'"
  "(live_of sp w)\<lparr>live_size := n\<rparr> = live_of (sp\<lparr>sp_size := n\<rparr>) w"
  "(live_of sp w)\<lparr>live_buffer := b, live_size := n\<rparr> = live_of (sp\<lparr>sp_buffer := b, sp_size := n\<rparr>) w"
  by (simp_all add: live_of_def)

text \<open>
  Callbacks that leave the processor alone on part of their worlds, those of the form \<open>e w\<close>: there
  they act as the callbacks \<open>fcb\<close> and \<open>ecb\<close> of \<open>Stream_Processor\<close> act on \<open>w\<close>.
\<close>

definition follows ::
  "('v \<Rightarrow> 'w) \<Rightarrow> 'w reactions \<Rightarrow> (u8 list \<Rightarrow> 'v \<Rightarrow> 'v) option \<Rightarrow> (int \<Rightarrow> string \<Rightarrow> 'v \<Rightarrow> 'v) option \<Rightarrow> bool" where
  "follows e r fcb ecb \<longleftrightarrow>
     (case (on_frame r, fcb) of (None, None) \<Rightarrow> True
      | (Some f, Some cb) \<Rightarrow> \<forall>bs s w. live_world s = e w \<longrightarrow> f bs s = Some (s\<lparr>live_world := e (cb bs w)\<rparr>)
      | _ \<Rightarrow> False) \<and>
     (case (on_error r, ecb) of (None, None) \<Rightarrow> True
      | (Some f, Some cb) \<Rightarrow> \<forall>n m s w. live_world s = e w \<longrightarrow> f n m s = Some (s\<lparr>live_world := e (cb n m w)\<rparr>)
      | _ \<Rightarrow> False)"

text \<open>A processor with these callbacks.\<close>

definition calls_back ::
  "(u8 list \<Rightarrow> 'w \<Rightarrow> 'w) option \<Rightarrow> (int \<Rightarrow> string \<Rightarrow> 'w \<Rightarrow> 'w) option \<Rightarrow> 'w stream_processor \<Rightarrow> bool" where
  "calls_back fcb ecb sp \<longleftrightarrow> frameCallback sp = fcb \<and> errorCallback sp = ecb"

lemma calls_back_update [simp]:
  "calls_back fcb ecb (sp\<lparr>sp_buffer := b\<rparr>) = calls_back fcb ecb sp"
  "calls_back fcb ecb (sp\<lparr>sp_size := n\<rparr>) = calls_back fcb ecb sp"
  "calls_back fcb ecb (sp\<lparr>sp_buffer := b, sp_size := n\<rparr>) = calls_back fcb ecb sp"
  by (simp_all add: calls_back_def)

lemma live_report_of:
  assumes "follows e r fcb ecb" and "calls_back fcb ecb sp"
  shows "live_report r t m (live_of sp (e w)) = Some (live_of sp (e (reportError sp t m w)))"
  using assms by (auto simp: live_report_def follows_def reportError_def calls_back_def split: option.splits)

lemma follows_frame:
  assumes "follows e r fcb ecb"
  shows "on_frame r = None \<longleftrightarrow> fcb = None"
    and "on_frame r = Some f \<Longrightarrow> fcb = Some cb \<Longrightarrow> f bs (live_of sp (e w)) = Some (live_of sp (e (cb bs w)))"
  using assms by (auto simp: follows_def split: option.splits)

lemma live_move_down_of:
  "k \<le> sp_size sp \<Longrightarrow> live_move_down k (live_of sp w) = map_option (\<lambda>sp'. live_of sp' w) (move_down k sp)"
  by (simp add: live_move_down_def move_down_def split: bind_splits)

lemma live_consume_of:
  assumes "k \<le> sp_size sp"
  shows "live_consume k (live_of sp w) = map_option (\<lambda>sp'. live_of sp' w) (consume k sp)"
  using assms live_move_down_of [OF assms, of w] by (cases "sp_size sp = k") (simp_all add: live_consume_def consume_def)

text \<open>What the steps of the loop keep of the processor.\<close>

lemma move_down_keeps: "move_down k sp = Some sp' \<Longrightarrow> calls_back fcb ecb sp' = calls_back fcb ecb sp \<and> sp_size sp' = sp_size sp - k"
  by (auto simp: move_down_def bind_eq_Some_conv)

lemma consume_keeps: "consume k sp = Some sp' \<Longrightarrow> calls_back fcb ecb sp' = calls_back fcb ecb sp"
  by (auto simp: consume_def Let_def dest: move_down_keeps [of _ _ _ fcb ecb] split: if_splits)

lemma trySync_keeps: "trySync sp w = Some (found, sp', w') \<Longrightarrow>
    calls_back fcb ecb sp' = calls_back fcb ecb sp \<and> (\<not> found \<longrightarrow> sp' = sp)"
  by (auto simp: trySync_def Let_def bind_eq_Some_conv dest: move_down_keeps [of _ _ _ fcb ecb] split: option.splits)

lemma live_trySync_of:
  assumes "follows e r fcb ecb" and "calls_back fcb ecb sp"
  shows "live_trySync r (live_of sp (e w)) =
     map_option (\<lambda>(found, sp', w'). (found, live_of sp' (e w'))) (trySync sp w)"
proof -
  have "k \<le> sp_size sp" if "find P [1..<sp_size sp] = Some k" for P k
    using that by (auto simp: find_Some_iff)
  then show ?thesis
    by (auto simp: live_trySync_def trySync_def live_report_of [OF assms] live_move_down_of
        split: bind_splits option.splits)
qed

lemma live_dataHandler_of:
  assumes "follows e r fcb ecb" and "calls_back fcb ecb sp"
  shows "live_dataHandler r bs n (live_of sp (e w)) = map_option (\<lambda>(ok, w'). (ok, live_of sp (e w'))) (dataHandler sp bs n w)"
proof (cases "on_frame r")
  case None
  with assms follows_frame(1) [OF assms(1)] show ?thesis by (simp add: live_dataHandler_def dataHandler_def calls_back_def)
next
  case (Some f)
  then obtain cb where cb: "fcb = Some cb" using follows_frame(1) [OF assms(1)] by auto
  have "f v (live_of sp (e w)) = Some (live_of sp (e (cb v w)))" for v
    by (rule follows_frame(2) [OF assms(1) Some cb])
  with Some cb assms(2) show ?thesis
    by (simp add: live_dataHandler_def dataHandler_def calls_back_def split: bind_split)
qed

lemma live_handle_of:
  assumes "follows e r fcb ecb" and "calls_back fcb ecb sp"
  shows "HandleIncoming szw data n (Some (live_dataHandler r)) (live_of sp (e w)) =
     map_option (\<lambda>(ok, w'). (ok, live_of sp (e w'))) (HandleIncoming szw data n (Some (dataHandler sp)) w)"
  by (rule HandleIncoming_map [where f = "\<lambda>w. live_of sp (e w)"]) (rule live_dataHandler_of [OF assms])

definition live_at :: "('v \<Rightarrow> 'w) \<Rightarrow> bool \<times> 'v stream_processor \<times> 'v \<Rightarrow> bool \<times> 'w live" where
  "live_at e s = (case s of (any, sp, w) \<Rightarrow> (any, live_of sp (e w)))"

lemma live_at_simp [simp]: "live_at e (any, sp, w) = (any, live_of sp (e w))"
  by (simp add: live_at_def)

lemma live_recover_of:
  assumes "follows e r fcb ecb" and "calls_back fcb ecb sp" and "\<not> sp_size sp < n"
  shows "(do { (found, s3) \<leftarrow> live_trySync r (live_of sp (e w));
           if found then Some (Continue (any, s3))
           else do { s4 \<leftarrow> live_consume n s3; Some (Continue (any, s4)) } }) =
     map_option (map_iteration (live_at e)) (do { (found, sp1, w1) \<leftarrow> trySync sp w;
           if found then Some (Continue (any, sp1, w1))
           else do { sp2 \<leftarrow> consume n sp1; Some (Continue (any, sp2, w1)) } })"
proof (cases "trySync sp w")
  case None
  then show ?thesis by (simp add: live_trySync_of [OF assms(1,2)])
next
  case (Some t)
  obtain found sp1 w1 where t: "t = (found, sp1, w1)" by (cases t)
  have "\<not> found \<Longrightarrow> sp1 = sp" using trySync_keeps [of sp w found sp1 w1 fcb ecb] Some t by simp
  with Some t assms(3) show ?thesis
    by (cases found; cases "consume n sp") (simp_all add: live_trySync_of [OF assms(1,2)] live_consume_of)
qed

lemma live_iteration_of:
  assumes "follows e r fcb ecb" and "calls_back fcb ecb sp"
  shows "live_iteration szw r (any, live_of sp (e w)) = map_option (map_iteration (live_at e)) (extract_iteration szw (any, sp, w))"
proof (cases "read_at (sp_buffer sp) 4 4")
  case None
  then show ?thesis by (simp add: live_iteration_def extract_iteration_def)
next
  case (Some bs)
  let ?n = "frame_total szw (of_le bs)"
  consider "sp_size sp < kHeaderSize" | "\<not> sp_size sp < kHeaderSize" "?n > kBufferCapacity"
    | "\<not> sp_size sp < kHeaderSize" "\<not> ?n > kBufferCapacity" "sp_size sp < kMinimumFrameSize \<or> sp_size sp < ?n"
    | "\<not> sp_size sp < kHeaderSize" "\<not> ?n > kBufferCapacity" "\<not> sp_size sp < kMinimumFrameSize" "\<not> sp_size sp < ?n"
    by blast
  then show ?thesis
  proof cases
    case 2
    obtain s1 where s1: "s1 = reportError sp InvalidFrameSize ''Frame size exceeds buffer capacity'' w" by simp
    with 2 Some show ?thesis
      by (cases "trySync sp s1")
        (auto simp: live_iteration_def extract_iteration_def live_report_of [OF assms] live_trySync_of [OF assms])
  next
    case 4
    note now = live_iteration_def extract_iteration_def live_handle_of [OF assms]
    show ?thesis
    proof (cases "HandleIncoming szw (Some (sp_buffer sp)) ?n (Some (dataHandler sp)) w")
      case None
      with 4 Some show ?thesis by (simp add: now)
    next
      case h: (Some t)
      obtain ok w1 where t: "t = (ok, w1)" by (cases t)
      show ?thesis
      proof (cases ok)
        case True
        with 4 Some h t show ?thesis by (cases "consume ?n sp") (simp_all add: now live_consume_of)
      next
        case False
        with 4 Some h t live_recover_of [OF assms 4(4), of "reportError sp CrcFailure ''Frame validation failed'' w1" any] show ?thesis
          by (simp add: now live_report_of [OF assms])
      qed
    qed
  qed (use Some in \<open>auto simp: live_iteration_def extract_iteration_def Let_def\<close>)
qed

primrec it_state :: "'s iteration \<Rightarrow> 's" where
  "it_state (Break s) = s"
| "it_state (Continue s) = s"

lemma iteration_keeps:
  assumes "extract_iteration szw (any, sp, w) = Some it"
  shows "calls_back fcb ecb (fst (snd (it_state it))) = calls_back fcb ecb sp"
  using assms
  by (auto simp: extract_iteration_def Let_def bind_eq_Some_conv
      dest!: trySync_keeps [of _ _ _ _ _ fcb ecb] consume_keeps [of _ _ _ fcb ecb] split: if_splits)

lemma loop_of:
  fixes s s' :: "bool \<times> 'v stream_processor \<times> 'v"
  assumes "extract_loop szw s = Some s'" and r: "follows e r fcb ecb"
  shows "calls_back fcb ecb (fst (snd s)) \<longrightarrow> live_loop szw r (live_at e s) = Some (live_at e s')"
proof (rule extract_loop.raw_induct [OF _ assms(1)], intro impI)
  fix loop szw and s s' :: "bool \<times> 'v stream_processor \<times> 'v"
  assume ih: "\<And>szw s s'. loop szw s = Some s' \<Longrightarrow> calls_back fcb ecb (fst (snd s)) \<longrightarrow>
      live_loop szw r (live_at e s) = Some (live_at e s')"
    and body: "(extract_iteration szw s \<bind> (\<lambda>it. case it of Break s' \<Rightarrow> Some s' | Continue s' \<Rightarrow> loop szw s')) = Some s'"
    and cb: "calls_back fcb ecb (fst (snd s))"
  obtain any sp w where s: "s = (any, sp, w)" by (cases s)
  from body obtain it where it: "extract_iteration szw s = Some it"
    and rest: "(case it of Break s'' \<Rightarrow> Some s'' | Continue s'' \<Rightarrow> loop szw s'') = Some s'"
    by (auto simp: bind_eq_Some_conv)
  have live: "live_iteration szw r (live_at e s) = Some (map_iteration (live_at e) it)"
    using live_iteration_of [OF r, of sp szw any w] it s cb by simp
  have kept: "calls_back fcb ecb (fst (snd (it_state it)))"
    using iteration_keeps [of szw any sp w it fcb ecb] it s cb by simp
  show "live_loop szw r (live_at e s) = Some (live_at e s')"
  proof (cases it)
    case (Break s'')
    with rest live show ?thesis by (subst live_loop.simps) simp
  next
    case (Continue s'')
    with rest live kept ih [of szw s'' s'] show ?thesis by (subst live_loop.simps) simp
  qed
qed

lemma of_loop:
  fixes as as' :: "bool \<times> 'w live" and e :: "'v \<Rightarrow> 'w"
  assumes "live_loop szw r as = Some as'"
  shows "\<forall>s. follows e r fcb ecb \<and> as = live_at e s \<and> calls_back fcb ecb (fst (snd s)) \<longrightarrow> extract_loop szw s \<noteq> None"
proof (rule live_loop.raw_induct [OF _ assms], intro allI impI, elim conjE)
  fix loop szw r and as as' :: "bool \<times> 'w live" and s :: "bool \<times> 'v stream_processor \<times> 'v"
  assume ih: "\<And>szw r as as'. loop szw r as = Some as' \<Longrightarrow>
      \<forall>s. follows e r fcb ecb \<and> as = live_at e s \<and> calls_back fcb ecb (fst (snd s)) \<longrightarrow> extract_loop szw s \<noteq> None"
    and body: "(live_iteration szw r as \<bind> (\<lambda>it. case it of Break as' \<Rightarrow> Some as' | Continue as' \<Rightarrow> loop szw r as')) = Some as'"
    and r: "follows e r fcb ecb" and as: "as = live_at e s" and cb: "calls_back fcb ecb (fst (snd s))"
  obtain any sp w where s: "s = (any, sp, w)" by (cases s)
  from body as s cb obtain it where it: "extract_iteration szw s = Some it"
    and rest: "(case map_iteration (live_at e) it of Break s'' \<Rightarrow> Some s'' | Continue s'' \<Rightarrow> loop szw r s'') = Some as'"
    by (auto simp: bind_eq_Some_conv live_iteration_of [OF r])
  show "extract_loop szw s \<noteq> None"
  proof (cases it)
    case (Break s'')
    with it show ?thesis by (subst extract_loop.simps) simp
  next
    case (Continue s'')
    have "calls_back fcb ecb (fst (snd s''))"
      using iteration_keeps [of szw any sp w it fcb ecb] it cb Continue s by simp
    moreover have "loop szw r (live_at e s'') = Some as'" using rest Continue by simp
    from ih [OF this] have "\<forall>s. follows e r fcb ecb \<and> live_at e s'' = live_at e s \<and> calls_back fcb ecb (fst (snd s)) \<longrightarrow>
      extract_loop szw s \<noteq> None" .
    ultimately have "extract_loop szw s'' \<noteq> None" using r by blast
    with it Continue show ?thesis by (subst extract_loop.simps) simp
  qed
qed

lemma live_loop_of:
  assumes "follows e r fcb ecb" and "calls_back fcb ecb sp"
  shows "live_loop szw r (any, live_of sp (e w)) = map_option (live_at e) (extract_loop szw (any, sp, w))"
proof (cases "extract_loop szw (any, sp, w)")
  case None
  show ?thesis
  proof (cases "live_loop szw r (any, live_of sp (e w))")
    case (Some as')
    from of_loop [OF this, of e fcb ecb] assms None show ?thesis by force
  qed (simp add: None)
next
  case (Some s')
  with loop_of [OF Some assms(1)] assms show ?thesis by (cases s') simp
qed

lemma live_append_of:
  assumes "follows e r fcb ecb" and "calls_back fcb ecb sp"
  shows "live_append szw r mem n (live_of sp (e w)) =
     map_option (\<lambda>(sp, w). live_of sp (e w)) (append_chunk szw mem n sp w)"
proof -
  have "live_extractFrames szw r (live_of (sp\<lparr>sp_buffer := b, sp_size := k\<rparr>) (e w)) =
      map_option (live_at e) (extractFrames szw (sp\<lparr>sp_buffer := b, sp_size := k\<rparr>) w)" for b k
    unfolding live_extractFrames_def extractFrames_def by (rule live_loop_of [OF assms(1)]) (use assms in simp)
  then show ?thesis
    by (auto simp: live_append_def append_chunk_def split: bind_splits)
qed

text \<open>Such callbacks give back \<open>feed\<close> of \<open>Stream_Processor\<close>, also where it does not return.\<close>

lemma live_feed_of:
  assumes "follows e r fcb ecb" and "calls_back fcb ecb sp"
  shows "live_feed szw r data n (live_of sp (e w)) = map_option (\<lambda>(sp', w'). live_of sp' (e w')) (feed szw data n sp w)"
proof -
  have none: "on_frame r = None \<longleftrightarrow> frameCallback sp = None"
    using follows_frame(1) [OF assms(1)] assms(2) by (simp add: calls_back_def)
  have recover: "(do { (found, s2) \<leftarrow> live_trySync r (live_of sp (e w1));
        let s3 = (if found then s2 else s2\<lparr>live_size := 0\<rparr>);
        if n > kBufferCapacity - live_size s3 then Some s3 else live_append szw r mem n s3 }) =
      map_option (\<lambda>(sp', w'). live_of sp' (e w')) (do { (found, sp1, w2) \<leftarrow> trySync sp w1;
        let sp2 = (if found then sp1 else sp1\<lparr>sp_size := 0\<rparr>);
        if n > kBufferCapacity - sp_size sp2 then Some (sp2, w2) else append_chunk szw mem n sp2 w2 })" for mem w1
  proof (cases "trySync sp w1")
    case None
    then show ?thesis by (simp add: live_trySync_of [OF assms])
  next
    case (Some t)
    obtain found sp1 w2 where t: "t = (found, sp1, w2)" by (cases t)
    have "calls_back fcb ecb sp1"
      using trySync_keeps [OF Some [unfolded t]] assms(2) by blast
    then show ?thesis using Some t by (auto simp: live_trySync_of [OF assms] live_append_of [OF assms(1)] Let_def)
  qed
  show ?thesis
    by (cases data) (auto simp: live_feed_def feed_def none live_report_of [OF assms] recover live_append_of [OF assms])
qed

subsection \<open>One pass with any callbacks\<close>

lemma live_handle_front:
  assumes "sp_ok sp" and "on_frame r = Some cb" and "32 \<le> szw" and "n \<le> sp_size sp"
  shows "HandleIncoming szw (Some (sp_buffer sp)) n (Some (live_dataHandler r)) s =
    (if frame_ok (take n (sp_contents sp)) then map_option (Pair True) (cb (frame_payload (take n (sp_contents sp))) s)
     else Some (False, s))"
proof -
  have n: "n \<le> length (sp_buffer sp)" "n \<le> 4108"
    using assms by (simp_all add: sp_ok_def stream_consts)
  have "(4108::nat) < 2 ^ 32" by simp
  also have "(2::nat) ^ 32 \<le> 2 ^ szw" by (rule power_increasing) (use assms in simp_all)
  finally have lt: "n < 2 ^ szw" using n by linarith
  have front: "take n (sp_buffer sp) = take n (sp_contents sp)"
    using assms(4) by (simp add: sp_contents_def min_def)
  have "frame_payload (take n (sp_contents sp)) = take (n - 12) (drop 8 (sp_buffer sp))"
    using n by (simp add: frame_payload_def drop_take flip: front)
  moreover have "n - 12 \<le> length (drop 8 (sp_buffer sp))" using n by simp
  ultimately have "live_dataHandler r (drop 8 (sp_buffer sp)) (n - 12) s
      = map_option (Pair True) (cb (frame_payload (take n (sp_contents sp))) s)"
    using assms(2) by (simp add: live_dataHandler_def mem_simps split: bind_split)
  then show ?thesis
    using HandleIncoming_eq [OF assms(3) lt n(1), of "Some (live_dataHandler r)" s] front by simp
qed

lemma live_iteration_whole:
  assumes "sp_ok sp" and "32 \<le> szw" and "on_frame r = Some cb" and "n = announced szw (sp_contents sp)"
    and "12 \<le> sp_size sp" and "n \<le> sp_size sp" and "frame_ok (take n (sp_contents sp))"
  shows "live_iteration szw r (any, live_of sp w) = do {
      s1 \<leftarrow> cb (frame_payload (take n (sp_contents sp))) (live_of sp w);
      s2 \<leftarrow> live_consume n s1;
      Some (Continue (True, s2)) }"
proof -
  have "n \<le> kBufferCapacity" using assms(1,6) by (simp add: sp_ok_def)
  with assms live_handle_front [OF assms(1,3,2,6)] show ?thesis
    by (simp add: live_iteration_def declared_size_contents announced_def stream_consts Let_def split: bind_splits)
qed

lemma live_loop_continue:
  "live_iteration szw r as = Some (Continue as') \<Longrightarrow> live_loop szw r as = live_loop szw r as'"
  by (subst live_loop.simps) simp

lemma live_loop_break: "live_iteration szw r as = Some (Break as') \<Longrightarrow> live_loop szw r as = Some as'"
  by (subst live_loop.simps) simp

lemma live_loop_fails: "live_iteration szw r as = None \<Longrightarrow> live_loop szw r as = None"
  by (subst live_loop.simps) simp

text \<open>A chunk that fits, appended.\<close>

lemma live_feed_fits:
  assumes "sp_ok sp" and "on_frame r = Some cb" and "chunk \<noteq> []" and "sp_size sp + length chunk \<le> kBufferCapacity"
  obtains sp' where "holds sp sp' (sp_contents sp @ chunk)"
    and "live_feed szw r (Some chunk) (length chunk) (live_of sp w) = map_option snd (live_loop szw r (False, live_of sp' w))"
proof
  let ?b = "take (sp_size sp) (sp_buffer sp) @ chunk @ drop (sp_size sp + length chunk) (sp_buffer sp)"
  let ?sp = "sp\<lparr>sp_buffer := ?b, sp_size := sp_size sp + length chunk\<rparr>"
  have len: "length (sp_buffer sp) = kBufferCapacity" "sp_size sp \<le> kBufferCapacity"
    using assms(1) by (simp_all add: sp_ok_def)
  then show "holds sp ?sp (sp_contents sp @ chunk)"
    using assms(4) by (simp add: holds_def sp_ok_def sp_contents_def)
  have b: "write_at (sp_buffer sp) (sp_size sp) chunk = Some ?b"
    using assms(4) len by (simp add: write_at_def)
  have "\<not> length chunk > kBufferCapacity - sp_size sp" using assms(4) by simp
  then show "live_feed szw r (Some chunk) (length chunk) (live_of sp w) = map_option snd (live_loop szw r (False, live_of ?sp w))"
    using assms(2,3) b by (simp add: live_feed_def live_append_def live_extractFrames_def mem_simps split: bind_split)
qed

lemma sp_size_new [simp]: "sp_size (StreamProcessor wr) = 0"
  by (simp add: StreamProcessor_def)

subsection \<open>Callbacks that reset the processor\<close>

definition resets_on_frame :: "(u8 list \<Rightarrow> 'w \<Rightarrow> 'w) \<Rightarrow> 'w reactions \<Rightarrow> bool" where
  "resets_on_frame g r \<longleftrightarrow> on_frame r = Some (\<lambda>bs s. Some (live_reset (s\<lparr>live_world := g bs (live_world s)\<rparr>)))"

definition resets_on_error :: "(int \<Rightarrow> string \<Rightarrow> 'w \<Rightarrow> 'w) \<Rightarrow> 'w reactions \<Rightarrow> bool" where
  "resets_on_error g r \<longleftrightarrow> on_error r = Some (\<lambda>e message s. Some (live_reset (s\<lparr>live_world := g e message (live_world s)\<rparr>)))"

text \<open>
  A frame callback must not call \<open>reset\<close>: whenever a chunk completes a valid frame at the front of
  the buffer, the size that is left after the callback is 0, the rest to be moved is computed as 0
  minus the frame's length, and \<open>feed\<close> moves memory from outside the buffer.
\<close>

theorem reset_in_frame_callback:
  assumes "sp_ok sp" and "32 \<le> szw" and "resets_on_frame g r" and "chunk \<noteq> []" and "length p \<le> kMaxFrameSize"
    and "sp_contents sp @ chunk = data_frame seq p @ rest" and "sp_size sp + length chunk \<le> kBufferCapacity"
  shows "live_feed szw r (Some chunk) (length chunk) (live_of sp w) = None"
proof -
  let ?cb = "\<lambda>bs s. Some (live_reset (s\<lparr>live_world := g bs (live_world s)\<rparr>))"
  have r: "on_frame r = Some ?cb" using assms(3) by (simp add: resets_on_frame_def)
  from live_feed_fits [OF assms(1) r assms(4,7)] obtain sp' where
    h: "holds sp sp' (sp_contents sp @ chunk)" and
    f: "live_feed szw r (Some chunk) (length chunk) (live_of sp w) = map_option snd (live_loop szw r (False, live_of sp' w))" .
  let ?n = "length (data_frame seq p)"
  have ok: "sp_ok sp'" and con: "sp_contents sp' = data_frame seq p @ rest" using h assms(6) by (simp_all add: holds_def)
  have n: "?n = announced szw (sp_contents sp')" unfolding con using announced_frame [OF assms(2,5), of seq rest] by simp
  have size: "12 \<le> sp_size sp'" "?n \<le> sp_size sp'" using length_contents [OF ok] con by simp_all
  have whole: "frame_ok (take ?n (sp_contents sp'))" using wire.valid_enc [OF assms(5), of seq] by (simp add: con)
  have "live_iteration szw r (False, live_of sp' w) = None"
    using live_iteration_whole [OF ok assms(2) r n size whole, of False w]
    by (simp add: live_reset_def live_consume_def live_move_down_def)
  then show ?thesis by (simp add: f live_loop_fails)
qed

theorem reset_in_frame_callback_witness:
  "live_feed 64 \<lparr>on_frame = Some (\<lambda>bs s. Some (live_reset (s\<lparr>live_world := live_world s @ [bs]\<rparr>))), on_error = None\<rparr>
     (Some (data_frame 1 [5])) 13 (live_of (StreamProcessor None) []) = None"
  using reset_in_frame_callback [of "StreamProcessor None" 64 "\<lambda>bs log. log @ [bs]"
      "\<lparr>on_frame = Some (\<lambda>bs s. Some (live_reset (s\<lparr>live_world := live_world s @ [bs]\<rparr>))), on_error = None\<rparr>"
      "data_frame 1 [5]" "[5]" 1 "[]" "[]"]
  by (simp add: sp_ok_new resets_on_frame_def stream_consts)

text \<open>
  The error callback gets its first report before \<open>trySync\<close> looks for a header, so a reset there
  leaves nothing to search, and the second report resets again.
\<close>

definition twice_reset :: "(int \<Rightarrow> string \<Rightarrow> 'w \<Rightarrow> 'w) \<Rightarrow> ErrorType \<Rightarrow> string \<Rightarrow> 'w live \<Rightarrow> 'w live" where
  "twice_reset g e m s =
     live_reset (s\<lparr>live_world := g 4 ''Searching for frame header'' (g (error_code e) m (live_world s))\<rparr>)"

lemma reset_and_search:
  assumes "resets_on_error g r"
  obtains s1 where "live_report r e m s = Some s1" and "live_trySync r s1 = Some (False, twice_reset g e m s)"
  using assms
  by (simp add: live_report_def resets_on_error_def live_trySync_def twice_reset_def live_reset_def read_at_def)

lemma live_size_twice [simp]:
  "live_size (twice_reset g e m s) = 0" "(twice_reset g e m s)\<lparr>live_size := 0\<rparr> = twice_reset g e m s"
  by (simp_all add: twice_reset_def live_reset_def)

lemma live_iteration_oversize:
  assumes "sp_ok sp" and "8 \<le> sp_size sp" and "announced szw (sp_contents sp) > kBufferCapacity"
    and "resets_on_error g r"
  shows "live_iteration szw r (any, live_of sp w) =
    Some (Break (any, twice_reset g InvalidFrameSize ''Frame size exceeds buffer capacity'' (live_of sp w)))"
proof (rule reset_and_search [OF assms(4)])
  fix s1
  assume "live_report r InvalidFrameSize ''Frame size exceeds buffer capacity'' (live_of sp w) = Some s1"
    and "live_trySync r s1 =
      Some (False, twice_reset g InvalidFrameSize ''Frame size exceeds buffer capacity'' (live_of sp w))"
  with assms show ?thesis
    by (simp add: live_iteration_def declared_size_contents announced_def size_consts)
qed

lemma live_iteration_bad:
  assumes "sp_ok sp" and "32 \<le> szw" and "on_frame r = Some cb" and "resets_on_error g r"
    and "n = announced szw (sp_contents sp)" and "12 \<le> sp_size sp" and "n \<le> sp_size sp" and "0 < n"
    and "\<not> frame_ok (take n (sp_contents sp))"
  shows "live_iteration szw r (any, live_of sp w) = None"
proof (rule reset_and_search [OF assms(4)])
  fix s1
  assume s1: "live_report r CrcFailure ''Frame validation failed'' (live_of sp w) = Some s1"
    "live_trySync r s1 = Some (False, twice_reset g CrcFailure ''Frame validation failed'' (live_of sp w))"
  have "n \<le> kBufferCapacity" using assms(1,7) by (simp add: sp_ok_def)
  with assms s1 live_handle_front [OF assms(1,3,2,7), of "live_of sp w"] show ?thesis
    by (simp add: live_iteration_def declared_size_contents announced_def stream_consts Let_def
        live_consume_def live_move_down_def)
qed

text \<open>
  C23. A reset in the error callback is safe where the buffer is given up anyway and fatal elsewhere:
  after a chunk that does not fit, the chunk is handled as by a processor just reset; after a header
  that announces more than the buffer, \<open>feed\<close> returns with an empty buffer; but after a complete
  frame that fails its check, the rest to be moved is again computed as 0 minus the frame's length.
\<close>

theorem reset_in_error_callback:
  assumes "sp_ok sp" and "32 \<le> szw" and "on_frame r = Some cb" and "resets_on_error g r"
    and "chunk \<noteq> []" and "length chunk \<le> kBufferCapacity" and "xs = sp_contents sp @ chunk" and "n = announced szw xs"
  shows "(length xs > kBufferCapacity \<longrightarrow> live_feed szw r (Some chunk) (length chunk) (live_of sp w) =
      live_feed szw r (Some chunk) (length chunk) (twice_reset g BufferOverflow ''Insufficient buffer space'' (live_of sp w))) \<and>
    (8 \<le> length xs \<and> length xs \<le> kBufferCapacity \<and> n > kBufferCapacity \<longrightarrow>
      (\<exists>s. live_feed szw r (Some chunk) (length chunk) (live_of sp w) = Some s \<and> live_size s = 0)) \<and>
    (12 \<le> length xs \<and> length xs \<le> kBufferCapacity \<and> 0 < n \<and> n \<le> length xs \<and> \<not> frame_ok (take n xs) \<longrightarrow>
      live_feed szw r (Some chunk) (length chunk) (live_of sp w) = None)"
proof (intro conjI impI)
  assume over: "length xs > kBufferCapacity"
  show "live_feed szw r (Some chunk) (length chunk) (live_of sp w) =
      live_feed szw r (Some chunk) (length chunk) (twice_reset g BufferOverflow ''Insufficient buffer space'' (live_of sp w))"
  proof (rule reset_and_search [OF assms(4)])
    fix s1
    assume "live_report r BufferOverflow ''Insufficient buffer space'' (live_of sp w) = Some s1"
      "live_trySync r s1 = Some (False, twice_reset g BufferOverflow ''Insufficient buffer space'' (live_of sp w))"
    moreover have "length chunk > kBufferCapacity - sp_size sp"
      using over assms(1,7) length_contents [OF assms(1)] unfolding sp_ok_def by auto
    ultimately show ?thesis using assms(3,5,6) by (simp add: live_feed_def)
  qed
next
  assume c: "8 \<le> length xs \<and> length xs \<le> kBufferCapacity \<and> n > kBufferCapacity"
  with assms(1,7) have "sp_size sp + length chunk \<le> kBufferCapacity" by (simp add: length_contents)
  from live_feed_fits [OF assms(1,3,5) this] obtain sp' where h: "holds sp sp' xs"
    and f: "live_feed szw r (Some chunk) (length chunk) (live_of sp w) = map_option snd (live_loop szw r (False, live_of sp' w))"
    unfolding assms(7) .
  have sp': "sp_ok sp'" "sp_contents sp' = xs" "8 \<le> sp_size sp'" using h c length_contents [of sp'] by (auto simp: holds_def)
  show "\<exists>s. live_feed szw r (Some chunk) (length chunk) (live_of sp w) = Some s \<and> live_size s = 0"
    using live_loop_break [OF live_iteration_oversize [OF sp'(1,3) _ assms(4), of szw False w]] c assms(8) sp'(2)
    by (simp add: f)
next
  assume c: "12 \<le> length xs \<and> length xs \<le> kBufferCapacity \<and> 0 < n \<and> n \<le> length xs \<and> \<not> frame_ok (take n xs)"
  with assms(1,7) have "sp_size sp + length chunk \<le> kBufferCapacity" by (simp add: length_contents)
  from live_feed_fits [OF assms(1,3,5) this] obtain sp' where h: "holds sp sp' xs"
    and f: "live_feed szw r (Some chunk) (length chunk) (live_of sp w) = map_option snd (live_loop szw r (False, live_of sp' w))"
    unfolding assms(7) .
  have sp': "sp_ok sp'" "sp_contents sp' = xs" "sp_size sp' = length xs" using h length_contents [of sp'] by (auto simp: holds_def)
  have "live_iteration szw r (False, live_of sp' w) = None"
    by (rule live_iteration_bad [OF sp'(1) assms(2-4), of n]) (use c assms(8) sp' in auto)
  then show "live_feed szw r (Some chunk) (length chunk) (live_of sp w) = None" by (simp add: f live_loop_fails)
qed

theorem reset_in_error_callback_witness:
  "live_feed 64 \<lparr>on_frame = Some (\<lambda>bs s. Some s), on_error = Some (\<lambda>e m s. Some (live_reset (s\<lparr>live_world := live_world s @ [e]\<rparr>)))\<rparr>
     (Some [2, 0, 0, 0, 0, 0, 0, 0, 0, 0, 0, 0]) 12 (live_of (StreamProcessor None) []) = None"
proof -
  let ?c = "[2, 0, 0, 0, 0, 0, 0, 0, 0, 0, 0, 0] :: u8 list"
  have "announced 64 ?c = 12" by (simp add: announced_wide frame_length_def declared_size_def)
  moreover have "\<not> frame_ok ?c" by (simp add: frame_ok_def frame_consts)
  ultimately show ?thesis
    using reset_in_error_callback [of "StreamProcessor None" 64
        "\<lparr>on_frame = Some (\<lambda>bs s. Some s), on_error = Some (\<lambda>e m s. Some (live_reset (s\<lparr>live_world := live_world s @ [e]\<rparr>)))\<rparr>"
        "\<lambda>bs s. Some s" "\<lambda>e m log. log @ [e]" ?c ?c 12 "[]"]
    by (simp add: sp_ok_new resets_on_error_def stream_consts numeral_eq_Suc)
qed

subsection \<open>Callbacks that feed the processor\<close>

text \<open>
  A frame callback that, once, feeds a chunk to the processor that called it: beside its own world
  there is the chunk still to be fed. The inner \<open>feed\<close> calls the same callback again; the depth
  bounds how often it can be nested. Two levels are enough, since the chunk is fed only once, and the
  property holds for every depth from 2 on.
\<close>

definition reacting ::
  "(int \<Rightarrow> string \<Rightarrow> 'w \<Rightarrow> 'w) option \<Rightarrow> (u8 list \<Rightarrow> ('w \<times> 'p) live \<Rightarrow> ('w \<times> 'p) live option) \<Rightarrow> ('w \<times> 'p) reactions" where
  "reacting ecb f =
     \<lparr>on_frame = Some f, on_error = map_option (\<lambda>g n m s. Some (s\<lparr>live_world := apfst (g n m) (live_world s)\<rparr>)) ecb\<rparr>"

primrec feeding ::
  "nat \<Rightarrow> (u8 list \<Rightarrow> 'w \<Rightarrow> 'w) \<Rightarrow> (int \<Rightarrow> string \<Rightarrow> 'w \<Rightarrow> 'w) option \<Rightarrow> nat \<Rightarrow>
   u8 list \<Rightarrow> ('w \<times> u8 list option) live \<Rightarrow> ('w \<times> u8 list option) live option" where
  "feeding szw cb ecb 0 = (\<lambda>bs s. None)"
| "feeding szw cb ecb (Suc depth) = (\<lambda>bs s.
     case live_world s of (w, to_feed) \<Rightarrow>
       let s1 = s\<lparr>live_world := (cb bs w, None)\<rparr> in
       case to_feed of None \<Rightarrow> Some s1
       | Some c \<Rightarrow> live_feed szw (reacting ecb (feeding szw cb ecb depth)) (Some c) (length c) s1)"

text \<open>With nothing left to feed, the callback leaves the processor alone.\<close>

lemma follows_feeding:
  "follows (\<lambda>w. (w, None)) (reacting ecb (feeding szw cb ecb (Suc depth))) (Some cb) ecb"
  by (simp add: follows_def reacting_def split: option.split)

lemma live_consume_holds:
  assumes "sp_ok sp" and "k \<le> sp_size sp"
  obtains sp' where "live_consume k (live_of sp w) = Some (live_of sp' w)" and "holds sp sp' (drop k (sp_contents sp))"
  using consume_holds [OF assms] live_consume_of [OF assms(2), of w] by auto

lemma calls_back_holds: "holds sp sp' xs \<Longrightarrow> calls_back fcb ecb sp' = calls_back fcb ecb sp"
  by (simp add: holds_def calls_back_def)

text \<open>The loop with callbacks that leave the processor alone is the scanner.\<close>

lemma live_loop_scan:
  assumes "32 \<le> szw" and "sp_ok sp" and "follows e r (Some cb) ecb" and "calls_back (Some cb) ecb sp"
  shows "case scan_result szw (sp_contents sp) of
      None \<Rightarrow> live_loop szw r (any, live_of sp (e w)) = None
    | Some (evs, zs) \<Rightarrow> \<exists>any' sp'. holds sp sp' zs \<and>
        live_loop szw r (any, live_of sp (e w)) = Some (any', live_of sp' (e (fold (perform sp) evs w)))"
proof -
  have cb: "frameCallback sp = Some cb" using assms(4) by (simp add: calls_back_def)
  obtain evs zs where "scan szw (sp_contents sp) = (evs, zs)" by force
  with extract_loop_scan [OF assms(1,2) cb, of any w] live_loop_of [OF assms(3,4), of szw any w] show ?thesis
    by (cases "stuck szw zs") (auto simp: scanned_def scan_result_def)
qed

text \<open>Bytes that begin with a frame: its payload is delivered and scanning goes on behind it.\<close>

lemma scan_result_frame:
  assumes "32 \<le> szw" and "length p \<le> kMaxFrameSize"
  shows "scan_result szw (data_frame seq p @ xs) = map_option (prepend [Deliver p]) (scan_result szw xs)"
proof -
  let ?xs = "data_frame seq p @ xs"
  have n: "announced szw ?xs = length (data_frame seq p)" by (rule announced_frame [OF assms])
  have whole: "frame_ok (take (announced szw ?xs) ?xs)" and p: "frame_payload (take (announced szw ?xs) ?xs) = p"
    unfolding n using wire.valid_enc [OF assms(2), of seq] wire.payload_enc [OF assms(2), of seq] by simp_all
  have "\<not> length ?xs < 8" "\<not> announced szw ?xs > kBufferCapacity" "\<not> (length ?xs < 12 \<or> length ?xs < announced szw ?xs)"
    using assms(2) unfolding n by (simp_all add: stream_consts)
  from scan_whole [OF this whole] p n show ?thesis by (simp add: scan_result_def prepend_def)
qed

text \<open>The frame is still in the buffer while its callback runs, so the inner call takes it off again.\<close>

lemma nested_feed_delivers:
  assumes "32 \<le> szw" and "sp_ok sp" and "calls_back (Some cb) ecb sp" and "c \<noteq> []"
    and "receive szw (sp_contents sp) c = Some (evs, ys)"
  obtains sp' where "holds sp sp' ys" and "feeding szw cb ecb (Suc (Suc depth)) p (live_of sp (w, Some c)) =
      Some (live_of sp' (fold (perform sp) evs (cb p w), None))"
proof -
  have cb: "frameCallback sp = Some cb" using assms(3) by (simp add: calls_back_def)
  from feed_receive [OF assms(1,2) cb, of "length c" c "cb p w"] assms(4,5)
  obtain sp' where "feed szw (Some c) (length c) sp (cb p w) = Some (sp', fold (perform sp) evs (cb p w))" and h: "holds sp sp' ys"
    by (auto simp: fed_def)
  with live_feed_of [OF follows_feeding assms(3), of szw szw depth "Some c" "length c" "cb p w"]
  have "feeding szw cb ecb (Suc (Suc depth)) p (live_of sp (w, Some c)) =
      Some (live_of sp' (fold (perform sp) evs (cb p w), None))" by simp
  with h that show thesis by blast
qed

text \<open>
  C22. A frame callback must not call \<open>feed\<close>. A processor that holds nothing gets one whole frame with
  payload \<open>p\<close>; the callback handles it and feeds a chunk \<open>c\<close>, any chunk the inner \<open>feed\<close> comes to an
  end with, to the processor that is calling it. The frame is still in the buffer: the inner \<open>feed\<close>
  sees its bytes in front of the chunk, so that, if both fit, \<open>p\<close> is delivered a second time before what
  the chunk completes. What the inner \<open>feed\<close> leaves, \<open>ys\<close>, the outer one then shortens by the frame's
  length once evs': with fewer bytes than that it moves memory from outside the buffer; otherwise so
  many bytes of the stream behind the frame are lost, and the scanning goes on in the rest.
\<close>

theorem nested_feed:
  assumes "32 \<le> szw" and "sp_ok sp" and "sp_contents sp = []" and "calls_back (Some cb) ecb sp"
    and "callback = feeding szw cb ecb (Suc (Suc depth))" and "r = reacting ecb callback"
    and "length p \<le> kMaxFrameSize" and "fr = data_frame seq p" and "c \<noteq> []"
    and "receive szw fr c = Some (evs, ys)" and "w1 = fold (perform sp) evs (cb p w)"
  shows "(\<exists>sp1 sp2. holds sp sp1 fr \<and> holds sp sp2 ys \<and>
      callback p (live_of sp1 (w, Some c)) = Some (live_of sp2 (w1, None)) \<and>
      live_feed szw r (Some fr) (length fr) (live_of sp (w, Some c)) = do {
        s \<leftarrow> callback p (live_of sp1 (w, Some c));
        s1 \<leftarrow> live_consume (length fr) s;
        map_option snd (live_loop szw r (True, s1)) }) \<and>
    (length fr + length c \<le> kBufferCapacity \<longrightarrow> (\<exists>evs'. evs = Deliver p # evs' \<and> scan_result szw c = Some (evs', ys))) \<and>
    (length ys < length fr \<longrightarrow> live_feed szw r (Some fr) (length fr) (live_of sp (w, Some c)) = None) \<and>
    (length fr \<le> length ys \<longrightarrow>
      (case scan_result szw (drop (length fr) ys) of
         None \<Rightarrow> live_feed szw r (Some fr) (length fr) (live_of sp (w, Some c)) = None
       | Some (evs', zs) \<Rightarrow> \<exists>sp'. holds sp sp' zs \<and>
           live_feed szw r (Some fr) (length fr) (live_of sp (w, Some c)) =
             Some (live_of sp' (fold (perform sp) evs' w1, None))))"
proof -
  have on: "on_frame r = Some callback" by (simp add: assms(6) reacting_def)
  have quiet: "follows (\<lambda>w. (w, None)) r (Some cb) ecb" unfolding assms(5,6) by (rule follows_feeding)
  have fr: "fr \<noteq> []" "12 \<le> length fr" and n: "announced szw fr = length fr"
    and whole: "frame_ok fr" and p: "frame_payload fr = p"
    using assms(7,8) announced_frame [OF assms(1,7), of seq "[]"] wire.valid_enc [OF assms(7), of seq]
      wire.payload_enc [OF assms(7), of seq] by auto
  have "sp_size sp = 0" using length_contents [OF assms(2)] assms(3) by simp
  moreover have "length fr \<le> kBufferCapacity" using assms(7,8) by (simp add: stream_consts)
  ultimately have "sp_size sp + length fr \<le> kBufferCapacity" by simp
  from live_feed_fits [OF assms(2) on fr(1) this, of szw "(w, Some c)"] assms(3) obtain sp1 where h1: "holds sp sp1 fr"
    and f: "live_feed szw r (Some fr) (length fr) (live_of sp (w, Some c)) =
      map_option snd (live_loop szw r (False, live_of sp1 (w, Some c)))"
    by auto
  have sp1: "sp_ok sp1" "sp_contents sp1 = fr" "sp_size sp1 = length fr" "calls_back (Some cb) ecb sp1"
    using h1 length_contents [of sp1] calls_back_holds [OF h1] assms(4) by (auto simp: holds_def)
  have "receive szw (sp_contents sp1) c = Some (evs, ys)" using sp1(2) assms(10) by simp
  from nested_feed_delivers [OF assms(1) sp1(1,4) assms(9) this] obtain sp2 where h12: "holds sp1 sp2 ys"
    and inner: "callback p (live_of sp1 (w, Some c)) = Some (live_of sp2 (w1, None))"
    unfolding assms(5,11) fold_perform_cong [OF h1] by blast
  have h2: "holds sp sp2 ys" by (rule holds_trans [OF h1 h12])
  have size: "sp_size sp2 = length ys" using h2 length_contents [of sp2] by (auto simp: holds_def)
  have "live_iteration szw r (False, live_of sp1 (w, Some c)) = do {
      s \<leftarrow> callback p (live_of sp1 (w, Some c)); s1 \<leftarrow> live_consume (length fr) s; Some (Continue (True, s1)) }"
    using live_iteration_whole [OF sp1(1) assms(1) on, of "length fr" False] sp1(2,3) n fr(2) whole p by simp
  then have outer: "live_feed szw r (Some fr) (length fr) (live_of sp (w, Some c)) = do {
        s \<leftarrow> callback p (live_of sp1 (w, Some c));
        s1 \<leftarrow> live_consume (length fr) s;
        map_option snd (live_loop szw r (True, s1)) }"
    unfolding f by (subst live_loop.simps) (simp add: inner split: bind_split)
  have again: "\<exists>evs'. evs = Deliver p # evs' \<and> scan_result szw c = Some (evs', ys)"
    if "length fr + length c \<le> kBufferCapacity"
    using that assms(10) scan_result_frame [OF assms(1,7), of seq c] assms(8) by (auto simp: receive_def prepend_def)
  have short: "live_consume (length fr) (live_of sp2 (w1, None :: u8 list option)) = None" if "length ys < length fr"
    using that by (simp add: live_consume_def live_move_down_def size)
  have rest: "case scan_result szw (drop (length fr) ys) of
         None \<Rightarrow> live_feed szw r (Some fr) (length fr) (live_of sp (w, Some c)) = None
       | Some (evs', zs) \<Rightarrow> \<exists>sp'. holds sp sp' zs \<and>
           live_feed szw r (Some fr) (length fr) (live_of sp (w, Some c)) =
             Some (live_of sp' (fold (perform sp) evs' w1, None))"
    if "length fr \<le> length ys"
  proof -
    have "sp_ok sp2" "sp_contents sp2 = ys" using h2 by (simp_all add: holds_def)
    moreover have "length fr \<le> sp_size sp2" using that size by simp
    ultimately obtain sp3 where con: "live_consume (length fr) (live_of sp2 (w1, None :: u8 list option)) = Some (live_of sp3 (w1, None))"
      and h23: "holds sp2 sp3 (drop (length fr) ys)"
      using live_consume_holds [of sp2 "length fr" "(w1, None)"] by metis
    have h3: "holds sp sp3 (drop (length fr) ys)" by (rule holds_trans [OF h2 h23])
    have sp3: "sp_ok sp3" "sp_contents sp3 = drop (length fr) ys" "calls_back (Some cb) ecb sp3"
      using h3 calls_back_holds [OF h3] assms(4) by (simp_all add: holds_def)
    have "live_feed szw r (Some fr) (length fr) (live_of sp (w, Some c)) =
        map_option snd (live_loop szw r (True, live_of sp3 (w1, None)))"
      by (simp add: outer inner con)
    then show ?thesis
      using live_loop_scan [OF assms(1) sp3(1) quiet sp3(3), of True w1] holds_trans [OF h3]
      unfolding sp3(2) fold_perform_cong [OF h3] by (force split: option.splits)
  qed
  show ?thesis
    using h1 h2 inner outer again short rest by (intro conjI impI exI [of _ sp1] exI [of _ sp2]) simp_all
qed

theorem nested_feed_witness:
  "live_feed 64 (reacting None (feeding 64 (\<lambda>p log. log @ [p]) None 2)) (Some (data_frame 1 [5])) 13
     (live_of (setFrameCallback (Some (\<lambda>p log. log @ [p])) (StreamProcessor None)) ([], Some [1])) = None"
proof -
  let ?cb = "\<lambda>p log. log @ [p]" and ?fr = "data_frame 1 [5]"
  let ?sp = "setFrameCallback (Some ?cb) (StreamProcessor None)"
  have p: "length [5 :: u8] \<le> kMaxFrameSize" "length ?fr + length [1 :: u8] \<le> kBufferCapacity" by (simp_all add: stream_consts)
  have "receive 64 ?fr [1] = map_option (prepend [Deliver [5]]) (scan_result 64 [1])"
    using scan_result_frame [of 64 "[5]" 1 "[1]"] p by (simp add: receive_def)
  then have "receive 64 ?fr [1] = Some ([Deliver [5]], [1])"
    by (simp add: scan_result_wide scan_short prepend_def)
  moreover have "sp_ok ?sp" "sp_contents ?sp = []" by (simp_all add: sp_ok_new)
  moreover have "calls_back (Some ?cb) None ?sp" by (simp add: calls_back_def StreamProcessor_def setFrameCallback_def)
  ultimately show ?thesis
    using nested_feed [of 64 ?sp ?cb None "feeding 64 ?cb None (Suc (Suc 0))" 0
        "reacting None (feeding 64 ?cb None (Suc (Suc 0)))" "[5]" ?fr 1 "[1]" "[Deliver [5]]" "[1]"
        "fold (perform ?sp) [Deliver [5]] (?cb [5] [])" "[]"] p(1)
    by (simp add: numeral_2_eq_2)
qed

end
