(* ===== verification/Ota_Reentrancy.thy ===== *)
theory Ota_Reentrancy
  imports Ota_Manager
begin

section \<open>Progress callbacks that give commands (src/ota_manager.cpp)\<close>

text \<open>
  \<open>Ota_Manager\<close> has a progress callback that acts on the world only. The code calls it in the middle of
  its handlers, while the manager is already in the status it reports, so a callback may give the
  manager its next command before the handler that called it has returned. Here the handlers are
  modelled again over a report that may change the manager: what they read after a report is what the
  report left, and what they write after it overwrites that.

  A callback that answers every report with a command never returns; the number of levels bounds the
  nesting, and \<open>None\<close> is the result where it does not suffice (or a chunk is not readable).
\<close>

subsection \<open>Operations\<close>

type_synonym 'w ota = "'w ota_manager \<times> 'w"
type_synonym 'w ota_report = "string option \<Rightarrow> 'w ota \<Rightarrow> 'w ota option"

definition re_transition :: "'w ota_report \<Rightarrow> OtaStatus \<Rightarrow> string option \<Rightarrow> 'w ota \<Rightarrow> 'w ota option" where
  "re_transition rep newStatus msg s = (case s of (m, w) \<Rightarrow> rep msg (m\<lparr>om_status := newStatus\<rparr>, w))"

definition re_error :: "'w ota_report \<Rightarrow> string \<Rightarrow> 'w ota \<Rightarrow> 'w ota option" where
  "re_error rep msg s = do { (m, w) \<leftarrow> re_transition rep Error (Some msg) s; Some (m\<lparr>om_status := Idle\<rparr>, w) }"

definition re_abort_with :: "'w ota_report \<Rightarrow> string \<Rightarrow> 'w ota \<Rightarrow> 'w ota option" where
  "re_abort_with rep msg s = (case s of (m, w) \<Rightarrow> re_error rep msg (m, fw_abort (om_writer m) w))"

definition re_begin :: "'w ota_report \<Rightarrow> u32 \<Rightarrow> u32 \<Rightarrow> u16 \<Rightarrow> 'w ota \<Rightarrow> 'w ota option" where
  "re_begin rep firmwareSize firmwareCrc32 chunks s =
     (let (m, w) =
        (case s of (m, w) \<Rightarrow>
           if om_status m \<noteq> Idle
           then (m\<lparr>om_status := Idle, om_receivedChunks := 0, om_totalChunks := 0\<rparr>, fw_abort (om_writer m) w)
           else (m, w)) in
      if om_status m \<noteq> Idle then re_transition rep Error (Some ''OtaBegin received while not idle'') (m, w)
      else if firmwareSize = 0 \<or> firmwareSize > fw_maxFirmwareSize (om_writer m) w
      then re_error rep ''Firmware too large for target'' (m, w)
      else do {
        (m1, w1) \<leftarrow> re_transition rep Preparing None
          (m\<lparr>om_expectedCrc32 := firmwareCrc32, om_totalChunks := chunks, om_receivedChunks := 0\<rparr>, w);
        let (ok, w2) = fw_begin (om_writer m1) firmwareSize w1;
        if \<not> ok then re_abort_with rep ''Flash erase failed'' (m1, w2)
        else re_transition rep Receiving None (m1, w2)
      })"

definition re_data :: "'w ota_report \<Rightarrow> u16 \<Rightarrow> ptr \<Rightarrow> nat \<Rightarrow> 'w ota \<Rightarrow> 'w ota option" where
  "re_data rep chunkIndex data dataSize s =
     (case s of (m, w) \<Rightarrow>
      if om_status m \<noteq> Receiving then Some (m, w)
      else if chunkIndex \<noteq> om_receivedChunks m then re_abort_with rep ''Unexpected chunk index'' (m, w)
      else case data of
        None \<Rightarrow> re_abort_with rep ''Empty chunk data'' (m, w)
      | Some mem \<Rightarrow>
          if dataSize = 0 then re_abort_with rep ''Empty chunk data'' (m, w)
          else do {
            bs \<leftarrow> read_at mem 0 dataSize;
            let (ok, w1) = fw_writeChunk (om_writer m) chunkIndex bs w;
            if \<not> ok then re_abort_with rep ''Flash write failed'' (m, w1)
            else
              let m1 = m\<lparr>om_receivedChunks := om_receivedChunks m + 1\<rparr>;
                  isLastChunk = (om_receivedChunks m1 = om_totalChunks m1);
                  isReportDue = (om_receivedChunks m1 mod kProgressReportInterval = 0) in
              if isLastChunk \<or> isReportDue then rep None (m1, w1) else Some (m1, w1)
          })"

definition re_data_msg :: "'w ota_report \<Rightarrow> OtaData \<Rightarrow> 'w ota \<Rightarrow> 'w ota option" where
  "re_data_msg rep msg s =
     (case chunk_data msg of
        None \<Rightarrow> re_abort_with rep ''Empty chunk data'' s
      | Some bs \<Rightarrow>
          if length bs = 0 then re_abort_with rep ''Empty chunk data'' s
          else re_data rep (chunk_index msg) (Some bs) (length bs) s)"

definition re_end :: "'w ota_report \<Rightarrow> 'w ota \<Rightarrow> 'w ota option" where
  "re_end rep s =
     (case s of (m, w) \<Rightarrow>
      if om_status m \<noteq> Receiving then Some (m, w)
      else if om_receivedChunks m \<noteq> om_totalChunks m then re_abort_with rep ''Chunk count mismatch'' (m, w)
      else do {
        let (ok, w1) = fw_finish (om_writer m) w;
        if \<not> ok then re_abort_with rep ''Flash finalization failed'' (m, w1)
        else do {
          (m2, w2) \<leftarrow> re_transition rep Verifying None (m, w1);
          let (ok2, w3) = fw_verify (om_writer m2) (om_expectedCrc32 m2) w2;
          if \<not> ok2 then re_abort_with rep ''CRC32 verification failed'' (m2, w3)
          else do {
            s4 \<leftarrow> re_transition rep Applying None (m2, w3);
            (m4, w4) \<leftarrow> re_transition rep Rebooting None s4;
            let (ok3, w5) = fw_activate (om_writer m4) w4;
            if \<not> ok3 then re_abort_with rep ''Slot activation failed'' (m4, w5)
            else Some (m4, w5)
          }
        }
      })"

definition re_abort :: "'w ota_report \<Rightarrow> string option \<Rightarrow> 'w ota \<Rightarrow> 'w ota option" where
  "re_abort rep reason s =
     (case s of (m, w) \<Rightarrow>
      if om_status m = Idle then Some (m, w)
      else re_abort_with rep (case reason of Some r \<Rightarrow> r | None \<Rightarrow> ''Aborted by host'') (m, w))"

fun re_op :: "'w ota_report \<Rightarrow> ota_command \<Rightarrow> 'w ota \<Rightarrow> 'w ota option" where
  "re_op rep (Begin n crc chunks) s = re_begin rep n crc chunks s"
| "re_op rep (Data i data n) s = re_data rep i data n s"
| "re_op rep (DataMsg msg) s = re_data_msg rep msg s"
| "re_op rep End s = re_end rep s"
| "re_op rep (Abort reason) s = re_abort rep reason s"

text \<open>A callback that reports to the world and then gives the commands it answers with, in order.\<close>

type_synonym 'w reply = "OtaStatus \<Rightarrow> u16 \<Rightarrow> u16 \<Rightarrow> string option \<Rightarrow> 'w \<Rightarrow> ota_command list"

primrec give :: "(ota_command \<Rightarrow> 'w ota \<Rightarrow> 'w ota option) \<Rightarrow> ota_command list \<Rightarrow> 'w ota \<Rightarrow> 'w ota option" where
  "give run [] s = Some s"
| "give run (c # cs) s = do { s1 \<leftarrow> run c s; give run cs s1 }"

definition answer :: "(ota_command \<Rightarrow> 'w ota \<Rightarrow> 'w ota option) \<Rightarrow> 'w reply \<Rightarrow> 'w ota_report" where
  "answer run reply msg s =
     (case s of (m, w) \<Rightarrow>
      case om_sendProgress m of
        None \<Rightarrow> Some (m, w)
      | Some send \<Rightarrow>
          let w1 = send (om_target m) (om_status m) (om_receivedChunks m) (om_totalChunks m) msg w in
          give run (reply (om_status m) (om_receivedChunks m) (om_totalChunks m) msg w1) (m, w1))"

primrec reactive_op :: "nat \<Rightarrow> 'w reply \<Rightarrow> ota_command \<Rightarrow> 'w ota \<Rightarrow> 'w ota option" where
  "reactive_op 0 reply c s = None"
| "reactive_op (Suc levels) reply c s = re_op (answer (reactive_op levels reply) reply) c s"

subsection \<open>Reports that leave the manager alone\<close>

definition report_only :: "'w ota_report" where
  "report_only msg s = (case s of (m, w) \<Rightarrow> Some (m, report_progress msg m w))"

text \<open>A command of \<open>Ota_Manager\<close>, with the unreadable chunk as no result.\<close>

fun ota_call :: "ota_command \<Rightarrow> 'w ota \<Rightarrow> 'w ota option" where
  "ota_call (Begin n crc chunks) s = Some (handleBegin n crc chunks s)"
| "ota_call (Data i data n) s = handleData i data n s"
| "ota_call (DataMsg msg) s = handleData_msg msg s"
| "ota_call End s = Some (handleEnd s)"
| "ota_call (Abort reason) s = Some (handleAbort reason s)"

lemma ota_call_op: "ota_call c s = Some s' \<Longrightarrow> ota_op c s = s'"
  by (cases c) auto

text \<open>It is enough that the reports of the statuses that are left again do so.\<close>

definition settled :: "'w ota_report \<Rightarrow> bool" where
  "settled rep \<longleftrightarrow> (\<forall>msg m w. om_status m \<noteq> Receiving \<longrightarrow> rep msg (m, w) = report_only msg (m, w))"

lemma settled_transition:
  "settled rep \<Longrightarrow> st \<noteq> Receiving \<Longrightarrow> re_transition rep st msg s = Some (transitionTo st msg s)"
  by (cases s) (simp add: settled_def re_transition_def transitionTo_def report_only_def Let_def)

lemma settled_error: "settled rep \<Longrightarrow> re_error rep msg s = Some (report_error msg s)"
  by (simp add: re_error_def report_error_def settled_transition split_beta)

lemma settled_abort_with: "settled rep \<Longrightarrow> re_abort_with rep msg s = Some (abort_with msg s)"
  by (cases s) (simp add: re_abort_with_def abort_with_def settled_error)

lemmas settled_simps = settled_transition settled_error settled_abort_with

text \<open>Then a handler either does what it does in \<open>Ota_Manager\<close>, or ends with a report of \<open>Receiving\<close>.\<close>

definition ends_receiving :: "'w ota_report \<Rightarrow> 'w ota \<Rightarrow> 'w ota option \<Rightarrow> bool" where
  "ends_receiving rep s' r \<longleftrightarrow>
     (\<exists>m w. om_status m = Receiving \<and> s' = (m, report_progress None m w) \<and> r = rep None (m, w))"

lemma error_idle [simp]:
  "om_status (fst (report_error msg s)) = Idle" "om_status (fst (abort_with msg s)) = Idle"
  by (simp_all add: report_error_def abort_with_def split_beta)

lemma begin_tail:
  assumes "settled rep" and "s' = handleBegin n crc chunks s"
  shows "if om_status (fst s') = Receiving then ends_receiving rep s' (re_begin rep n crc chunks s)
    else re_begin rep n crc chunks s = Some s'"
proof -
  obtain m w where s: "s = (m, w)" by (cases s)
  obtain m0 w0 where 0: "(if om_status m \<noteq> Idle
      then (m\<lparr>om_status := Idle, om_receivedChunks := 0, om_totalChunks := 0\<rparr>, fw_abort (om_writer m) w)
      else (m, w)) = (m0, w0)" and idle: "om_status m0 = Idle"
    by (cases "om_status m = Idle") (use that in simp_all)
  obtain m1 w1 where 1: "transitionTo Preparing None
      (m0\<lparr>om_expectedCrc32 := crc, om_totalChunks := chunks, om_receivedChunks := 0\<rparr>, w0) = (m1, w1)" by force
  obtain ok w2 where 2: "fw_begin (om_writer m1) n w1 = (ok, w2)" by force
  show ?thesis
  proof (cases "\<not> (n = 0 \<or> n > fw_maxFirmwareSize (om_writer m0) w0) \<and> ok")
    case True
    then have h: "s' = transitionTo Receiving None (m1, w2)"
      using 0 1 2 idle by (simp add: assms(2) s handleBegin_def Let_def)
    have r: "re_begin rep n crc chunks s = re_transition rep Receiving None (m1, w2)"
      using True 0 1 2 idle by (simp add: s re_begin_def settled_simps [OF assms(1)])
    show ?thesis
      unfolding h r
      by (simp add: ends_receiving_def re_transition_def transitionTo_def Let_def)
        (intro exI [of _ "m1\<lparr>om_status := Receiving\<rparr>"] exI [of _ w2], simp)
  next
    case False
    with 0 1 2 idle have "re_begin rep n crc chunks s = Some s' \<and> om_status (fst s') = Idle"
      by (auto simp: assms(2) s re_begin_def handleBegin_def settled_simps [OF assms(1)] Let_def)
    then show ?thesis by simp
  qed
qed

text \<open>A chunk has been stored, and its report is due.\<close>

definition chunk_reported :: "'w ota \<Rightarrow> 'w ota \<Rightarrow> bool" where
  "chunk_reported s s' \<longleftrightarrow> (let m' = fst s' in
     om_status m' = Receiving \<and> om_receivedChunks m' = om_receivedChunks (fst s) + 1 \<and>
     (om_receivedChunks m' = om_totalChunks m' \<or> om_receivedChunks m' mod kProgressReportInterval = 0))"

lemma data_tail:
  assumes "settled rep" and "handleData i data k s = Some s'"
  shows "if chunk_reported s s' then ends_receiving rep s' (re_data rep i data k s) else re_data rep i data k s = Some s'"
proof -
  obtain m w where s: "s = (m, w)" by (cases s)
  show ?thesis
  proof (cases "om_status m = Receiving \<and> i = om_receivedChunks m \<and> data \<noteq> None \<and> k \<noteq> 0")
    case True
    then obtain mem where c: "om_status m = Receiving" "om_receivedChunks m = i" "data = Some mem" "k \<noteq> 0" by blast
    from assms(2) c obtain bs where bs: "read_at mem 0 k = Some bs"
      by (auto simp: s handleData_def bind_eq_Some_conv)
    obtain ok w1 where ok: "fw_writeChunk (om_writer m) i bs w = (ok, w1)" by force
    let ?m = "m\<lparr>om_receivedChunks := i + 1\<rparr>"
    let ?due = "om_receivedChunks ?m = om_totalChunks ?m \<or> om_receivedChunks ?m mod kProgressReportInterval = 0"
    have e: "ends_receiving rep (?m, report_progress None ?m w1) (rep None (?m, w1))"
      unfolding ends_receiving_def using c(1) by (intro exI [of _ ?m] exI [of _ w1]) simp
    have r: "re_data rep i data k s = (if \<not> ok then Some (abort_with ''Flash write failed'' (m, w1))
        else if ?due then rep None (?m, w1) else Some (?m, w1))"
      using c bs ok by (simp add: s re_data_def settled_simps [OF assms(1)] Let_def)
    have s': "s' = (if \<not> ok then abort_with ''Flash write failed'' (m, w1)
        else (?m, if ?due then report_progress None ?m w1 else w1))"
      using assms(2) c bs ok by (cases ok) (auto simp: s handleData_def Let_def)
    have "chunk_reported s s' \<longleftrightarrow> ok \<and> ?due"
      using c by (cases ok) (simp_all add: s' chunk_reported_def s Let_def)
    with e r s' show ?thesis by auto
  next
    case False
    have "re_data rep i data k s = Some s' \<and> (om_status (fst s') = Idle \<or> s' = s)"
    proof (cases data)
      case None
      with False assms(2) show ?thesis
        by (auto simp: s handleData_def re_data_def settled_simps [OF assms(1)] split: if_splits)
    next
      case (Some mem)
      with False assms(2) show ?thesis
        by (auto simp: s handleData_def re_data_def settled_simps [OF assms(1)] split: if_splits)
    qed
    moreover from this have "\<not> chunk_reported s s'" by (auto simp: chunk_reported_def Let_def)
    ultimately show ?thesis by simp
  qed
qed

lemma data_msg_tail:
  assumes "settled rep" and "handleData_msg msg s = Some s'"
  shows "if chunk_reported s s' then ends_receiving rep s' (re_data_msg rep msg s) else re_data_msg rep msg s = Some s'"
proof (cases "chunk_data msg = None \<or> chunk_data msg = Some []")
  case True
  then have "re_data_msg rep msg s = Some s' \<and> om_status (fst s') = Idle"
    using assms by (auto simp: handleData_msg_def re_data_msg_def settled_abort_with)
  then show ?thesis by (auto simp: chunk_reported_def Let_def)
next
  case False
  then obtain bs where "chunk_data msg = Some bs" "bs \<noteq> []" by auto
  with assms data_tail [OF assms(1), of "chunk_index msg" "Some bs" "length bs" s s'] show ?thesis
    by (simp add: handleData_msg_def re_data_msg_def)
qed

lemma end_settled: "settled rep \<Longrightarrow> re_end rep s = Some (handleEnd s)"
  by (cases s) (simp add: re_end_def handleEnd_def settled_simps Let_def split_beta)

lemma abort_settled: "settled rep \<Longrightarrow> re_abort rep reason s = Some (handleAbort reason s)"
  by (cases s) (simp add: re_abort_def handleAbort_def settled_simps split: option.split)

text \<open>Whether a command has ended with a report of \<open>Receiving\<close>.\<close>

fun reported :: "ota_command \<Rightarrow> 'w ota \<Rightarrow> 'w ota \<Rightarrow> bool" where
  "reported (Begin n crc chunks) s s' = (om_status (fst s') = Receiving)"
| "reported (Data i data n) s s' = chunk_reported s s'"
| "reported (DataMsg msg) s s' = chunk_reported s s'"
| "reported End s s' = False"
| "reported (Abort reason) s s' = False"

lemma op_tail:
  assumes "settled rep" and "ota_call c s = Some s'"
  shows "if reported c s s' then ends_receiving rep s' (re_op rep c s) else re_op rep c s = Some s'"
proof (cases c)
  case (Begin n crc chunks)
  with assms(2) begin_tail [OF assms(1), of s' n crc chunks s] show ?thesis by simp
next
  case (Data i data k)
  with assms(2) data_tail [OF assms(1), of i data k s s'] show ?thesis by simp
next
  case (DataMsg msg)
  with assms(2) data_msg_tail [OF assms(1), of msg s s'] show ?thesis by simp
qed (use assms(2) in \<open>simp_all add: end_settled [OF assms(1)] abort_settled [OF assms(1)]\<close>)

lemma data_unreadable:
  assumes "settled rep" and "handleData i data k s = None"
  shows "re_data rep i data k s = None"
proof -
  obtain m w where s: "s = (m, w)" by (cases s)
  show ?thesis
    using assms(2) by (auto simp: s handleData_def re_data_def Let_def split_beta split: if_splits option.splits bind_splits)
qed

lemma op_unreadable: "settled rep \<Longrightarrow> ota_call c s = None \<Longrightarrow> re_op rep c s = None"
  by (cases c) (simp_all add: data_unreadable handleData_msg_safe)

subsection \<open>Properties\<close>

lemma settled_report_only: "settled report_only"
  by (simp add: settled_def)

lemma op_report_only: "re_op report_only c s = ota_call c s"
proof (cases "ota_call c s")
  case None
  with op_unreadable [OF settled_report_only] show ?thesis by simp
next
  case (Some s')
  with op_tail [OF settled_report_only Some] show ?thesis
    by (auto simp: ends_receiving_def report_only_def split: if_splits)
qed

lemma answer_nothing: "answer run (\<lambda>st r t msg w. []) = report_only"
  by (auto simp: fun_eq_iff answer_def report_only_def report_progress_def Let_def split: option.split)

text \<open>
  A progress callback that gives no command: the handlers modelled with callbacks that may change
  the manager then do exactly what \<open>Ota_Manager\<close> says.
\<close>

theorem silent_callbacks_agree:
  "reactive_op (Suc levels) (\<lambda>st r t msg w. []) c s = ota_call c s"
  by (simp add: answer_nothing op_report_only)

text \<open>Replies to reports of \<open>Receiving\<close> alone, and the sequential runs they amount to.\<close>

definition replies_receiving :: "'w reply \<Rightarrow> bool" where
  "replies_receiving reply \<longleftrightarrow> (\<forall>st r t msg w. reply st r t msg w \<noteq> [] \<longrightarrow> st = Receiving)"

lemma answer_settled: "replies_receiving reply \<Longrightarrow> settled (answer run reply)"
  unfolding settled_def replies_receiving_def answer_def report_only_def report_progress_def
  by (auto simp: Let_def split: option.split) (metis give.simps(1))

text \<open>
  The same commands without nesting: a list of the commands that wait, to which the answers to a report
  of \<open>Receiving\<close> are put in front once the command that made it has returned.
\<close>

definition answers_to :: "'w reply \<Rightarrow> ota_command \<Rightarrow> 'w ota \<Rightarrow> 'w ota \<Rightarrow> ota_command list" where
  "answers_to reply c s s' =
     (if reported c s s' \<and> om_sendProgress (fst s') \<noteq> None
      then reply Receiving (om_receivedChunks (fst s')) (om_totalChunks (fst s')) None (snd s') else [])"

fun one_by_one :: "nat \<Rightarrow> 'w reply \<Rightarrow> ota_command list \<Rightarrow> 'w ota \<Rightarrow> 'w ota option" where
  "one_by_one steps reply [] s = Some s"
| "one_by_one 0 reply (c # cs) s = None"
| "one_by_one (Suc steps) reply (c # cs) s = do {
     s1 \<leftarrow> ota_call c s;
     one_by_one steps reply (answers_to reply c s s1 @ cs) s1
   }"

lemma re_op_answer:
  assumes "replies_receiving reply"
  shows "re_op (answer run reply) c s = do { s1 \<leftarrow> ota_call c s; give run (answers_to reply c s s1) s1 }"
proof (cases "ota_call c s")
  case None
  with op_unreadable [OF answer_settled [OF assms]] show ?thesis by simp
next
  case (Some s1)
  show ?thesis
  proof (cases "reported c s s1")
    case True
    with op_tail [OF answer_settled [OF assms] Some, of run] obtain m w where m: "om_status m = Receiving"
      "s1 = (m, report_progress None m w)" "re_op (answer run reply) c s = answer run reply None (m, w)"
      by (auto simp: ends_receiving_def)
    then show ?thesis
      using Some True by (cases "om_sendProgress m") (simp_all add: answers_to_def answer_def report_progress_def Let_def)
  next
    case False
    with op_tail [OF answer_settled [OF assms] Some, of run] Some show ?thesis by (simp add: answers_to_def)
  qed
qed

lemma give_append: "give run (cs @ ds) s = Option.bind (give run cs s) (give run ds)"
  by (induction cs arbitrary: s) (simp_all split: bind_splits)

lemma give_mono:
  assumes "\<And>c s x. run c s = Some x \<Longrightarrow> run' c s = Some x" and "give run cs s = Some s'"
  shows "give run' cs s = Some s'"
  using assms(2) by (induction cs arbitrary: s) (auto simp: bind_eq_Some_conv dest: assms(1))

text \<open>More levels change no result.\<close>

lemma reactive_more:
  assumes "replies_receiving reply" and "reactive_op levels reply c s = Some s'"
  shows "reactive_op (Suc levels) reply c s = Some s'"
  using assms(2)
proof (induction levels arbitrary: c s s')
  case (Suc levels)
  then obtain s1 where 1: "ota_call c s = Some s1" "give (reactive_op levels reply) (answers_to reply c s s1) s1 = Some s'"
    by (auto simp: re_op_answer [OF assms(1)] bind_eq_Some_conv)
  from give_mono [OF Suc.IH 1(2)] 1(1) show ?case
    by (subst reactive_op.simps) (simp only: re_op_answer [OF assms(1)] bind.simps)
qed simp

lemma reactive_one_by_one:
  assumes "replies_receiving reply" and "reactive_op levels reply c s = Some s1" and "one_by_one steps reply cs s1 = Some s'"
  shows "\<exists>steps'. one_by_one steps' reply (c # cs) s = Some s'"
  using assms(2,3)
proof (induction levels arbitrary: c s s1 steps cs)
  case (Suc levels)
  have given: "\<exists>steps'. one_by_one steps' reply (ds @ cs) x = Some s'" if "give (reactive_op levels reply) ds x = Some s1" for ds x
    using that
  proof (induction ds arbitrary: x)
    case Nil
    with Suc.prems(2) show ?case by auto
  next
    case (Cons d ds)
    then obtain y where y: "reactive_op levels reply d x = Some y" "give (reactive_op levels reply) ds y = Some s1"
      by (auto simp: bind_eq_Some_conv)
    from Cons.IH [OF y(2)] obtain n where "one_by_one n reply (ds @ cs) y = Some s'" ..
    from Suc.IH [OF y(1) this] show ?case by simp
  qed
  from Suc.prems(1) obtain x where x: "ota_call c s = Some x" "give (reactive_op levels reply) (answers_to reply c s x) x = Some s1"
    by (auto simp: re_op_answer [OF assms(1)] bind_eq_Some_conv)
  from given [OF x(2)] obtain n where "one_by_one n reply (answers_to reply c s x @ cs) x = Some s'" ..
  with x(1) show ?case by (intro exI [of _ "Suc n"]) simp
qed simp

lemma one_by_one_reactive:
  assumes "replies_receiving reply" and "one_by_one steps reply cs s = Some s'"
  shows "\<exists>levels. give (reactive_op levels reply) cs s = Some s'"
  using assms
proof (induction steps reply cs s rule: one_by_one.induct)
  case (3 steps reply c cs s)
  then obtain s1 where s1: "ota_call c s = Some s1" "one_by_one steps reply (answers_to reply c s s1 @ cs) s1 = Some s'"
    by (auto simp: bind_eq_Some_conv)
  from "3.IH" [OF s1(1) "3.prems"(1) s1(2)] obtain levels where "give (reactive_op levels reply) (answers_to reply c s s1 @ cs) s1 = Some s'" ..
  then obtain x where x: "give (reactive_op levels reply) (answers_to reply c s s1) s1 = Some x"
    "give (reactive_op levels reply) cs x = Some s'"
    by (auto simp: give_append bind_eq_Some_conv)
  have "reactive_op (Suc levels) reply c s = Some x"
    using s1(1) x(1) by (simp add: re_op_answer [OF "3.prems"(1)])
  moreover have "give (reactive_op (Suc levels) reply) cs x = Some s'"
    by (rule give_mono [OF reactive_more [OF "3.prems"(1)] x(2)])
  ultimately show ?case by (intro exI [of _ "Suc levels"]) (simp del: reactive_op.simps)
qed auto

text \<open>
  C19. A callback may give commands when it is told \<open>Receiving\<close>: if it answers no other report, a command
  with the commands given from inside its callbacks, and theirs, to any depth, has a result exactly if
  the commands given one after the other have, each when the one before has returned, and it is the
  same result; so what is proved of such runs holds of it.
\<close>

theorem receiving_replies_sequential:
  assumes "replies_receiving reply"
  shows "(\<exists>levels. reactive_op levels reply c s = Some s') \<longleftrightarrow> (\<exists>steps. one_by_one steps reply [c] s = Some s')"
proof
  assume "\<exists>levels. reactive_op levels reply c s = Some s'"
  then obtain levels where "reactive_op levels reply c s = Some s'" ..
  from reactive_one_by_one [OF assms this, of 0 "[]"] show "\<exists>steps. one_by_one steps reply [c] s = Some s'" by simp
next
  assume "\<exists>steps. one_by_one steps reply [c] s = Some s'"
  then obtain steps where "one_by_one steps reply [c] s = Some s'" ..
  from one_by_one_reactive [OF assms this] show "\<exists>levels. reactive_op levels reply c s = Some s'"
    by (auto simp: bind_eq_Some_conv)
qed

theorem receiving_replies_sequential_witness:
  "\<exists>levels. reactive_op levels (\<lambda>st r t msg w. if st = Receiving \<and> r = 0 then [Data 0 (Some [7]) 1, End] else []) (Begin 1 9 1)
      (OtaManager willing_writer Stm32 (Some (\<lambda>tg st r t msg w. w)), ()) =
    Some ((OtaManager willing_writer Stm32 (Some (\<lambda>tg st r t msg w. w)))
      \<lparr>om_status := Rebooting, om_expectedCrc32 := 9, om_totalChunks := 1, om_receivedChunks := 1\<rparr>, ())"
proof -
  let ?reply = "\<lambda>st r t msg w. if st = Receiving \<and> r = 0 then [Data 0 (Some [7]) 1, End] else []"
  let ?s = "(OtaManager willing_writer Stm32 (Some (\<lambda>tg st r t msg w. w)), ())"
  have "replies_receiving ?reply" by (simp add: replies_receiving_def)
  moreover have "one_by_one 3 ?reply [Begin 1 9 1] ?s = Some ((OtaManager willing_writer Stm32 (Some (\<lambda>tg st r t msg w. w)))
      \<lparr>om_status := Rebooting, om_expectedCrc32 := 9, om_totalChunks := 1, om_receivedChunks := 1\<rparr>, ())"
    by (simp add: numeral_3_eq_3 answers_to_def chunk_reported_def run_eval)
  ultimately show ?thesis using receiving_replies_sequential by blast
qed


text \<open>A reply to the reports of one status only.\<close>

definition replies_to :: "OtaStatus \<Rightarrow> ota_command list \<Rightarrow> 'w reply" where
  "replies_to st0 cs st r t msg w = (if st = st0 then cs else [])"

lemma answer_other:
  "st0 \<noteq> om_status m \<Longrightarrow> answer run (replies_to st0 cs) msg (m, w) = report_only msg (m, w)"
  by (simp add: answer_def replies_to_def report_only_def report_progress_def Let_def split: option.split)

lemma answer_wired:
  assumes "wired wr send m"
  obtains w' where "answer run (replies_to (om_status m) cs) msg (m, tr, w) =
    give run cs (m, tr @ [Progress (om_status m) (om_receivedChunks m) (om_totalChunks m) msg], w')"
  using assms by (simp add: wired_def answer_def replies_to_def recorded_progress_def Let_def)

lemma re_transition_other:
  assumes "st \<noteq> st0"
  shows "re_transition (answer run (replies_to st0 cs)) st msg s = Some (transitionTo st msg s)"
  using assms by (cases s) (simp add: re_transition_def answer_other report_only_def transitionTo_def Let_def)

lemma re_abort_other:
  assumes "st0 \<noteq> Error"
  shows "re_abort (answer run (replies_to st0 cs)) reason s = Some (handleAbort reason s)"
  using assms
  by (cases s) (simp add: re_abort_def re_abort_with_def re_error_def re_transition_other handleAbort_def abort_with_def
      report_error_def split_beta split: option.split)

text \<open>
  C20. An abort given while the image is verified is lost: the host ends a complete transfer, and the
  callback that is told \<open>Verifying\<close> answers with an abort. The abort is carried out and reported,
  the writer discards the image; then the handler that made the report goes on, has the writer
  verify and, if it agrees, activate, and ends in \<open>Rebooting\<close>.
\<close>

theorem abort_while_verifying_is_lost:
  assumes "wired wr send m" and "obliging limit wr"
    and "om_status m = Receiving" and "om_receivedChunks m = t" and "om_totalChunks m = t"
  shows "\<exists>w'. reactive_op (Suc (Suc levels)) (replies_to Verifying [Abort (Some reason)]) End (m, tr, w) =
    Some (m\<lparr>om_status := Rebooting\<rparr>,
      tr @ [Call (CallFinish True), Progress Verifying t t None,
            Call CallAbort, Progress Error t t (Some reason),
            Call (CallVerify (om_expectedCrc32 m) True), Progress Applying t t None, Progress Rebooting t t None,
            Call (CallActivate True)], w')"
proof -
  let ?reply = "replies_to Verifying [Abort (Some reason)] :: (ota_event list \<times> 'a) reply"
  let ?run = "reactive_op (Suc levels) ?reply"
  let ?m = "m\<lparr>om_status := Verifying\<rparr>"
  note wr = wired_writer [OF assms(1)]
  obtain w1 where 1: "fw_finish wr w = (True, w1)" using obliging_ok(3) [OF assms(2)] by blast
  obtain w2 where "answer ?run (replies_to (om_status ?m) [Abort (Some reason)]) None (?m, tr @ [Call (CallFinish True)], w1) =
      give ?run [Abort (Some reason)]
        (?m, (tr @ [Call (CallFinish True)]) @ [Progress (om_status ?m) (om_receivedChunks ?m) (om_totalChunks ?m) None], w2)"
    using answer_wired [of wr send ?m] assms(1) by (metis wired_update(1))
  then have 2: "answer ?run ?reply None (?m, tr @ [Call (CallFinish True)], w1) =
      re_abort (answer (reactive_op levels ?reply) ?reply) (Some reason) (?m, tr @ [Call (CallFinish True), Progress Verifying t t None], w2)"
    using assms(4,5) by (simp add: bind_split)
  let ?tr = "tr @ [Call (CallFinish True), Progress Verifying t t None]"
  obtain w3 where "abort_with reason (?m, ?tr, w2) = (?m\<lparr>om_status := Idle\<rparr>,
      ?tr @ [Call CallAbort, Progress Error (om_receivedChunks ?m) (om_totalChunks ?m) (Some reason)], w3)"
    using abort_wired [of wr send ?m] assms(1) by (metis wired_update(1))
  then have 3: "handleAbort (Some reason) (?m, ?tr, w2) =
      (m\<lparr>om_status := Idle\<rparr>, ?tr @ [Call CallAbort, Progress Error t t (Some reason)], w3)"
    using assms(4,5) by (simp add: handleAbort_def)
  obtain w4 where 4: "fw_verify wr (om_expectedCrc32 m) w3 = (True, w4)" using obliging_ok(4) [OF assms(2)] by blast
  let ?w5 = "send (om_target m) Rebooting t t None (send (om_target m) Applying t t None w4)"
  obtain w6 where 5: "fw_activate wr ?w5 = (True, w6)" using obliging_ok(5) [OF assms(2)] by blast
  have "re_transition (answer ?run ?reply) Verifying None (m, tr @ [Call (CallFinish True)], w1) =
      Some (m\<lparr>om_status := Idle\<rparr>, ?tr @ [Call CallAbort, Progress Error t t (Some reason)], w3)"
    by (simp add: re_transition_def 2 re_abort_other 3)
  then show ?thesis
    using assms(1,3-5) wr 1 4 5
    by (simp add: re_end_def record_call_def re_transition_other transitionTo_def report_progress_def
        recorded_progress_def wired_def Let_def)
qed

theorem abort_while_verifying_is_lost_witness:
  "case the (reactive_op 2 (replies_to Verifying [Abort (Some ''stop'')]) End
      ((recorded_manager willing_writer Stm32 (\<lambda>tg st r t msg w. w))\<lparr>om_status := Receiving\<rparr>, [], ())) of
     (m, tr, w) \<Rightarrow> om_status m = Rebooting \<and> Call CallAbort \<in> set tr \<and> last tr = Call (CallActivate True)"
proof -
  let ?m = "(recorded_manager willing_writer Stm32 (\<lambda>tg st r t msg w. w))\<lparr>om_status := Receiving\<rparr>"
  have "wired willing_writer (\<lambda>tg st r t msg w. w) ?m" "om_status ?m = Receiving"
    "om_receivedChunks ?m = 0" "om_totalChunks ?m = 0"
    by (simp_all add: wired_def recorded_manager_def OtaManager_def)
  from abort_while_verifying_is_lost [OF this(1) willing_obliging this(2-4), of 0 "''stop''" "[]" "()"]
  show ?thesis by (auto simp: numeral_2_eq_2)
qed





end
