(* ===== verification/Dbus_Link.thy ===== *)
theory Dbus_Link
  imports Dbus_Receiver
begin

section \<open>Client and server of the D-Bus transport together (examples/)\<close>

text \<open>
  What a write through \<open>MakeWriteCallback\<close> does on the other side of the bus. The bus is libdbus and
  its daemon, which are not part of the repository: \<open>bus_link\<close> states what their documentation says of
  the functions the two transports call, in the sequences in which they call them, by what can be
  observed of messages. The application behind the server is a part of the world that libdbus does not
  touch; the server's handler acts on that part alone. No other client calls the server.
\<close>

subsection \<open>What libdbus does\<close>

text \<open>
  \<open>answer_of\<close> is the boolean that is a message's first argument, if it has one, \<open>last_answer\<close> that of the
  message the server sent last.
\<close>

record ('m, 'w, 's) bus_view =
  app :: "'w \<Rightarrow> 's"
  put_app :: "'s \<Rightarrow> 'w \<Rightarrow> 'w"
  answer_of :: "'m \<Rightarrow> 'w \<Rightarrow> bool option"
  last_answer :: "'w \<Rightarrow> bool option"

definition app_part :: "('m, 'w, 's) bus_view \<Rightarrow> bool" where
  "app_part v \<longleftrightarrow>
     (\<forall>s w. app v (put_app v s w) = s) \<and> (\<forall>w. put_app v (app v w) w = w) \<and>
     (\<forall>s s' w. put_app v s' (put_app v s w) = put_app v s' w)"

definition keeps_app :: "('m, 'w, 's) bus_view \<Rightarrow> ('w \<Rightarrow> 'w) \<Rightarrow> bool" where
  "keeps_app v f \<longleftrightarrow> (\<forall>w. app v (f w) = app v w)"

definition handler_on :: "('m, 'w, 's) bus_view \<Rightarrow> 's data_handler \<Rightarrow> 'w data_handler" where
  "handler_on v h p n w = map_option (\<lambda>(ok, s). (ok, put_app v s w)) (h p n (app v w))"

text \<open>Building, reading and printing leave the application alone.\<close>

definition bus_local :: "('c, 'm, 'i, 'w) libdbus \<Rightarrow> ('m, 'w, 's) bus_view \<Rightarrow> bool" where
  "bus_local lib v \<longleftrightarrow>
     app_part v \<and>
     keeps_app v (\<lambda>w. snd (bus_get lib w)) \<and>
     (\<forall>c b. keeps_app v (set_exit_on_disconnect lib c b)) \<and>
     (\<forall>c. keeps_app v (connection_unref lib c)) \<and>
     (\<forall>a. keeps_app v (\<lambda>w. snd (new_method_call lib a w))) \<and>
     (\<forall>m. keeps_app v (\<lambda>w. snd (open_byte_array lib m w))) \<and>
     (\<forall>m bs n. keeps_app v (\<lambda>w. snd (append_fixed_array lib m bs n w))) \<and>
     (\<forall>m. keeps_app v (\<lambda>w. snd (close_array lib m w))) \<and>
     (\<forall>m. keeps_app v (message_unref lib m)) \<and>
     (\<forall>m. keeps_app v (\<lambda>w. snd (get_boolean lib m w))) \<and>
     (\<forall>m. keeps_app v (\<lambda>w. snd (new_method_return lib m w))) \<and>
     (\<forall>m b. keeps_app v (\<lambda>w. snd (append_boolean lib m b w))) \<and>
     (\<forall>c m. keeps_app v (\<lambda>w. snd (connection_send lib c m w))) \<and>
     (\<forall>c. keeps_app v (connection_flush lib c)) \<and>
     (\<forall>line. keeps_app v (print_stderr lib line))"

text \<open>The world right after \<open>m\<close> has been built as a call to \<open>a\<close> with the byte array \<open>bs\<close>.\<close>

definition built :: "('c, 'm, 'i, 'w) libdbus \<Rightarrow> DBusAddress \<Rightarrow> u8 list \<Rightarrow> 'm \<Rightarrow> 'w \<Rightarrow> bool" where
  "built lib a bs m w \<longleftrightarrow>
     (\<exists>w0 w1 w2 w3. new_method_call lib a w0 = (Some m, w1) \<and> open_byte_array lib m w1 = (True, w2) \<and>
        append_fixed_array lib m bs (int (length bs)) w2 = (True, w3) \<and> close_array lib m w3 = (True, w))"

text \<open>
  A boolean appended to a new reply, which is empty, is its first argument; sending a reply makes its
  answer the last one; to flush and to release other messages changes neither; and a boolean that is
  the first argument is what \<open>dbus_message_get_args\<close> reads.
\<close>

definition bus_messages :: "('c, 'm, 'i, 'w) libdbus \<Rightarrow> ('m, 'w, 's) bus_view \<Rightarrow> bool" where
  "bus_messages lib v \<longleftrightarrow>
     (\<forall>m r b w w1 w2. new_method_return lib m w = (Some r, w1) \<and> append_boolean lib r b w1 = (True, w2) \<longrightarrow>
        answer_of v r w2 = Some b) \<and>
     (\<forall>c m w w1. connection_send lib c m w = (True, w1) \<longrightarrow> last_answer v w1 = answer_of v m w) \<and>
     (\<forall>c w. last_answer v (connection_flush lib c w) = last_answer v w) \<and>
     (\<forall>m w. last_answer v (message_unref lib m w) = last_answer v w) \<and>
     (\<forall>m r w. m \<noteq> r \<longrightarrow> answer_of v r (message_unref lib m w) = answer_of v r w) \<and>
     (\<forall>m b w. answer_of v m w = Some b \<longrightarrow> fst (get_boolean lib m w) = Inl b)"

lemma bus_messages_reply:
  assumes "bus_messages lib v"
  shows "new_method_return lib m w = (Some r, w1) \<Longrightarrow> append_boolean lib r b w1 = (True, w2) \<Longrightarrow> answer_of v r w2 = Some b"
  using assms [unfolded bus_messages_def, THEN conjunct1] by blast

lemma bus_messagesD:
  assumes "bus_messages lib v"
  shows "connection_send lib c m w = (True, w1) \<Longrightarrow> last_answer v w1 = answer_of v m w"
    and "last_answer v (connection_flush lib c w) = last_answer v w"
    and "last_answer v (message_unref lib m w) = last_answer v w"
    and "r \<noteq> m \<Longrightarrow> answer_of v r (message_unref lib m w) = answer_of v r w"
    and "answer_of v m w = Some b \<Longrightarrow> fst (get_boolean lib m w) = Inl b"
  using assms unfolding bus_messages_def by simp_all

text \<open>
  The main loop of the server hands it a call with the array \<open>bs\<close>: \<open>HandleMessage\<close> is run for it, and
  run again, later, as long as it has answered that it needs more memory.
\<close>

definition runs_handler ::
  "('c, 'm, 'i, 'w) libdbus \<Rightarrow> 'c \<Rightarrow> ('c, 'w) DBusServerTransport \<Rightarrow> u8 list \<Rightarrow> 'w \<Rightarrow> handler_result \<Rightarrow> 'w \<Rightarrow> bool" where
  "runs_handler lib sc sv bs x result y \<longleftrightarrow>
     (\<exists>m. is_method_call lib m (addr_interface (server_address sv)) (addr_method (server_address sv)) x \<and>
        call_payload lib m x = Some (bs, length bs) \<and> HandleMessage lib sc (Some m) (Some sv) x = Some (result, y))"

inductive dispatched ::
  "('c, 'm, 'i, 'w) libdbus \<Rightarrow> ('m, 'w, 's) bus_view \<Rightarrow> 'c \<Rightarrow> ('c, 'w) DBusServerTransport \<Rightarrow> u8 list \<Rightarrow> 'w \<Rightarrow> 'w \<Rightarrow> bool"
  for lib v sc sv bs where
  handled: "runs_handler lib sc sv bs x ResultHandled y \<Longrightarrow> dispatched lib v sc sv bs x y"
| again: "runs_handler lib sc sv bs x ResultNeedMemory x1 \<Longrightarrow> app v x2 = app v x1 \<Longrightarrow> dispatched lib v sc sv bs x2 y \<Longrightarrow>
    dispatched lib v sc sv bs x y"

text \<open>
  A blocking call that returns a reply has been delivered: the server of its destination has been
  handed a call with this array, has sent a reply, and the reply the client gets carries the boolean of
  that one. An array may have up to \<open>2\<^sup>2\<^sup>6\<close> bytes.
\<close>

definition bus_delivers ::
  "('c, 'm, 'i, 'w) libdbus \<Rightarrow> ('m, 'w, 's) bus_view \<Rightarrow> 'c \<Rightarrow> ('c, 'w) DBusServerTransport \<Rightarrow> bool" where
  "bus_delivers lib v sc sv \<longleftrightarrow>
     (\<forall>c m bs w r w1. built lib (server_address sv) bs m w \<and> bs \<noteq> [] \<and> length bs \<le> 2 ^ 26 \<and>
        send_with_reply_and_block lib c m (- 1) w = (Inl r, w1) \<longrightarrow>
        r \<noteq> m \<and> (\<exists>x y. app v x = app v w \<and> dispatched lib v sc sv bs x y \<and>
          app v w1 = app v y \<and> answer_of v r w1 = last_answer v y))"

definition bus_link ::
  "('c, 'm, 'i, 'w) libdbus \<Rightarrow> ('m, 'w, 's) bus_view \<Rightarrow> 'c \<Rightarrow> ('c, 'w) DBusServerTransport \<Rightarrow> bool" where
  "bus_link lib v sc sv \<longleftrightarrow> bus_local lib v \<and> bus_messages lib v \<and> bus_delivers lib v sc sv"

text \<open>The server does not run out of memory when it replies.\<close>

definition server_memory :: "('c, 'm, 'i, 'w) libdbus \<Rightarrow> 'c \<Rightarrow> ('c, 'w) DBusServerTransport \<Rightarrow> bool" where
  "server_memory lib sc sv \<longleftrightarrow> (\<forall>m w w'. HandleMessage lib sc (Some m) (Some sv) w \<noteq> Some (ResultNeedMemory, w'))"

text \<open>
  A bus without faults: neither side runs out of memory while it builds a message within the limits,
  and a call to the server is answered, provided that the server's handler can be run with its
  argument.
\<close>

definition bus_reliable :: "('c, 'm, 'i, 'w) libdbus \<Rightarrow> 'c \<Rightarrow> ('c, 'w) DBusServerTransport \<Rightarrow> bool" where
  "bus_reliable lib sc sv \<longleftrightarrow>
     server_memory lib sc sv \<and> (\<forall>w. isl (fst (bus_get lib w))) \<and>
     (\<forall>w. fst (new_method_call lib (server_address sv) w) \<noteq> None) \<and>
     (\<forall>m w w1. new_method_call lib (server_address sv) w = (Some m, w1) \<longrightarrow>
        fst (open_byte_array lib m w1) \<and>
        (\<forall>bs w2. open_byte_array lib m w1 = (True, w2) \<and> length bs \<le> 2 ^ 26 \<longrightarrow>
           fst (append_fixed_array lib m bs (int (length bs)) w2) \<and>
           (\<forall>w3. append_fixed_array lib m bs (int (length bs)) w2 = (True, w3) \<longrightarrow> fst (close_array lib m w3)))) \<and>
     (\<forall>c m bs w hd. built lib (server_address sv) bs m w \<and> bs \<noteq> [] \<and> length bs \<le> 2 ^ 26 \<and>
        server_handler sv = Some hd \<and> hd bs (length bs) w \<noteq> None \<longrightarrow>
        isl (fst (send_with_reply_and_block lib c m (- 1) w)))"

subsection \<open>A bus for the witnesses\<close>

text \<open>
  One call at a time: the call and the answer are kept in the world, and sending the call runs the
  server. The handler of a message does not send calls itself, so it is run over the bus without that
  function.
\<close>

record 's loop_bus =
  lb_app :: 's
  lb_address :: DBusAddress
  lb_bytes :: "u8 list"
  lb_answer :: "bool option"

datatype loop_message = LoopCall | LoopReturn | LoopAnswer
datatype loop_iter = LoopArguments | LoopArray

definition loop_view :: "(loop_message, 's loop_bus, 's) bus_view" where
  "loop_view = \<lparr>app = lb_app, put_app = \<lambda>s w. w\<lparr>lb_app := s\<rparr>,
     answer_of = \<lambda>m w. lb_answer w, last_answer = lb_answer\<rparr>"

definition loop_error :: DBusError where
  "loop_error = \<lparr>error_name = ''org.freedesktop.DBus.Error.NoReply'', error_text = ''no reply''\<rparr>"

definition loop_local :: "(unit, loop_message, loop_iter, 's loop_bus) libdbus" where
  "loop_local = \<lparr>
     bus_get = \<lambda>w. (Inl (), w), set_exit_on_disconnect = \<lambda>c b w. w, connection_unref = \<lambda>c w. w,
     request_name = \<lambda>c n w. (Inl PrimaryOwner, w), register_object_path = \<lambda>c p w. (True, w),
     unregister_object_path = \<lambda>c p w. w,
     new_method_call = \<lambda>a w. (Some LoopCall, w\<lparr>lb_address := a, lb_bytes := []\<rparr>),
     message_unref = \<lambda>m w. w, open_byte_array = \<lambda>m w. (True, w),
     append_fixed_array = \<lambda>m bs n w. (True, w\<lparr>lb_bytes := bs\<rparr>), close_array = \<lambda>m w. (True, w),
     send_with_reply_and_block = \<lambda>c m t w. (Inr loop_error, w),
     get_boolean = \<lambda>m w. (case lb_answer w of Some b \<Rightarrow> Inl b | None \<Rightarrow> Inr loop_error, w),
     is_method_call = \<lambda>m i n w. i = addr_interface (lb_address w) \<and> n = addr_method (lb_address w),
     iter_init = \<lambda>m w. Some LoopArguments,
     get_arg_type = \<lambda>it w. (case it of LoopArguments \<Rightarrow> TypeArray | LoopArray \<Rightarrow> TypeByte),
     recurse = \<lambda>it w. LoopArray, get_fixed_array = \<lambda>it w. (Some (lb_bytes w), int (length (lb_bytes w))),
     new_method_return = \<lambda>m w. (Some LoopReturn, w), append_boolean = \<lambda>m b w. (True, w\<lparr>lb_answer := Some b\<rparr>),
     connection_send = \<lambda>c m w. (True, w), connection_flush = \<lambda>c w. w, print_stderr = \<lambda>line w. w\<rparr>"

definition loop_libdbus :: "(unit, 's loop_bus) DBusServerTransport \<Rightarrow> (unit, loop_message, loop_iter, 's loop_bus) libdbus" where
  "loop_libdbus sv = loop_local\<lparr>send_with_reply_and_block := \<lambda>c m t w.
     (case HandleMessage loop_local () (Some LoopCall) (Some sv) w of
        Some (ResultHandled, w1) \<Rightarrow> (Inl LoopAnswer, w1) | _ \<Rightarrow> (Inr loop_error, w))\<rparr>"

lemma HandleMessage_sends_nothing:
  "HandleMessage (lib\<lparr>send_with_reply_and_block := f\<rparr>) c m sv w = HandleMessage lib c m sv w"
proof -
  have "call_payload (lib\<lparr>send_with_reply_and_block := f\<rparr>) = call_payload lib"
    by (simp add: fun_eq_iff call_payload_def cong: option.case_cong if_cong)
  moreover have "reply_to (lib\<lparr>send_with_reply_and_block := f\<rparr>) = reply_to lib"
    by (simp add: fun_eq_iff reply_to_def case_prod_unfold cong: option.case_cong if_cong)
  ultimately show ?thesis
    by (cases m; cases sv) (simp_all add: HandleMessage_parts, simp_all add: HandleMessage_def)
qed

lemma loop_served:
  "HandleMessage (loop_libdbus sv) () m sv' w = HandleMessage loop_local () m sv' w"
  by (simp add: loop_libdbus_def HandleMessage_sends_nothing)

lemma loop_built: "built (loop_libdbus sv) a bs m w \<Longrightarrow> m = LoopCall \<and> lb_address w = a \<and> lb_bytes w = bs"
  by (auto simp: built_def loop_libdbus_def loop_local_def)

lemma loop_link: "bus_link (loop_libdbus sv) loop_view () sv"
proof -
  have "bus_local (loop_libdbus sv) loop_view"
    by (simp add: bus_local_def app_part_def keeps_app_def loop_libdbus_def loop_local_def loop_view_def)
  moreover have "bus_messages (loop_libdbus sv) loop_view"
    by (auto simp: bus_messages_def loop_libdbus_def loop_local_def loop_view_def)
  moreover have "bus_delivers (loop_libdbus sv) loop_view () sv"
    unfolding bus_delivers_def
  proof (intro allI impI)
    fix c m bs w r w1
    assume a: "built (loop_libdbus sv) (server_address sv) bs m w \<and> bs \<noteq> [] \<and> length bs \<le> 2 ^ 26 \<and>
      send_with_reply_and_block (loop_libdbus sv) c m (- 1) w = (Inl r, w1)"
    then have m: "m = LoopCall" "lb_address w = server_address sv" "lb_bytes w = bs" "bs \<noteq> []"
      using loop_built [of sv "server_address sv" bs m w] by simp_all
    from a have s: "HandleMessage loop_local () (Some LoopCall) (Some sv) w = Some (ResultHandled, w1)" "r = LoopAnswer"
      by (auto simp: loop_libdbus_def split: option.splits handler_result.splits)
    have p: "call_payload (loop_libdbus sv) LoopCall w = Some (bs, length bs)"
      using m by (simp add: call_payload_def loop_libdbus_def loop_local_def)
    have "is_method_call (loop_libdbus sv) LoopCall (addr_interface (server_address sv)) (addr_method (server_address sv)) w"
      using m by (simp add: loop_libdbus_def loop_local_def)
    with s(1) p have "runs_handler (loop_libdbus sv) () sv bs w ResultHandled w1"
      unfolding runs_handler_def by (metis loop_served)
    then have "dispatched (loop_libdbus sv) loop_view () sv bs w w1" by (rule dispatched.handled)
    then show "r \<noteq> m \<and> (\<exists>x y. app loop_view x = app loop_view w \<and> dispatched (loop_libdbus sv) loop_view () sv bs x y \<and>
        app loop_view w1 = app loop_view y \<and> answer_of loop_view r w1 = last_answer loop_view y)"
      using m(1) s(2) by (intro conjI exI [of _ w] exI [of _ w1]) (simp_all add: loop_view_def)
  qed
  ultimately show ?thesis by (simp add: bus_link_def)
qed

lemma loop_memory: "server_memory (loop_libdbus sv) () sv"
  unfolding server_memory_def loop_served
  by (auto simp: HandleMessage_parts reply_to_def loop_local_def bind_eq_Some_conv split: if_splits)

lemma loop_reliable: "bus_reliable (loop_libdbus sv) () sv"
proof -
  have "isl (fst (send_with_reply_and_block (loop_libdbus sv) c m (- 1) w))"
    if "built (loop_libdbus sv) (server_address sv) bs m w" and "bs \<noteq> []" and "server_handler sv = Some hd" and "hd bs (length bs) w \<noteq> None"
    for c m bs w hd
    using that loop_built [OF that(1)]
    by (auto simp: loop_libdbus_def loop_local_def HandleMessage_def call_payload_def)
  then have "\<forall>c m bs w hd. built (loop_libdbus sv) (server_address sv) bs m w \<and> bs \<noteq> [] \<and> length bs \<le> 2 ^ 26 \<and>
      server_handler sv = Some hd \<and> hd bs (length bs) w \<noteq> None \<longrightarrow> isl (fst (send_with_reply_and_block (loop_libdbus sv) c m (- 1) w))"
    by blast
  then show ?thesis
    unfolding bus_reliable_def by (intro conjI loop_memory) (simp_all add: loop_libdbus_def loop_local_def)
qed

subsection \<open>A write through the client\<close>

text \<open>The server's side: what a reply that has been sent says of the handler.\<close>

lemma reply_to_app:
  assumes "bus_local lib v"
  shows "app v (snd (reply_to lib c m handled w)) = app v w"
  using assms by (simp add: reply_to_def bus_local_def keeps_app_def Let_def split_beta split: option.split)

lemma reply_to_sent:
  assumes "bus_messages lib v" and "reply_to lib c m handled w = (ResultHandled, w')"
  shows "last_answer v w' = Some handled"
proof -
  obtain reply w2 where 1: "new_method_return lib m w = (Some reply, w2)"
    using assms(2) by (auto simp: reply_to_def Let_def split: prod.splits option.splits if_splits)
  obtain w3 where 2: "append_boolean lib reply handled w2 = (True, w3)"
    using assms(2) 1 by (auto simp: reply_to_def Let_def split: prod.splits if_splits)
  obtain w4 where 3: "connection_send lib c reply w3 = (True, w4)"
    using assms(2) 1 2 by (auto simp: reply_to_def Let_def split: prod.splits if_splits)
  have "w' = message_unref lib reply (connection_flush lib c w4)"
    using assms(2) 1 2 3 by (simp add: reply_to_def)
  with bus_messages_reply [OF assms(1) 1 2] bus_messagesD(1) [OF assms(1) 3] show ?thesis
    by (simp add: bus_messagesD(2,3) [OF assms(1)])
qed

lemma served:
  assumes "bus_link lib v sc sv" and "server_handler sv = Some (handler_on v h)" and "runs_handler lib sc sv bs x result y"
  shows "\<exists>ok. h bs (length bs) (app v x) = Some (ok, app v y) \<and> (result = ResultHandled \<longrightarrow> last_answer v y = Some ok)"
proof -
  have l: "bus_local lib v" "bus_messages lib v" using assms(1) by (simp_all add: bus_link_def)
  from assms(2,3) obtain m ok s where h: "h bs (length bs) (app v x) = Some (ok, s)"
    and r: "reply_to lib sc m ok (put_app v s x) = (result, y)"
    by (auto simp: runs_handler_def HandleMessage_parts handler_on_def bind_eq_Some_conv)
  from reply_to_app [OF l(1), of sc m ok "put_app v s x"] have "app v y = s"
    using l(1) by (simp add: r bus_local_def app_part_def)
  with h r reply_to_sent [OF l(2)] show ?thesis by auto
qed

text \<open>The handler run on the same bytes, \<open>n\<close> times more than once.\<close>

primrec handled_again :: "'s data_handler \<Rightarrow> u8 list \<Rightarrow> nat \<Rightarrow> 's \<Rightarrow> (bool \<times> 's) option" where
  "handled_again h bs 0 s = h bs (length bs) s"
| "handled_again h bs (Suc n) s = do { (ok, s1) \<leftarrow> h bs (length bs) s; handled_again h bs n s1 }"

lemma dispatched_handled:
  assumes "dispatched lib v sc sv bs x y" and "bus_link lib v sc sv" and "server_handler sv = Some (handler_on v h)"
  shows "\<exists>n ok. handled_again h bs n (app v x) = Some (ok, app v y) \<and> last_answer v y = Some ok \<and>
    (server_memory lib sc sv \<longrightarrow> n = 0)"
  using assms(1)
proof (induction rule: dispatched.induct)
  case (handled x y)
  from served [OF assms(2,3) handled] show ?case by (intro exI [of _ 0]) simp
next
  case (again x x1 x2 y)
  have "\<not> server_memory lib sc sv" using again.hyps(1) by (auto simp: server_memory_def runs_handler_def)
  moreover obtain ok1 where "h bs (length bs) (app v x) = Some (ok1, app v x1)"
    using served [OF assms(2,3) again.hyps(1)] by blast
  moreover obtain n ok where "handled_again h bs n (app v x2) = Some (ok, app v y)" "last_answer v y = Some ok"
    using again.IH by blast
  ultimately show ?case using again.hyps(2) by (intro exI [of _ "Suc n"] exI [of _ ok]) simp
qed

text \<open>The client's side: what the outcome of \<open>Transmit\<close> says of the server's handler.\<close>

lemma AppendByteArray_cases:
  assumes "AppendByteArray lib m bs n w = Some (ok, w')"
  obtains (unopened) "fst (open_byte_array lib m w) = False" and "\<not> ok"
  | (array) data w1 appended w2 closed where "open_byte_array lib m w = (True, w1)"
      and "read_at bs 0 (nat (int_length n)) = Some data" and "append_fixed_array lib m data (int_length n) w1 = (appended, w2)"
      and "close_array lib m w2 = (closed, w')" and "ok \<longleftrightarrow> appended \<and> closed"
proof (cases "fst (open_byte_array lib m w)")
  case False
  with assms have "\<not> ok" by (simp add: AppendByteArray_def split_beta)
  with False unopened show thesis by simp
next
  case True
  then obtain w1 where 1: "open_byte_array lib m w = (True, w1)" by (cases "open_byte_array lib m w") simp
  with assms obtain data where 2: "read_at bs 0 (nat (int_length n)) = Some data"
    by (cases "read_at bs 0 (nat (int_length n))") (simp_all add: AppendByteArray_def)
  obtain appended w2 where 3: "append_fixed_array lib m data (int_length n) w1 = (appended, w2)" by force
  obtain closed w3 where 4: "close_array lib m w2 = (closed, w3)" by force
  have "ok \<longleftrightarrow> appended \<and> closed" "w' = w3"
    using assms 1 2 3 4 by (simp_all add: AppendByteArray_def split: if_splits)
  with 1 2 3 4 array show thesis by blast
qed

lemma AppendByteArray_whole:
  assumes "length bs \<le> 2 ^ 26" and "AppendByteArray lib m bs (length bs) w = Some (True, w')"
  obtains w1 w2 where "open_byte_array lib m w = (True, w1)" and "append_fixed_array lib m bs (int (length bs)) w1 = (True, w2)"
    and "close_array lib m w2 = (True, w')"
proof -
  have n: "int_length (length bs) = int (length bs)" using assms(1) by (simp add: int_length_exact)
  have r: "read_at bs 0 (nat (int_length (length bs))) = Some bs" unfolding n by (simp add: read_at_def)
  from assms(2) show thesis
  proof (cases rule: AppendByteArray_cases)
    case (array data w1 appended w2 closed)
    with n r that show thesis by simp
  qed simp
qed

lemma built_reliable:
  assumes "bus_reliable lib sc sv" and "new_method_call lib (server_address sv) w = (Some m, w1)" and "length bs \<le> 2 ^ 26"
    and "AppendByteArray lib m bs (length bs) w1 = Some (ok, w2)"
  shows ok
proof -
  have n: "int_length (length bs) = int (length bs)" using assms(3) by (simp add: int_length_exact)
  have steps: "fst (open_byte_array lib m w1)"
    "open_byte_array lib m w1 = (True, x) \<Longrightarrow> fst (append_fixed_array lib m bs (int (length bs)) x)"
    "open_byte_array lib m w1 = (True, x) \<Longrightarrow> append_fixed_array lib m bs (int (length bs)) x = (True, y) \<Longrightarrow>
      fst (close_array lib m y)" for x y
    using assms(1-3) unfolding bus_reliable_def by blast+
  from assms(4) show ?thesis
  proof (cases rule: AppendByteArray_cases)
    case unopened
    with steps(1) show ?thesis by simp
  next
    case (array data w1' appended w2' closed)
    then have data: "data = bs" unfolding n by (simp add: read_at_def)
    with array(3) steps(2) [OF array(1)] have a: "appended" "append_fixed_array lib m bs (int (length bs)) w1' = (True, w2')"
      by (simp_all add: n)
    with steps(3) [OF array(1) a(2)] array(4,5) show ?thesis by simp
  qed
qed

lemma Transmit_served:
  assumes "bus_link lib v sc sv" and "server_handler sv = Some (handler_on v h)"
    and "client_connection cl = Some c" and "client_address cl = server_address sv"
    and "bs \<noteq> []" and "length bs \<le> 2 ^ 26" and "Transmit lib cl (Some bs) (length bs) w = Some (ok, w')"
    and "ok \<or> bus_reliable lib sc sv \<and> h bs (length bs) (app v w) \<noteq> None"
  shows "\<exists>n. handled_again h bs n (app v w) = Some (ok, app v w') \<and> (server_memory lib sc sv \<longrightarrow> n = 0)"
proof -
  have l: "bus_local lib v" and bm: "bus_messages lib v" and d: "bus_delivers lib v sc sv"
    using assms(1) by (simp_all add: bus_link_def)
  obtain m w1 where 1: "new_method_call lib (server_address sv) w = (Some m, w1)"
  proof (cases "fst (new_method_call lib (server_address sv) w)")
    case None
    then have "\<not> bus_reliable lib sc sv" unfolding bus_reliable_def by blast
    moreover from None assms(3-5,7) have "\<not> ok" by (simp add: Transmit_def split_beta)
    ultimately show thesis using assms(8) by blast
  next
    case (Some m)
    with that show thesis by (cases "new_method_call lib (server_address sv) w") simp
  qed
  obtain appended w2 where 2: "AppendByteArray lib m bs (length bs) w1 = Some (appended, w2)"
    using assms(3-5,7) 1 by (cases "AppendByteArray lib m bs (length bs) w1") (auto simp: Transmit_def)
  have appended
  proof (rule ccontr)
    assume no: "\<not> appended"
    with assms(3-5,7) 1 2 have "\<not> ok" by (simp add: Transmit_def)
    with assms(8) built_reliable [OF _ 1 assms(6) 2] no show False by blast
  qed
  with 2 have "AppendByteArray lib m bs (length bs) w1 = Some (True, w2)" by simp
  from AppendByteArray_whole [OF assms(6) this] obtain x1 x2 where a: "open_byte_array lib m w1 = (True, x1)"
    "append_fixed_array lib m bs (int (length bs)) x1 = (True, x2)" "close_array lib m x2 = (True, w2)" .
  have call: "built lib (server_address sv) bs m w2" unfolding built_def using 1 a by blast
  have w2: "app v w2 = app v w"
  proof -
    have "app v (snd (new_method_call lib (server_address sv) w)) = app v w" "app v (snd (open_byte_array lib m w1)) = app v w1"
      "app v (snd (append_fixed_array lib m bs (int (length bs)) x1)) = app v x1" "app v (snd (close_array lib m x2)) = app v x2"
      using l by (simp_all add: bus_local_def keeps_app_def)
    then show ?thesis by (simp add: 1 a)
  qed
  obtain reply w3 where 3: "send_with_reply_and_block lib c m (- 1) w2 = (reply, w3)" by force
  obtain r where r: "reply = Inl r"
  proof (cases reply)
    case (Inr e)
    with 3 have "\<not> isl (fst (send_with_reply_and_block lib c m (- 1) w2))" by simp
    moreover have "handler_on v h bs (length bs) w2 = map_option (\<lambda>(ok, s). (ok, put_app v s w2)) (h bs (length bs) (app v w))"
      unfolding handler_on_def w2 ..
    ultimately have "\<not> (bus_reliable lib sc sv \<and> h bs (length bs) (app v w) \<noteq> None)"
      using call assms(2,5,6) unfolding bus_reliable_def by (metis option.map_disc_iff)
    moreover have "\<not> ok" using Inr assms(3-5,7) 1 2 3 \<open>appended\<close> by (simp add: Transmit_def)
    ultimately show thesis using assms(8) by blast
  qed (use that in blast)
  have "send_with_reply_and_block lib c m (- 1) w2 = (Inl r, w3)" using 3 r by simp
  with d call assms(5,6) obtain x y where del: "r \<noteq> m" "app v x = app v w2" "dispatched lib v sc sv bs x y"
    "app v w3 = app v y" "answer_of v r w3 = last_answer v y"
    unfolding bus_delivers_def by blast
  from dispatched_handled [OF del(3) assms(1,2)] obtain n said where
    h: "handled_again h bs n (app v x) = Some (said, app v y)" "server_memory lib sc sv \<longrightarrow> n = 0"
    and ans: "answer_of v r w3 = Some said"
    by (auto simp: del(5))
  from bus_messagesD(4) [OF bm del(1)] ans have "answer_of v r (message_unref lib m w3) = Some said" by simp
  from bus_messagesD(5) [OF bm this] have "fst (get_boolean lib r (message_unref lib m w3)) = Inl said" .
  then obtain w5 where 4: "get_boolean lib r (message_unref lib m w3) = (Inl said, w5)"
    by (cases "get_boolean lib r (message_unref lib m w3)") auto
  have res: "ok = said" "w' = message_unref lib r w5"
    using assms(3-5,7) 1 2 3 4 r \<open>appended\<close> by (auto simp: Transmit_def)
  have k: "app v (message_unref lib m w3) = app v w3"
    "app v (snd (get_boolean lib r (message_unref lib m w3))) = app v (message_unref lib m w3)" "app v w' = app v w5"
    using l by (simp_all add: bus_local_def keeps_app_def res(2))
  then have "app v x = app v w" "app v y = app v w'" using w2 4 del(2,4) by simp_all
  with h res(1) show ?thesis by auto
qed

lemma MakeWriteCallback_served:
  assumes "bus_link lib v sc sv" and "server_handler sv = Some (handler_on v h)"
    and "client_connection cl = Some c" and "client_address cl = server_address sv"
    and "bs \<noteq> []" and "length bs \<le> 2 ^ 26" and "MakeWriteCallback lib cl bs w = (ok, w')"
    and "ok \<or> bus_reliable lib sc sv \<and> h bs (length bs) (app v w) \<noteq> None"
  shows "\<exists>n. handled_again h bs n (app v w) = Some (ok, app v w') \<and> (server_memory lib sc sv \<longrightarrow> n = 0)"
proof -
  obtain r where r: "Transmit lib cl (Some bs) (length bs) w = Some r" using Transmit_readable [of lib cl bs w] by blast
  with assms(7) have "r = (ok, w')" by (simp add: MakeWriteCallback_def)
  with Transmit_served [OF assms(1-6) _ assms(8)] r show ?thesis by simp
qed

text \<open>
  C18. A write through the client is a call of the server's handler: if the client connects to the
  server's address over a bus that does what libdbus documents, a write that reports success has been
  handled there with exactly the bytes written, and the handler has accepted them. It has been handled
  once if the server did not run out of memory while it replied, and otherwise possibly more often, with
  the same bytes; the last run is the one whose verdict is reported. If nothing fails on the way, the
  write reports what the handler says, also when it refuses, and the handler runs once.
\<close>

theorem write_calls_handler:
  assumes "bus_link lib v sc sv" and "server_handler sv = Some (handler_on v h)"
    and "client_connection cl = Some c" and "client_address cl = server_address sv"
    and "bs \<noteq> []" and "length bs \<le> 2 ^ 26" and "MakeWriteCallback lib cl bs w = (ok, w')"
  shows "(ok \<longrightarrow> (\<exists>n. handled_again h bs n (app v w) = Some (True, app v w'))) \<and>
    (ok \<and> server_memory lib sc sv \<longrightarrow> h bs (length bs) (app v w) = Some (True, app v w')) \<and>
    (bus_reliable lib sc sv \<and> h bs (length bs) (app v w) \<noteq> None \<longrightarrow> h bs (length bs) (app v w) = Some (ok, app v w'))"
proof -
  note served = MakeWriteCallback_served [OF assms]
  have once: "h bs (length bs) (app v w) = Some (ok, app v w')"
    if "ok \<or> bus_reliable lib sc sv \<and> h bs (length bs) (app v w) \<noteq> None" and "server_memory lib sc sv"
    using served [OF that(1)] that(2) by auto
  have "server_memory lib sc sv" if "bus_reliable lib sc sv" using that by (simp add: bus_reliable_def)
  moreover have "\<exists>n. handled_again h bs n (app v w) = Some (True, app v w')" if ok using served that by auto
  ultimately show ?thesis using once by (cases ok) simp_all
qed

theorem write_calls_handler_witness:
  "let h = (\<lambda>p n log. Some (n < 4, log @ [take n p]));
       sv = \<lparr>server_connection = Some (), server_address = kAddress, server_handler = Some (handler_on loop_view h)\<rparr> in
   \<exists>w'. MakeWriteCallback (loop_libdbus sv) \<lparr>client_connection = Some (), client_address = kAddress\<rparr> [1, 2, 3]
       \<lparr>lb_app = [], lb_address = kAddress, lb_bytes = [], lb_answer = None\<rparr> = (True, w') \<and> lb_app w' = [[1, 2, 3]]"
proof -
  let ?h = "\<lambda>p n log. Some (n < 4, log @ [take n p]) :: (bool \<times> u8 list list) option"
  let ?sv = "\<lparr>server_connection = Some (), server_address = kAddress, server_handler = Some (handler_on loop_view ?h)\<rparr>"
  let ?cl = "\<lparr>client_connection = Some (), client_address = kAddress\<rparr>"
  let ?w = "\<lparr>lb_app = [], lb_address = kAddress, lb_bytes = [], lb_answer = None\<rparr>"
  obtain ok w' where m: "MakeWriteCallback (loop_libdbus ?sv) ?cl [1, 2, 3] ?w = (ok, w')" by force
  from write_calls_handler [OF loop_link _ _ _ _ _ m, of ?h "()"] loop_reliable [of ?sv]
  have "ok" "lb_app w' = [[1, 2, 3]]" by (simp_all add: loop_view_def)
  with m show ?thesis by (simp add: Let_def)
qed

subsection \<open>The two example programs over a bus\<close>

lemma receive_frames_append:
  "receive_frames mc pc szw f2 env (frs @ frs') w = do {
     (hs, w1) \<leftarrow> receive_frames mc pc szw f2 env frs w;
     (hs', w2) \<leftarrow> receive_frames mc pc szw f2 env frs' w1;
     Some (hs @ hs', w2) }"
proof (induction frs arbitrary: w)
  case Nil
  then show ?case by (simp split: bind_splits)
next
  case (Cons fr' frs)
  then show ?case by (auto split: bind_splits)
qed

lemma receive_frames_snoc:
  "receive_frames mc pc szw f2 env (frs @ [fr]) w = do {
     (hs, w1) \<leftarrow> receive_frames mc pc szw f2 env frs w;
     (h, w2) \<leftarrow> receiver_handler mc pc szw f2 env fr (length fr) w1;
     Some (hs @ [h], w2) }"
  by (simp add: receive_frames_append split: bind_splits)

lemma refused_not_all:
  assumes "receive_frames mc pc szw f2 env (sent @ [fr]) w = Some (hs @ [False], s)"
    and "receive_frames mc pc szw f2 env (sent @ fr # rest) w = Some (replicate n True, s')"
  shows False
proof -
  from assms(2) receive_frames_append [of mc pc szw f2 env "sent @ [fr]" rest w] assms(1)
  obtain hs' where "hs @ [False] @ hs' = replicate n True" by (auto split: bind_splits)
  moreover have "False \<in> set (hs @ [False] @ hs')" by simp
  ultimately show False by (metis in_set_replicate)
qed

text \<open>The receiver has handled what the sender has sent; a refusal on a bus without faults is the receiver's.\<close>

definition received_so_far ::
  "('m, 'w, 's) bus_view \<Rightarrow> (u8 list list \<Rightarrow> (bool list \<times> 's) option) \<Rightarrow> u8 list list \<Rightarrow> 'w \<Rightarrow> bool" where
  "received_so_far v rcv sent w \<longleftrightarrow> rcv sent = Some (replicate (length sent) True, app v w)"

definition refused_there ::
  "bool \<Rightarrow> (u8 list list \<Rightarrow> (bool list \<times> 's) option) \<Rightarrow> u8 list list \<Rightarrow> u8 list \<Rightarrow> 'w \<Rightarrow> bool" where
  "refused_there reliable rcv sent fr w \<longleftrightarrow>
     (reliable \<and> rcv (sent @ [fr]) \<noteq> None \<longrightarrow> (\<exists>s. rcv (sent @ [fr]) = Some (replicate (length sent) True @ [False], s)))"

text \<open>A handler of the receiver in a larger world does with its part what it does with that part alone.\<close>

lemma receiver_dispatch_map:
  assumes "\<And>line s. print_stdout env' line (f s) = f (print_stdout env line s)"
  shows "midi_dispatch (receiver_midi env') m (f s) = apsnd f (midi_dispatch (receiver_midi env) m s)"
    and "pwm_dispatch (receiver_pwm f2 env') p (f s) = apsnd f (pwm_dispatch (receiver_pwm f2 env) p s)"
proof -
  have "print_entries env' i es (f s) = f (print_entries env i es s)" for i es s
    by (induction es arbitrary: i s) (simp_all add: assms)
  then have "PrintFaultLog env' l (f s) = f (PrintFaultLog env l s)" for l s
    by (simp add: PrintFaultLog_def assms Let_def split: option.split)
  then show "pwm_dispatch (receiver_pwm f2 env') p (f s) = apsnd f (pwm_dispatch (receiver_pwm f2 env) p s)"
    by (cases p) (simp_all add: pwm_dispatch_def receiver_handlers invoke_def PrintChannelConfig_def PrintFaultControl_def assms split: option.split)
  show "midi_dispatch (receiver_midi env') m (f s) = apsnd f (midi_dispatch (receiver_midi env) m s)"
    by (cases m) (simp_all add: midi_dispatch_def receiver_handlers invoke_def PrintPing_def PrintChannel_def PrintSystemCommon_def
        PrintSystemRealTime_def PrintSystemExclusive_def assms split: option.split)
qed

lemma receiver_handler_map:
  assumes "\<And>line s. print_stdout env' line (f s) = f (print_stdout env line s)"
  shows "receiver_handler mc pc szw f2 env' bs n (f s) = map_option (\<lambda>(ok, s). (ok, f s)) (receiver_handler mc pc szw f2 env bs n s)"
proof -
  note dispatch = receiver_dispatch_map [of env' f env, OF assms]
  have "MidiEndpoint_HandleFrame mc (receiver_midi env') b k (f s) =
      map_option (\<lambda>(ok, s). (ok, f s)) (MidiEndpoint_HandleFrame mc (receiver_midi env) b k s)" for b k s
    by (simp add: MidiEndpoint_HandleFrame_def dispatch(1) apsnd_def map_prod_def split: bind_split option.split)
  then have midi: "MidiEndpoint_HandleIncoming mc szw (receiver_midi env') b n (f s) =
      map_option (\<lambda>(ok, s). (ok, f s)) (MidiEndpoint_HandleIncoming mc szw (receiver_midi env) b n s)" for b n s
    unfolding MidiEndpoint_HandleIncoming_def by (rule HandleIncoming_map)
  have "PwmEndpoint_HandleFrame pc (receiver_pwm f2 env') b k (f s) =
      map_option (\<lambda>(ok, s). (ok, f s)) (PwmEndpoint_HandleFrame pc (receiver_pwm f2 env) b k s)" for b k s
    by (simp add: PwmEndpoint_HandleFrame_def dispatch(2) apsnd_def map_prod_def split: bind_split option.split)
  then have pwm: "PwmEndpoint_HandleIncoming pc szw (receiver_pwm f2 env') b n (f s) =
      map_option (\<lambda>(ok, s). (ok, f s)) (PwmEndpoint_HandleIncoming pc szw (receiver_pwm f2 env) b n s)" for b n s
    unfolding PwmEndpoint_HandleIncoming_def by (rule HandleIncoming_map)
  show ?thesis
    by (auto simp: receiver_handler_def CombinedHandler_def midi pwm split: bind_splits)
qed

text \<open>The receiver's terminal is part of the application behind the server.\<close>

definition prints_on :: "('m, 'w, 's) bus_view \<Rightarrow> 'w posix \<Rightarrow> (string \<Rightarrow> 's \<Rightarrow> 's) \<Rightarrow> bool" where
  "prints_on v env console \<longleftrightarrow> (\<forall>line w. print_stdout env line w = put_app v (console line (app v w)) w)"

lemma receiver_handler_on:
  assumes "app_part v" and "prints_on v renv console" and "print_stdout cenv = console"
  shows "receiver_handler mc pc szw f2 renv = handler_on v (receiver_handler mc pc szw f2 cenv)"
proof (intro ext)
  fix p n w
  have "receiver_handler mc pc szw f2 renv p n (put_app v (app v w) w) =
      map_option (\<lambda>(ok, s). (ok, put_app v s w)) (receiver_handler mc pc szw f2 cenv p n (app v w))"
    by (rule receiver_handler_map) (use assms in \<open>simp add: prints_on_def app_part_def\<close>)
  moreover have "put_app v (app v w) w = w" using assms(1) by (simp add: app_part_def)
  ultimately show "receiver_handler mc pc szw f2 renv p n w = handler_on v (receiver_handler mc pc szw f2 cenv) p n w"
    by (simp add: handler_on_def)
qed

lemma server_Start_registers:
  "server_Start lib h sv w = (True, sv', w') \<Longrightarrow> server_handler sv' = h \<and> server_address sv' = server_address sv"
  by (auto simp: server_Start_def Let_def split: prod.splits sum.splits if_splits)

text \<open>The sender's own terminal, clock and sleep leave the receiver alone.\<close>

definition env_local :: "('m, 'w, 's) bus_view \<Rightarrow> 'w posix \<Rightarrow> bool" where
  "env_local v env \<longleftrightarrow> keeps_app v (\<lambda>w. snd (clock_gettime env w)) \<and> (\<forall>a b. keeps_app v (nanosleep env a b)) \<and>
     (\<forall>line. keeps_app v (print_stdout env line)) \<and> (\<forall>line. keeps_app v (print_error env line))"

lemma dbus_sender_link:
  assumes "bus_link lib v sc sv" and "server_memory lib sc sv" and "server_handler sv = Some (handler_on v (receiver_handler mc pc szw f2 renv))"
    and "client_connection cl = Some c" and "client_address cl = server_address sv" and "env_local v env"
    and "rcv = (\<lambda>frs. receive_frames mc pc szw f2 renv frs s0)"
  shows "sender_link env (MakeWriteCallback lib cl) (received_so_far v rcv) (refused_there (bus_reliable lib sc sv) rcv)"
proof
  fix sent w w' and fr :: "u8 list"
  assume so_far: "received_so_far v rcv sent w" and ne: "fr \<noteq> []" and fits: "length fr \<le> MAXIMUM_TOTAL_BUFFER_SIZE_BYTES"
  from fits have le: "length fr \<le> 2 ^ 26" by (simp add: transmit_consts size_consts)
  have served: "receiver_handler mc pc szw f2 renv fr (length fr) (app v w) = Some (ok, app v w')"
    if "MakeWriteCallback lib cl fr w = (ok, w')"
      and "ok \<or> bus_reliable lib sc sv \<and> receiver_handler mc pc szw f2 renv fr (length fr) (app v w) \<noteq> None" for ok
    using MakeWriteCallback_served [OF assms(1,3-5) ne le that] assms(2) by auto
  {
    assume "MakeWriteCallback lib cl fr w = (True, w')"
    from served [OF this] so_far show "received_so_far v rcv (sent @ [fr]) w'"
      by (simp add: received_so_far_def assms(7) receive_frames_snoc replicate_append_same)
  next
    assume refused: "MakeWriteCallback lib cl fr w = (False, w')"
    show "refused_there (bus_reliable lib sc sv) rcv sent fr w'"
      unfolding refused_there_def
    proof
      assume r: "bus_reliable lib sc sv \<and> rcv (sent @ [fr]) \<noteq> None"
      with so_far have "receiver_handler mc pc szw f2 renv fr (length fr) (app v w) \<noteq> None"
        by (auto simp: received_so_far_def assms(7) receive_frames_snoc bind_eq_Some_conv)
      with served [OF refused] r so_far
      show "\<exists>s. rcv (sent @ [fr]) = Some (replicate (length sent) True @ [False], s)"
        by (simp add: received_so_far_def assms(7) receive_frames_snoc)
    qed
  }
qed (use assms(6) in \<open>simp_all add: received_so_far_def refused_there_def env_local_def keeps_app_def\<close>)

lemma open_client_app:
  assumes "bus_local lib v"
  shows "app v (snd (open_client lib address w)) = app v w"
  using assms by (simp add: open_client_def LogAndClearError_def bus_local_def keeps_app_def split_beta split: sum.split)

lemma close_client_app:
  assumes "bus_local lib v"
  shows "app v (snd (close_client lib cl w)) = app v w"
  using assms by (simp add: close_client_def bus_local_def keeps_app_def split: option.split)

text \<open>The sender's \<open>main\<close> against a server whose handler is the receiver's.\<close>

lemma sender_over_bus:
  assumes "bus_link lib v sc sv" and "server_memory lib sc sv" and "server_address sv = receiver_kAddress"
    and "server_handler sv = Some (handler_on v (receiver_handler mc pc szw f2 renv))" and "env_local v env" and "transmit_ok tx"
    and "codec_ok mc midi_exact" and "codec_ok pc pwm_exact" and "identifiers_differ mc pc" and "32 \<le> szw"
    and "\<forall>t \<in> clock_times env. \<forall>m \<in> set (sender_midi_messages t). length (FinishBuffer mc m) \<le> kMaxFrameSize"
    and "\<forall>t1 \<in> clock_times env. \<forall>t2 \<in> clock_times env. \<forall>m \<in> set (sender_pwm_messages t1 t2).
      length (FinishBuffer pc m) \<le> kMaxFrameSize"
  shows "\<exists>code w'. sender_main lib env mc pc tx w = Some (code, w') \<and>
     (code = 0 \<longrightarrow> (\<exists>t0 \<in> clock_times env. \<exists>t1 \<in> clock_times env. \<exists>t2 \<in> clock_times env.
       app v w' = fold (print_stdout renv) (sender_lines f2 t0 t1 t2) (app v w))) \<and>
     (bus_reliable lib sc sv \<longrightarrow> code = 0)"
proof -
  have local: "bus_local lib v" using assms(1) by (simp add: bus_link_def)
  obtain cl w1 where cl: "open_client lib kAddress w = (cl, w1)" by force
  with open_client_app [OF local, of kAddress w] have w1: "app v w1 = app v w" by simp
  have address: "client_address cl = server_address sv"
    using cl by (auto simp: open_client_def assms(3) kAddress_def receiver_kAddress_def split: prod.splits sum.splits)
  show ?thesis
  proof (cases "client_connection cl")
    case None
    have "\<not> isl (fst (bus_get lib w))" using cl None by (auto simp: open_client_def split: prod.splits sum.splits)
    then have "\<not> bus_reliable lib sc sv" unfolding bus_reliable_def by blast
    with cl None show ?thesis by (simp add: sender_main_def client_Valid_def)
  next
    case (Some c)
    define rcv where "rcv = (\<lambda>frs. receive_frames mc pc szw f2 renv frs (app v w))"
    note link = dbus_sender_link [OF assms(1,2,4) Some address assms(5) rcv_def]
    let ?wr = "MakeWriteCallback lib cl" and ?I = "received_so_far v rcv" and ?R = "refused_there (bus_reliable lib sc sv) rcv"
      and ?T = "clock_times env"
    let ?st = "\<lparr>sender_midi = MidiEndpoint (Some ?wr), sender_pwm = PwmEndpoint (Some ?wr), sender_tx = tx, sender_world = w1\<rparr>"
    have "all_taken ?wr ?I [] 1 1 ?st"
      using assms(6) w1 by (simp add: all_taken_def received_so_far_def rcv_def MidiEndpoint_def PwmEndpoint_def FrameTransport_def)
    moreover have "finishes mc pc ?T ?wr ?I ?R [] 1 1 (sender_script env mc pc)"
      by (rule sender_link.script_finishes [OF link]) (use assms(11,12) in \<open>simp_all add: list_all_iff\<close>)
    ultimately obtain r where r: "run_steps (sender_script env mc pc) ?st = Some r" "ends_well mc pc ?T ?I ?R r"
      by (blast dest: finishesD)
    have all: "rcv (sender_frames mc pc t0 t1 t2) =
        Some (replicate 9 True, fold (print_stdout renv) (sender_lines f2 t0 t1 t2) (app v w))"
      if "t0 \<in> ?T" "t1 \<in> ?T" "t2 \<in> ?T" for t0 t1 t2
      unfolding rcv_def by (rule receive_sender_frames [OF assms(7-10)]) (use assms(11,12) that in simp_all)
    show ?thesis
    proof (cases r)
      case (Inl x)
      from r(2) Inl obtain t0 t1 t2 sent fr rest where t: "t0 \<in> ?T" "t1 \<in> ?T" "t2 \<in> ?T"
        and frames: "sent @ fr # rest = sender_frames mc pc t0 t1 t2"
        and refused: "fst x = 1" "?R sent fr (sender_world (snd x))"
        by (auto simp: ends_well_def refused_after_def)
      have "\<not> bus_reliable lib sc sv"
      proof
        assume "bus_reliable lib sc sv"
        moreover have "rcv (sent @ [fr]) \<noteq> None"
          using all [OF t, folded frames] receive_frames_append [of mc pc szw f2 renv "sent @ [fr]" rest "app v w"]
          by (auto simp: rcv_def split: bind_splits)
        ultimately obtain s where "receive_frames mc pc szw f2 renv (sent @ [fr]) (app v w) =
            Some (replicate (length sent) True @ [False], s)"
          using refused(2) by (auto simp: refused_there_def rcv_def)
        from all [OF t, folded frames] show False
          unfolding rcv_def by (rule refused_not_all [OF \<open>receive_frames mc pc szw f2 renv (sent @ [fr]) (app v w) = _\<close>])
      qed
      with Inl r(1) refused(1) cl Some show ?thesis
        by (cases x) (simp add: sender_main_def send_all_def client_Valid_def)
    next
      case (Inr st)
      with r(2) obtain t0 t1 t2 where t: "t0 \<in> ?T" "t1 \<in> ?T" "t2 \<in> ?T" and "?I (sender_frames mc pc t0 t1 t2) (sender_world st)" by (auto simp: ends_well_def)
      with all [OF t]
      have "app v (sender_world st) = fold (print_stdout renv) (sender_lines f2 t0 t1 t2) (app v w)"
        by (simp add: received_so_far_def)
      with Inr t r(1) cl Some close_client_app [OF local, of cl "sender_world st"] show ?thesis
        by (auto simp: sender_main_def send_all_def client_Valid_def)
    qed
  qed
qed

text \<open>
  C17. What the sender of the examples sends, the receiver prints. The server has been started as the
  receiver's \<open>main\<close> starts it, with its handlers (without the registration of
  \<open>PrintChannelTelemetry\<close>, which \<open>PwmEndpoint\<close> does not have), and does not run out of memory when it
  replies; that its loop dispatches the calls is part of what the bus does. Then the sender's
  \<open>main\<close> ends, and if it ends with 0, the receiver's terminal shows the lines \<open>sender_lines\<close> and nothing
  else: one for each of the five MIDI messages, for the channel configuration and for the fault control
  command, three for the fault log, in the order and with the values and times of the sender, and none
  for the telemetry message. If nothing fails on the bus the sender does end with 0.
\<close>

theorem sender_messages_printed:
  assumes "server_Start lib (Some (receiver_handler mc pc szw f2 renv)) (new_server receiver_kAddress) w0 = (True, sv, w0')"
    and "server_connection sv = Some sc" and "bus_link lib v sc sv" and "server_memory lib sc sv"
    and "prints_on v renv console" and "env_local v env" and "transmit_ok tx"
    and "codec_ok mc midi_exact" and "codec_ok pc pwm_exact" and "identifiers_differ mc pc" and "32 \<le> szw"
    and "\<forall>t \<in> clock_times env. \<forall>m \<in> set (sender_midi_messages t). length (FinishBuffer mc m) \<le> kMaxFrameSize"
    and "\<forall>t1 \<in> clock_times env. \<forall>t2 \<in> clock_times env. \<forall>m \<in> set (sender_pwm_messages t1 t2).
      length (FinishBuffer pc m) \<le> kMaxFrameSize"
  shows "\<exists>code w'. sender_main lib env mc pc tx w = Some (code, w') \<and>
     (code = 0 \<longrightarrow> (\<exists>t0 \<in> clock_times env. \<exists>t1 \<in> clock_times env. \<exists>t2 \<in> clock_times env.
       app v w' = fold console (sender_lines f2 t0 t1 t2) (app v w))) \<and>
     (bus_reliable lib sc sv \<longrightarrow> code = 0)"
proof -
  define cenv where "cenv = quiet_env\<lparr>print_stdout := console\<rparr>"
  have "server_handler sv = Some (receiver_handler mc pc szw f2 renv)" "server_address sv = receiver_kAddress"
    using server_Start_registers [OF assms(1)] by (simp_all add: new_server_def)
  moreover have "app_part v" using assms(3) by (simp add: bus_link_def bus_local_def)
  ultimately have "server_handler sv = Some (handler_on v (receiver_handler mc pc szw f2 cenv))"
    using receiver_handler_on [OF _ assms(5), of cenv mc pc szw f2] by (simp add: cenv_def)
  from sender_over_bus [OF assms(3,4) \<open>server_address sv = receiver_kAddress\<close> this assms(6-13)]
  show ?thesis by (simp add: cenv_def)
qed

theorem sender_messages_printed_witness:
  "\<exists>mc pc sv w'. server_Start (loop_libdbus sv) (Some (receiver_handler mc pc 32 (\<lambda>x. ''?'')
       (quiet_env\<lparr>print_stdout := \<lambda>line w. w\<lparr>lb_app := lb_app w @ line\<rparr>\<rparr>))) (new_server receiver_kAddress) w' = (True, sv, w') \<and>
     (\<exists>w''. sender_main (loop_libdbus sv) quiet_env mc pc initial_transmit_state
         \<lparr>lb_app = [], lb_address = kAddress, lb_bytes = [], lb_answer = None\<rparr> = Some (0, w'') \<and>
       lb_app w'' = concat (sender_lines (\<lambda>x. ''?'') 0 0 0))"
proof -
  let ?mi = "[77, 50, 80, 77] :: u8 list" and ?pi = "[80, 87, 77, 88] :: u8 list"
  let ?mc = "table_codec ?mi (tagged ?mi (sender_midi_messages 0))" and ?pc = "table_codec ?pi (tagged ?pi (sender_pwm_messages 0 0))"
  let ?env = "quiet_env\<lparr>print_stdout := \<lambda>line w. w\<lparr>lb_app := lb_app w @ line\<rparr>\<rparr> :: string loop_bus posix"
  let ?h = "receiver_handler ?mc ?pc 32 (\<lambda>x. ''?'') ?env"
  let ?sv = "\<lparr>server_connection = Some (), server_address = receiver_kAddress, server_handler = Some ?h\<rparr>"
  let ?w = "\<lparr>lb_app = [], lb_address = kAddress, lb_bytes = [], lb_answer = None\<rparr>"
  let ?con = "\<lambda>line out. out @ line :: string"
  have start: "server_Start (loop_libdbus ?sv) (Some ?h) (new_server receiver_kAddress) ?w = (True, ?sv, ?w)"
    by (simp add: server_Start_def new_server_def loop_libdbus_def loop_local_def)
  have times: "clock_times (quiet_env :: string loop_bus posix) = {0}"
    by (simp add: clock_times_def TimestampNow_def quiet_env_def)
  have "env_local loop_view (quiet_env :: string loop_bus posix)"
    by (simp add: env_local_def keeps_app_def quiet_env_def)
  moreover have "prints_on loop_view ?env ?con" by (simp add: prints_on_def loop_view_def)
  ultimately have "\<exists>code w'. sender_main (loop_libdbus ?sv) quiet_env ?mc ?pc initial_transmit_state ?w = Some (code, w') \<and>
      (code = 0 \<longrightarrow> (\<exists>t0 \<in> clock_times (quiet_env :: string loop_bus posix). \<exists>t1 \<in> clock_times (quiet_env :: string loop_bus posix).
        \<exists>t2 \<in> clock_times (quiet_env :: string loop_bus posix).
        app loop_view w' = fold ?con (sender_lines (\<lambda>x. ''?'') t0 t1 t2) (app loop_view ?w))) \<and>
      (bus_reliable (loop_libdbus ?sv) () ?sv \<longrightarrow> code = 0)"
    by (intro sender_messages_printed [OF start _ loop_link loop_memory])
      (simp_all add: transmit_ok_initial times tagged_ok tagged_differ tagged_finish size_consts,
       simp_all add: sender_midi_messages_def sender_pwm_messages_def tagged_ok)
  moreover have "fold ?con ls out = out @ concat ls" for ls out
    by (induction ls arbitrary: out) simp_all
  ultimately obtain w'' where "sender_main (loop_libdbus ?sv) quiet_env ?mc ?pc initial_transmit_state ?w = Some (0, w'')"
    "lb_app w'' = concat (sender_lines (\<lambda>x. ''?'') 0 0 0)"
    using loop_reliable [of ?sv] by (auto simp: times loop_view_def)
  with start show ?thesis by blast
qed

end
