(* ===== verification/Log_Output.thy ===== *)
theory Log_Output
  imports Logging Log_Endpoint
begin

section \<open>The log output of the frame transport, and sinks that send (src/frame_transport.cpp)\<close>

text \<open>
  \<open>Frame_Transport\<close> leaves the log statements out. Here the operations are modelled again with every
  \<open>LIBCOMM_LOG_\<close> statement in its place, as the macros of \<open>Logging\<close>. A log statement hands control to
  the global sink, and the log endpoint is there for sinks that send what they are given: the sink
  therefore acts on the whole node, that is all transports, the static buffers, and the static mutex
  that \<open>TransmitFrame\<close> holds while it logs.

  A result \<open>None\<close> is undefined behaviour or an operation that does not return. \<open>etl::mutex\<close> is not in
  the repository: what it does when the thread that holds it locks it again is the parameter
  \<open>relock\<close> (with \<open>std::mutex\<close> or a plain RTOS mutex the thread is stuck, with a recursive one it goes on).
  There is one thread; \<open>Concurrent_Send\<close> has the interleavings. The properties on blocking are for levels
  1 to 3 (the CMake option and the header default to 3 and 2): with debug lines compiled in, a send
  logs even if nothing fails.
\<close>

subsection \<open>The node\<close>

record 'w node =
  node_transport :: "nat \<Rightarrow> 'w frame_transport"
  node_tx :: transmit_state
  transmitMutex :: nat
  node_world :: 'w

text \<open>A sink gets \<open>None\<close> where no log statement is reached; arguments are unsigned integers.\<close>

type_synonym 'w node_sink = "(u32, 'w node option) log_sink"
type_synonym 'w node_log = "(u32, 'w node option) log_state"
type_synonym 'w transport_send = "nat \<Rightarrow> ptr \<Rightarrow> nat \<Rightarrow> 'w node \<Rightarrow> (bool \<times> 'w node) option"

definition lock_transmit :: "bool \<Rightarrow> 'w node \<Rightarrow> 'w node option" where
  "lock_transmit relock s =
     (if transmitMutex s > 0 \<and> \<not> relock then None else Some (s\<lparr>transmitMutex := transmitMutex s + 1\<rparr>))"

definition unlock_transmit :: "'w node \<Rightarrow> 'w node" where
  "unlock_transmit s = s\<lparr>transmitMutex := transmitMutex s - 1\<rparr>"

subsection \<open>Operations\<close>

text \<open>The frame is put into the active buffer, and the other buffer becomes active.\<close>

definition seal_frame :: "u8 \<Rightarrow> u16 \<Rightarrow> ptr \<Rightarrow> nat \<Rightarrow> transmit_state \<Rightarrow> transmit_state option" where
  "seal_frame ftype seq payload payloadSize tx =
     (let total = kHeaderSize + payloadSize + kCrcSize;
          i = activeBufferIndex tx
      in do {
        b \<leftarrow> (if i < length (transmitBuffers tx) then Some (transmitBuffers tx ! i) else None);
        b \<leftarrow> write_at b 0 [kProtocolVersion];
        b \<leftarrow> write_at b 1 [ftype];
        b \<leftarrow> write_at b 2 (le16 seq);
        b \<leftarrow> write_at b 4 (le32 (of_nat payloadSize));
        b \<leftarrow> copy_payload b payload payloadSize;
        crc \<leftarrow> ComputeCrc32 b (total - kCrcSize);
        b \<leftarrow> write_at b (total - kCrcSize) (le32 crc);
        Some \<lparr>transmitBuffers = (transmitBuffers tx)[i := b],
              activeBufferIndex = (i + 1) mod PING_PONG_BUFFER_COUNT\<rparr>
      })"

text \<open>
  \<open>buffer\<close> is a reference into the static array: the write callback gets the bytes it has after the
  sink has returned.
\<close>

definition logged_TransmitFrame ::
  "nat \<Rightarrow> 'w node_log \<Rightarrow> bool \<Rightarrow> nat \<Rightarrow> u8 \<Rightarrow> u16 \<Rightarrow> ptr \<Rightarrow> nat \<Rightarrow> 'w node \<Rightarrow> (bool \<times> 'w node) option" where
  "logged_TransmitFrame n logger relock t ftype seq payload payloadSize s =
     (if ft_write (node_transport s t) = None then do {
        s \<leftarrow> LIBCOMM_LOG_ERROR n logger ''FrameTransport'' ''Write callback not set'' [] (Some s);
        Some (False, s)
      }
      else if payloadSize > kMaxFrameSize then do {
        s \<leftarrow> LIBCOMM_LOG_ERROR n logger ''FrameTransport'' ''Payload size %u exceeds maximum %u''
          [of_nat payloadSize, of_nat kMaxFrameSize] (Some s);
        Some (False, s)
      }
      else
        let total = kHeaderSize + payloadSize + kCrcSize in do {
          s \<leftarrow> lock_transmit relock s;
          let i = activeBufferIndex (node_tx s) in do {
          tx \<leftarrow> seal_frame ftype seq payload payloadSize (node_tx s);
          s \<leftarrow> LIBCOMM_LOG_DEBUG n logger ''FrameTransport'' ''TX frame seq=%u payload=%u total=%u''
            [ucast seq, of_nat payloadSize, of_nat total] (Some (s\<lparr>node_tx := tx\<rparr>));
          out \<leftarrow> read_at (transmitBuffers (node_tx s) ! i) 0 total;
          wr \<leftarrow> ft_write (node_transport s t);
          let (ok, w) = wr out (node_world s);
              s = s\<lparr>node_world := w\<rparr>
          in do {
            s \<leftarrow> (if ok then Some s
              else LIBCOMM_LOG_ERROR n logger ''FrameTransport'' ''Write callback failed for frame seq=%u total=%u''
                [ucast seq, of_nat total] (Some s));
            Some (ok, unlock_transmit s)
          } }
        })"

definition logged_Send :: "nat \<Rightarrow> 'w node_log \<Rightarrow> bool \<Rightarrow> 'w transport_send" where
  "logged_Send n logger relock t payload payloadSize s =
     (if payload = None \<and> payloadSize > 0 then do {
        s \<leftarrow> LIBCOMM_LOG_ERROR n logger ''FrameTransport'' ''Invalid parameters: null payload with non-zero size''
          [] (Some s);
        Some (False, s)
      }
      else do {
        s \<leftarrow> LIBCOMM_LOG_DEBUG n logger ''FrameTransport'' ''Send called with payload_size=%u''
          [of_nat payloadSize] (Some s);
        let (seq, ft) = NextSequence (node_transport s t) in do {
        (ok, s) \<leftarrow> logged_TransmitFrame n logger relock t FrameType_Data seq payload payloadSize
          (s\<lparr>node_transport := (node_transport s)(t := ft)\<rparr>);
        s \<leftarrow> (if ok
          then LIBCOMM_LOG_DEBUG n logger ''FrameTransport'' ''Frame sent successfully seq=%u'' [ucast seq] (Some s)
          else LIBCOMM_LOG_ERROR n logger ''FrameTransport'' ''Transmission failed for seq=%u'' [ucast seq] (Some s));
        Some (ok, s)
        }
      })"

definition logged_BuildFrame ::
  "nat \<Rightarrow> 'w node_log \<Rightarrow> u16 \<Rightarrow> ptr \<Rightarrow> nat \<Rightarrow> ptr \<Rightarrow> nat \<Rightarrow> 'w node \<Rightarrow> ((nat \<times> ptr) \<times> 'w node) option" where
  "logged_BuildFrame n logger seq payload payloadSize outputBuffer capacity s =
     (let total = kHeaderSize + payloadSize + kCrcSize in
      if payloadSize > kMaxFrameSize then do {
        s \<leftarrow> LIBCOMM_LOG_ERROR n logger ''FrameTransport'' ''BuildFrame: payload %u exceeds max %u''
          [of_nat payloadSize, of_nat kMaxFrameSize] (Some s);
        Some ((0, outputBuffer), s)
      }
      else if total > capacity then do {
        s \<leftarrow> LIBCOMM_LOG_ERROR n logger ''FrameTransport'' ''BuildFrame: frame %u exceeds buffer %u''
          [of_nat total, of_nat capacity] (Some s);
        Some ((0, outputBuffer), s)
      }
      else do { r \<leftarrow> BuildFrame seq payload payloadSize outputBuffer capacity; Some (r, s) })"

definition logged_HandleIncoming ::
  "nat \<Rightarrow> 'w node_log \<Rightarrow> nat \<Rightarrow> ptr \<Rightarrow> nat \<Rightarrow> 'w node data_handler option \<Rightarrow> 'w node \<Rightarrow> (bool \<times> 'w node) option" where
  "logged_HandleIncoming n logger szw receivedData receivedSize dataHandler s =
     (if receivedData = None \<or> receivedSize < kHeaderSize + kCrcSize then do {
        s \<leftarrow> LIBCOMM_LOG_ERROR n logger ''FrameTransport''
          ''Invalid incoming frame: null data or size %u below minimum %u''
          [of_nat receivedSize, of_nat (kHeaderSize + kCrcSize)] (Some s);
        Some (False, s)
      }
      else do {
        mem \<leftarrow> receivedData;
        s \<leftarrow> LIBCOMM_LOG_DEBUG n logger ''FrameTransport'' ''Handling incoming frame of size %u''
          [of_nat receivedSize] (Some s);
        version \<leftarrow> map_option of_le (read_at mem 0 1);
        ftype \<leftarrow> map_option of_le (read_at mem 1 1);
        seq \<leftarrow> map_option of_le (read_at mem 2 2);
        payloadSize \<leftarrow> map_option of_le (read_at mem 4 4);
        let expected = frame_total szw payloadSize in
        if (version :: u8) \<noteq> kProtocolVersion then do {
          s \<leftarrow> LIBCOMM_LOG_ERROR n logger ''FrameTransport'' ''Protocol version mismatch: expected %u, got %u''
            [ucast kProtocolVersion, ucast version] (Some s);
          Some (False, s)
        }
        else if receivedSize \<noteq> expected then do {
          s \<leftarrow> LIBCOMM_LOG_ERROR n logger ''FrameTransport'' ''Frame size mismatch: expected %u, got %u''
            [of_nat expected, of_nat receivedSize] (Some s);
          Some (False, s)
        }
        else do {
          receivedCrc \<leftarrow> map_option of_le (read_at mem (expected - kCrcSize) 4);
          computedCrc \<leftarrow> ComputeCrc32 mem (expected - kCrcSize);
          if receivedCrc \<noteq> computedCrc then do {
            s \<leftarrow> LIBCOMM_LOG_ERROR n logger ''FrameTransport'' ''CRC mismatch for seq=%u: expected %x, got %x''
              [ucast (seq :: u16), computedCrc, receivedCrc] (Some s);
            Some (False, s)
          }
          else if (ftype :: u8) \<noteq> FrameType_Data then do {
            s \<leftarrow> LIBCOMM_LOG_ERROR n logger ''FrameTransport'' ''Invalid frame type %u for seq=%u''
              [ucast ftype, ucast seq] (Some s);
            Some (False, s)
          }
          else do {
            s \<leftarrow> LIBCOMM_LOG_DEBUG n logger ''FrameTransport'' ''Received data frame seq=%u payload_size=%u''
              [ucast seq, payloadSize] (Some s);
            (ok, s) \<leftarrow> (case dataHandler of None \<Rightarrow> Some (False, s)
              | Some h \<Rightarrow> h (drop kHeaderSize mem) (unat payloadSize) s);
            s \<leftarrow> (if ok then Some s
              else if dataHandler = None
              then LIBCOMM_LOG_WARN n logger ''FrameTransport'' ''No data handler registered for seq=%u'' [ucast seq] (Some s)
              else LIBCOMM_LOG_DEBUG n logger ''FrameTransport'' ''Data handler failed for seq=%u'' [ucast seq] (Some s));
            Some (ok, s)
          }
        }
      })"

subsection \<open>What is logged\<close>

type_synonym log_line = "Logging.LogLevel \<times> string \<times> string \<times> u32 list"

text \<open>A sink that keeps the lines it is given and does nothing else.\<close>

definition record_line :: "('w \<times> log_line list) node_sink" where
  "record_line l tag fmt args =
     map_option (\<lambda>s. s\<lparr>node_world := (fst (node_world s), snd (node_world s) @ [(l, tag, fmt, args)])\<rparr>)"

definition recording_write :: "'w write_callback \<Rightarrow> ('w \<times> log_line list) write_callback" where
  "recording_write wr fr v = (fst (wr fr (fst v)), (snd (wr fr (fst v)), snd v))"

definition recording_transport :: "'w frame_transport \<Rightarrow> ('w \<times> log_line list) frame_transport" where
  "recording_transport ft = \<lparr>ft_write = map_option recording_write (ft_write ft), ft_next_sequence = ft_next_sequence ft\<rparr>"

text \<open>The node with a log beside its world.\<close>

definition recording :: "'w node \<Rightarrow> log_line list \<Rightarrow> ('w \<times> log_line list) node" where
  "recording s lines =
     \<lparr>node_transport = \<lambda>t. recording_transport (node_transport s t), node_tx = node_tx s,
      transmitMutex = transmitMutex s, node_world = (node_world s, lines)\<rparr>"

abbreviation with_sink :: "'w node_sink \<Rightarrow> 'w node_log" where
  "with_sink sink \<equiv> SetGlobalLogger (Some sink) initial_log_state"

text \<open>The lines that are compiled in at level \<open>n\<close>.\<close>

definition compiled :: "nat \<Rightarrow> log_line list \<Rightarrow> log_line list" where
  "compiled n = filter (\<lambda>line. LogLevel_code (fst line) < n)"

lemma compiled_simps [simp]:
  "compiled n [] = []"
  "compiled n (line # lines) = (if LogLevel_code (fst line) < n then line # compiled n lines else compiled n lines)"
  "compiled n (lines @ lines') = compiled n lines @ compiled n lines'"
  by (simp_all add: compiled_def)

lemma macros_with_sink:
  "LIBCOMM_LOG_ERROR n (with_sink f) = (\<lambda>tag fmt args w. if 0 < n then f Logging.Error tag fmt args w else w)"
  "LIBCOMM_LOG_WARN n (with_sink f) = (\<lambda>tag fmt args w. if 1 < n then f Logging.Warning tag fmt args w else w)"
  "LIBCOMM_LOG_DEBUG n (with_sink f) = (\<lambda>tag fmt args w. if 3 < n then f Logging.Debug tag fmt args w else w)"
  by (simp_all add: log_macros log_levels SetGlobalLogger_def GetGlobalLogger_def LogHelper_def fun_eq_iff
        Suc_le_eq eval_nat_numeral)


lemma record_macros:
  "LIBCOMM_LOG_ERROR n (with_sink record_line) tag fmt args (Some (recording s ls))
     = Some (recording s (ls @ compiled n [(Logging.Error, tag, fmt, args)]))"
  "LIBCOMM_LOG_WARN n (with_sink record_line) tag fmt args (Some (recording s ls))
     = Some (recording s (ls @ compiled n [(Logging.Warning, tag, fmt, args)]))"
  "LIBCOMM_LOG_DEBUG n (with_sink record_line) tag fmt args (Some (recording s ls))
     = Some (recording s (ls @ compiled n [(Logging.Debug, tag, fmt, args)]))"
  by (simp_all add: macros_with_sink record_line_def recording_def)

lemma TransmitFrame_seal:
  assumes "ft_write ft = Some wr" and "m \<le> kMaxFrameSize"
  shows "TransmitFrame ft ftype seq payload m tx w = do {
     tx' \<leftarrow> seal_frame ftype seq payload m tx;
     out \<leftarrow> read_at (transmitBuffers tx' ! activeBufferIndex tx) 0 (kHeaderSize + m + kCrcSize);
     Some (fst (wr out w), tx', snd (wr out w))
   }"
  using assms
  by (cases "activeBufferIndex tx < length (transmitBuffers tx)")
     (simp_all add: TransmitFrame_def seal_frame_def Let_def split_beta)

definition transmit_lines :: "bool \<Rightarrow> u16 \<Rightarrow> nat \<Rightarrow> bool \<Rightarrow> log_line list" where
  "transmit_lines writable seq m ok =
     (if \<not> writable then [(Logging.Error, ''FrameTransport'', ''Write callback not set'', [])]
      else if m > kMaxFrameSize
      then [(Logging.Error, ''FrameTransport'', ''Payload size %u exceeds maximum %u'', [of_nat m, of_nat kMaxFrameSize])]
      else [(Logging.Debug, ''FrameTransport'', ''TX frame seq=%u payload=%u total=%u'',
              [ucast seq, of_nat m, of_nat (kHeaderSize + m + kCrcSize)])] @
           (if ok then []
            else [(Logging.Error, ''FrameTransport'', ''Write callback failed for frame seq=%u total=%u'',
                    [ucast seq, of_nat (kHeaderSize + m + kCrcSize)])]))"

definition send_lines :: "'w frame_transport \<Rightarrow> ptr \<Rightarrow> nat \<Rightarrow> bool \<Rightarrow> log_line list" where
  "send_lines ft payload m ok =
     (let seq = ft_next_sequence ft in
      if payload = None \<and> m > 0
      then [(Logging.Error, ''FrameTransport'', ''Invalid parameters: null payload with non-zero size'', [])]
      else [(Logging.Debug, ''FrameTransport'', ''Send called with payload_size=%u'', [of_nat m])] @
           transmit_lines (ft_write ft \<noteq> None) seq m ok @
           [if ok then (Logging.Debug, ''FrameTransport'', ''Frame sent successfully seq=%u'', [ucast seq])
            else (Logging.Error, ''FrameTransport'', ''Transmission failed for seq=%u'', [ucast seq])])"

lemma recording_ft_write: "ft_write (node_transport (recording s ls) t) = map_option recording_write (ft_write (node_transport s t))"
  by (simp add: recording_def recording_transport_def)

lemma recording_fields:
  "node_tx (recording s ls) = node_tx s"
  "node_world (recording s ls) = (node_world s, ls)"
  "transmitMutex (recording s ls) = transmitMutex s"
  "(recording s ls)\<lparr>node_tx := tx\<rparr> = recording (s\<lparr>node_tx := tx\<rparr>) ls"
  "(recording s ls)\<lparr>transmitMutex := k\<rparr> = recording (s\<lparr>transmitMutex := k\<rparr>) ls"
  "(recording s ls)\<lparr>node_world := (w, ls')\<rparr> = recording (s\<lparr>node_world := w\<rparr>) ls'"
  "(recording s ls)\<lparr>node_transport := (node_transport (recording s ls))(t := recording_transport ft)\<rparr>
     = recording (s\<lparr>node_transport := (node_transport s)(t := ft)\<rparr>) ls"
  by (simp_all add: recording_def fun_eq_iff)

lemma recording_NextSequence:
  "NextSequence (node_transport (recording s ls) t)
     = (fst (NextSequence (node_transport s t)), recording_transport (snd (NextSequence (node_transport s t))))"
  by (simp add: NextSequence_def recording_def recording_transport_def Let_def)

lemma recorded_TransmitFrame:
  assumes "transmitMutex s = 0 \<or> relock"
  shows "logged_TransmitFrame n (with_sink record_line) relock t ftype seq payload m (recording s ls) =
    (case TransmitFrame (node_transport s t) ftype seq payload m (node_tx s) (node_world s) of
       None \<Rightarrow> None
     | Some (ok, tx, w) \<Rightarrow> Some (ok, recording (s\<lparr>node_tx := tx, node_world := w\<rparr>)
         (ls @ compiled n (transmit_lines (ft_write (node_transport s t) \<noteq> None) seq m ok))))"
proof (cases "ft_write (node_transport s t)")
  case None
  then show ?thesis
    by (simp add: logged_TransmitFrame_def TransmitFrame_def recording_ft_write record_macros transmit_lines_def)
next
  case (Some wr)
  show ?thesis
  proof (cases "kMaxFrameSize < m")
    case True
    with Some show ?thesis
      by (simp add: logged_TransmitFrame_def TransmitFrame_def recording_ft_write record_macros transmit_lines_def)
  next
    case False
    let ?total = "kHeaderSize + m + kCrcSize" and ?i = "activeBufferIndex (node_tx s)"
    show ?thesis
    proof (cases "seal_frame ftype seq payload m (node_tx s)")
      case None
      with False Some assms show ?thesis
        by (simp add: logged_TransmitFrame_def TransmitFrame_seal recording_ft_write lock_transmit_def Let_def
            recording_fields)
    next
      case sealed: (Some tx)
      show ?thesis
      proof (cases "read_at (transmitBuffers tx ! ?i) 0 ?total")
        case None
        with False Some assms sealed show ?thesis
          by (simp add: logged_TransmitFrame_def TransmitFrame_seal recording_ft_write lock_transmit_def Let_def
              recording_fields record_macros)
      next
        case out: (Some out)
        from False Some assms sealed out show ?thesis
          by (cases "fst (wr out (node_world s))")
             (simp_all add: logged_TransmitFrame_def TransmitFrame_seal recording_ft_write lock_transmit_def Let_def
              recording_fields record_macros recording_write_def unlock_transmit_def transmit_lines_def)
      qed
    qed
  qed
qed

lemma recorded_Send:
  assumes "transmitMutex s = 0 \<or> relock"
  shows "logged_Send n (with_sink record_line) relock t payload m (recording s ls) =
    (case Send (node_transport s t) payload m (node_tx s) (node_world s) of
       None \<Rightarrow> None
     | Some (ok, ft, tx, w) \<Rightarrow>
         Some (ok, recording (s\<lparr>node_transport := (node_transport s)(t := ft), node_tx := tx, node_world := w\<rparr>)
           (ls @ compiled n (send_lines (node_transport s t) payload m ok))))"
proof (cases "payload = None \<and> m > 0")
  case True
  then show ?thesis
    by (simp add: logged_Send_def Send_def record_macros send_lines_def)
next
  case False
  let ?ft = "snd (NextSequence (node_transport s t))" and ?seq = "ft_next_sequence (node_transport s t)"
  let ?s = "s\<lparr>node_transport := (node_transport s)(t := ?ft)\<rparr>"
  have lock: "transmitMutex ?s = 0 \<or> relock" using assms by simp
  have send: "Send (node_transport s t) payload m (node_tx s) (node_world s) = do {
      (ok, tx, w) \<leftarrow> TransmitFrame ?ft FrameType_Data ?seq payload m (node_tx s) (node_world s);
      Some (ok, ?ft, tx, w) }"
    using False by (auto simp: Send_def split_beta NextSequence_allocated)
  show ?thesis
  proof (cases "TransmitFrame ?ft FrameType_Data ?seq payload m (node_tx s) (node_world s)")
    case None
    with False show ?thesis
      by (auto simp: send logged_Send_def record_macros recording_NextSequence NextSequence_allocated recording_fields
          recorded_TransmitFrame [OF lock])
  next
    case (Some r)
    obtain ok tx w where r: "r = (ok, tx, w)" by (cases r)
    from False Some show ?thesis
      by (auto simp: r send logged_Send_def record_macros recording_NextSequence NextSequence_allocated recording_fields
          recorded_TransmitFrame [OF lock] send_lines_def Let_def)
  qed
qed

definition recording_handler :: "'w data_handler \<Rightarrow> ('w \<times> log_line list) node data_handler" where
  "recording_handler h payload k s =
     map_option (\<lambda>(ok, w). (ok, s\<lparr>node_world := (w, snd (node_world s))\<rparr>)) (h payload k (fst (node_world s)))"

text \<open>The lines of \<open>HandleIncoming\<close> for the received bytes \<open>xs\<close>; the first failing check is the one reported.\<close>

definition incoming_lines :: "nat \<Rightarrow> u8 list option \<Rightarrow> nat \<Rightarrow> bool \<Rightarrow> bool \<Rightarrow> log_line list" where
  "incoming_lines szw data m has_handler ok =
     (let line = (\<lambda>l fmt args. (l, ''FrameTransport'', fmt, args)) in
      case data of
        None \<Rightarrow> [line Logging.Error ''Invalid incoming frame: null data or size %u below minimum %u'' [of_nat m, 12]]
      | Some mem \<Rightarrow>
          if m < 12
          then [line Logging.Error ''Invalid incoming frame: null data or size %u below minimum %u'' [of_nat m, 12]]
          else
            let xs = take m mem; version = xs ! 0; ftype = xs ! 1; seq = of_le (take 2 (drop 2 xs)) :: u16;
                total = frame_total szw (declared_size xs);
                crc = crc32 (take (m - 4) xs); received = of_le (drop (m - 4) xs)
            in line Logging.Debug ''Handling incoming frame of size %u'' [of_nat m] #
              (if version \<noteq> kProtocolVersion
               then [line Logging.Error ''Protocol version mismatch: expected %u, got %u''
                 [ucast kProtocolVersion, ucast version]]
               else if m \<noteq> total
               then [line Logging.Error ''Frame size mismatch: expected %u, got %u'' [of_nat total, of_nat m]]
               else if received \<noteq> crc
               then [line Logging.Error ''CRC mismatch for seq=%u: expected %x, got %x'' [ucast seq, crc, received]]
               else if ftype \<noteq> FrameType_Data
               then [line Logging.Error ''Invalid frame type %u for seq=%u'' [ucast ftype, ucast seq]]
               else line Logging.Debug ''Received data frame seq=%u payload_size=%u'' [ucast seq, declared_size xs] #
                 (if ok then []
                  else if \<not> has_handler then [line Logging.Warning ''No data handler registered for seq=%u'' [ucast seq]]
                  else [line Logging.Debug ''Data handler failed for seq=%u'' [ucast seq]])))"

lemma read_byte:
  assumes "i < length mem"
  shows "read_at mem i 1 = Some [mem ! i]"
  using assms by (simp add: read_at_def Cons_nth_drop_Suc [symmetric])

lemma recorded_HandleIncoming:
  assumes m: "12 \<le> m" and len: "m \<le> length mem"
  shows "logged_HandleIncoming n (with_sink record_line) szw (Some mem) m (map_option recording_handler oh) (recording s ls) =
    (case HandleIncoming szw (Some mem) m oh (node_world s) of
       None \<Rightarrow> None
     | Some (ok, w) \<Rightarrow> Some (ok, recording (s\<lparr>node_world := w\<rparr>)
         (ls @ compiled n (incoming_lines szw (Some mem) m (oh \<noteq> None) ok))))"
proof -
  let ?xs = "take m mem"
  define total where "total = frame_total szw (declared_size ?xs)"
  have reads: "read_at mem 0 1 = Some [mem ! 0]" "read_at mem 1 1 = Some [mem ! 1]"
    "read_at mem 2 2 = Some (take 2 (drop 2 mem))" "read_at mem 4 4 = Some (take 4 (drop 4 mem))"
    using m len by (simp_all only: read_byte) (simp_all add: mem_simps)
  have size: "of_le (take 4 (drop 4 mem)) = declared_size ?xs"
    using m by (simp add: declared_size_def drop_take min_def)
  have fields: "take 2 (drop 2 ?xs) = take 2 (drop 2 mem)" "?xs ! 0 = mem ! 0" "?xs ! 1 = mem ! 1"
    "take (m - 4) ?xs = take (m - 4) mem" "drop (m - 4) ?xs = take 4 (drop (m - 4) mem)"
    using m len by (simp_all add: drop_take min_def)
  have tail: "read_at mem (m - 4) 4 = Some (take 4 (drop (m - 4) mem))" "ComputeCrc32 mem (m - 4) = Some (crc32 (take (m - 4) mem))"
    using m len by (simp_all add: mem_simps)
  note run = logged_HandleIncoming_def HandleIncoming_def incoming_lines_def reads [unfolded One_nat_def] size fields tail size_consts
    record_macros total_def [symmetric]
  consider (version) "mem ! 0 \<noteq> kProtocolVersion" | (size) "mem ! 0 = kProtocolVersion" "m \<noteq> total"
    | (crc) "mem ! 0 = kProtocolVersion" "total = m" "of_le (take 4 (drop (m - 4) mem)) \<noteq> crc32 (take (m - 4) mem)"
    | (type) "mem ! 0 = kProtocolVersion" "total = m" "of_le (take 4 (drop (m - 4) mem)) = crc32 (take (m - 4) mem)"
        "mem ! 1 \<noteq> FrameType_Data"
    | (data) "mem ! 0 = kProtocolVersion" "total = m" "of_le (take 4 (drop (m - 4) mem)) = crc32 (take (m - 4) mem)"
        "mem ! 1 = FrameType_Data"
    by blast
  then show ?thesis
  proof cases
    case version then show ?thesis using m by (simp add: run)
  next
    case size then show ?thesis using m by (simp add: run)
  next
    case crc then show ?thesis using m by (simp add: run)
  next
    case type then show ?thesis using m by (simp add: run)
  next
    case data
    show ?thesis
    proof (cases oh)
      case None
      with data m show ?thesis by (simp add: run Let_def)
    next
      case (Some h)
      with data m show ?thesis
        by (cases "h (drop 8 mem) (unat (declared_size ?xs)) (node_world s)")
           (auto simp: run Let_def recording_handler_def recording_fields)
    qed
  qed
qed

subsection \<open>Sinks that leave the transport alone\<close>

text \<open>A sink that passes over the transport's own lines, whatever it does with others.\<close>

definition passes_over :: "'w node_sink \<Rightarrow> bool" where
  "passes_over sink \<longleftrightarrow> (\<forall>l fmt args s. sink l ''FrameTransport'' fmt args (Some s) = Some s)"

lemma passes_over_macros:
  assumes "passes_over sink"
  shows "LIBCOMM_LOG_ERROR n (with_sink sink) ''FrameTransport'' fmt args (Some s) = Some s"
    and "LIBCOMM_LOG_DEBUG n (with_sink sink) ''FrameTransport'' fmt args (Some s) = Some s"
  using assms by (simp_all add: macros_with_sink passes_over_def)

lemma quiet_TransmitFrame:
  assumes quiet: "passes_over sink" and "transmitMutex s = 0 \<or> relock"
  shows "logged_TransmitFrame n (with_sink sink) relock t ftype seq payload m s =
    (case TransmitFrame (node_transport s t) ftype seq payload m (node_tx s) (node_world s) of
       None \<Rightarrow> None
     | Some (ok, tx, w) \<Rightarrow> Some (ok, s\<lparr>node_tx := tx, node_world := w\<rparr>))"
proof (cases "ft_write (node_transport s t) = None \<or> kMaxFrameSize < m")
  case True
  then show ?thesis
    by (auto simp: logged_TransmitFrame_def TransmitFrame_def passes_over_macros [OF quiet] split: option.split)
next
  case False
  let ?i = "activeBufferIndex (node_tx s)"
  obtain wr where wr: "ft_write (node_transport s t) = Some wr" using False by auto
  have m: "m \<le> kMaxFrameSize" using False by simp
  show ?thesis
  proof (cases "seal_frame ftype seq payload m (node_tx s)")
    case None
    with assms(2) m show ?thesis
      by (simp add: logged_TransmitFrame_def TransmitFrame_seal wr lock_transmit_def Let_def)
  next
    case (Some tx)
    show ?thesis
      using assms(2) m Some
      by (cases "read_at (transmitBuffers tx ! ?i) 0 (kHeaderSize + m + kCrcSize)")
         (simp_all add: logged_TransmitFrame_def TransmitFrame_seal wr lock_transmit_def unlock_transmit_def Let_def
           passes_over_macros [OF quiet] split_beta)
  qed
qed

lemma quiet_Send:
  assumes quiet: "passes_over sink" and "transmitMutex s = 0 \<or> relock"
  shows "logged_Send n (with_sink sink) relock t payload m s =
    (case Send (node_transport s t) payload m (node_tx s) (node_world s) of
       None \<Rightarrow> None
     | Some (ok, ft, tx, w) \<Rightarrow>
         Some (ok, s\<lparr>node_transport := (node_transport s)(t := ft), node_tx := tx, node_world := w\<rparr>))"
proof (cases "payload = None \<and> m > 0")
  case True
  then show ?thesis by (simp add: logged_Send_def Send_def passes_over_macros [OF quiet])
next
  case False
  let ?ft = "snd (NextSequence (node_transport s t))" and ?seq = "ft_next_sequence (node_transport s t)"
  let ?s = "s\<lparr>node_transport := (node_transport s)(t := ?ft)\<rparr>"
  have lock: "transmitMutex ?s = 0 \<or> relock" using assms(2) by simp
  have not_null: "(payload = None \<and> m > 0) = False" using False by simp
  show ?thesis
    unfolding logged_Send_def Send_def not_null if_False passes_over_macros [OF quiet] split_beta
    by (cases "TransmitFrame ?ft FrameType_Data ?seq payload m (node_tx s) (node_world s)")
       (simp_all add: NextSequence_allocated quiet_TransmitFrame [OF quiet lock]
         passes_over_macros [OF quiet] split_beta)
qed

subsection \<open>Sinks that send\<close>

text \<open>
  A sink given the send operation it may call. A send inside the sink logs, and so calls the sink again: the
  sink the transport sees is \<open>reentrant_sink\<close>, where \<open>d\<close> bounds how deep the calls nest. A send that has
  a result has it at some depth; one that has none at any depth does not return.
\<close>

primrec reentrant_sink :: "nat \<Rightarrow> bool \<Rightarrow> ('w transport_send \<Rightarrow> 'w node_sink) \<Rightarrow> nat \<Rightarrow> 'w node_sink" where
  "reentrant_sink n relock sink 0 l tag fmt args s = None"
| "reentrant_sink n relock sink (Suc d) l tag fmt args s =
     sink (logged_Send n (with_sink (reentrant_sink n relock sink d)) relock) l tag fmt args s"

text \<open>The log statements of the node with that sink, and its sends.\<close>

abbreviation node_logger :: "nat \<Rightarrow> bool \<Rightarrow> ('w transport_send \<Rightarrow> 'w node_sink) \<Rightarrow> nat \<Rightarrow> 'w node_log" where
  "node_logger n relock sink d \<equiv> with_sink (reentrant_sink n relock sink d)"

text \<open>
  The bound is no more than that: for a sink that gets more results when the sends in it have more, a
  result that is there at one depth is the same at every greater one.
\<close>

definition extends :: "'a option \<Rightarrow> 'a option \<Rightarrow> bool" where
  "extends a b \<longleftrightarrow> (\<forall>r. a = Some r \<longrightarrow> b = Some r)"

lemma extends_refl [simp, intro]: "extends a a"
  by (simp add: extends_def)

lemma extends_None [simp, intro]: "extends None a"
  by (simp add: extends_def)

lemma extends_bind [intro]:
  "extends a b \<Longrightarrow> (\<And>x. extends (f x) (g x)) \<Longrightarrow> extends (Option.bind a f) (Option.bind b g)"
  by (auto simp: extends_def bind_eq_Some_conv)

lemma extends_if [intro]: "extends a a' \<Longrightarrow> extends b b' \<Longrightarrow> extends (if c then a else b) (if c then a' else b')"
  by simp

lemma extends_prod [intro]:
  "(\<And>x y. extends (f x y) (g x y)) \<Longrightarrow> extends (case p of (x, y) \<Rightarrow> f x y) (case p of (x, y) \<Rightarrow> g x y)"
  by (cases p) simp

definition sink_extends :: "'w node_sink \<Rightarrow> 'w node_sink \<Rightarrow> bool" where
  "sink_extends f g \<longleftrightarrow> (\<forall>l tag fmt args s. extends (f l tag fmt args s) (g l tag fmt args s))"

lemma extends_macros:
  assumes "sink_extends f g"
  shows "extends (LIBCOMM_LOG_ERROR n (with_sink f) tag fmt args s) (LIBCOMM_LOG_ERROR n (with_sink g) tag fmt args s)"
    and "extends (LIBCOMM_LOG_DEBUG n (with_sink f) tag fmt args s) (LIBCOMM_LOG_DEBUG n (with_sink g) tag fmt args s)"
  using assms by (simp_all add: macros_with_sink sink_extends_def)

lemma extends_TransmitFrame:
  assumes "sink_extends f g"
  shows "extends (logged_TransmitFrame n (with_sink f) relock t ftype seq payload m s)
    (logged_TransmitFrame n (with_sink g) relock t ftype seq payload m s)"
  unfolding logged_TransmitFrame_def Let_def
  by (intro extends_if extends_bind extends_refl extends_prod extends_macros [OF assms])

lemma extends_Send:
  assumes "sink_extends f g"
  shows "extends (logged_Send n (with_sink f) relock t payload m s) (logged_Send n (with_sink g) relock t payload m s)"
  unfolding logged_Send_def Let_def
  by (intro extends_if extends_bind extends_refl extends_prod extends_macros [OF assms] extends_TransmitFrame [OF assms])

definition continuous_sink :: "('w transport_send \<Rightarrow> 'w node_sink) \<Rightarrow> bool" where
  "continuous_sink sink \<longleftrightarrow> (\<forall>send send'. (\<forall>t payload m s. extends (send t payload m s) (send' t payload m s)) \<longrightarrow>
     sink_extends (sink send) (sink send'))"

lemma deeper_sink_extends:
  assumes "continuous_sink sink" and "d \<le> d'"
  shows "sink_extends (reentrant_sink n relock sink d) (reentrant_sink n relock sink d')"
  using assms(2)
proof (induction d arbitrary: d')
  case 0
  then show ?case by (simp add: sink_extends_def)
next
  case (Suc d)
  then obtain e where e: "d' = Suc e" "d \<le> e" by (cases d') auto
  from Suc.IH [OF e(2)] assms(1)
  have "sink_extends (sink (logged_Send n (node_logger n relock sink d) relock))
      (sink (logged_Send n (node_logger n relock sink e) relock))"
    unfolding continuous_sink_def by (blast intro: extends_Send)
  then show ?case by (simp add: sink_extends_def e(1))
qed

lemma deeper_Send:
  assumes "continuous_sink sink" and "d \<le> d'"
    and "logged_Send n (node_logger n relock sink d) relock t payload m s = Some r"
  shows "logged_Send n (node_logger n relock sink d') relock t payload m s = Some r"
  by (rule extends_Send [OF deeper_sink_extends [OF assms(1,2)], unfolded extends_def, rule_format, OF assms(3)])

text \<open>What a sink does that answers a line of the transport with a message over transport \<open>j\<close>.\<close>

definition sends_first ::
  "('w transport_send \<Rightarrow> 'w node_sink) \<Rightarrow> string \<Rightarrow> nat \<Rightarrow> (u32 list \<Rightarrow> detached_buffer) \<Rightarrow> bool" where
  "sends_first sink fmt j msg \<longleftrightarrow>
     (\<exists>k. \<forall>send args s. sink send Logging.Error ''FrameTransport'' fmt args (Some s)
        = Option.bind (send j (msg args) (buffer_size (msg args)) s) k)"

lemma buffer_size_Some [simp]: "buffer_size (Some bs) = length bs"
  by (simp add: buffer_size_def)

lemma buffer_readable: "\<not> (buf = None \<and> 0 < buffer_size buf)"
  by (cases buf) (simp_all add: buffer_size_def)

lemma debug_off [simp]: "n < 4 \<Longrightarrow> LIBCOMM_LOG_DEBUG n logger tag fmt args w = w"
  by (simp add: LIBCOMM_LOG_DEBUG_def LOG_LEVEL_DEBUG_def)

lemma locked_Send_blocks:
  assumes "n < 4" and "0 < transmitMutex s" and "ft_write (node_transport s j) \<noteq> None"
    and "m \<le> kMaxFrameSize" and "\<not> (payload = None \<and> 0 < m)"
  shows "logged_Send n logger False j payload m s = None"
proof -
  have not_null: "(payload = None \<and> m > 0) = False" using assms(5) by simp
  show ?thesis
    unfolding logged_Send_def not_null
    using assms(1-4) by (auto simp: logged_TransmitFrame_def lock_transmit_def Let_def split_beta)
qed

lemma seal_frame_ok:
  assumes "m \<le> kMaxFrameSize" and "transmit_ok tx" and "payload_ok payload m"
    and fr_def: "fr = frame_bytes t seq (payload_bytes payload m)"
  shows "seal_frame t seq payload m tx = Some (store_frame tx fr)"
    and "read_at (transmitBuffers (store_frame tx fr) ! activeBufferIndex tx) 0 (kHeaderSize + m + kCrcSize) = Some fr"
proof -
  let ?ft = "FrameTransport (Some (\<lambda>fr w. (True, fr)))"
  have wr: "ft_write ?ft = Some (\<lambda>fr w. (True, fr))" by (simp add: FrameTransport_def)
  have "do { tx' \<leftarrow> seal_frame t seq payload m tx;
             out \<leftarrow> read_at (transmitBuffers tx' ! activeBufferIndex tx) 0 (kHeaderSize + m + kCrcSize);
             Some (True, tx', out) } = Some (True, store_frame tx fr, fr)"
    using TransmitFrame_ok [OF wr assms(1-3), of t seq "[]"] TransmitFrame_seal [OF wr assms(1), of t seq payload tx "[]"]
    by (simp add: Let_def fr_def)
  then show "seal_frame t seq payload m tx = Some (store_frame tx fr)"
    and "read_at (transmitBuffers (store_frame tx fr) ! activeBufferIndex tx) 0 (kHeaderSize + m + kCrcSize) = Some fr"
    by (auto simp: bind_eq_Some_conv)
qed

text \<open>Below the debug level, a send that can be made logs only if the write callback fails.\<close>

lemma logged_TransmitFrame_ok:
  assumes "n < 4" and "ft_write (node_transport s t) = Some wr" and "m \<le> kMaxFrameSize"
    and "transmit_ok (node_tx s)" and "payload_ok payload m" and "transmitMutex s = 0 \<or> relock"
  shows "logged_TransmitFrame n logger relock t ftype seq payload m s =
    (let fr = frame_bytes ftype seq (payload_bytes payload m);
         (ok, w) = wr fr (node_world s)
     in if ok then Some (True, s\<lparr>node_tx := store_frame (node_tx s) fr, node_world := w\<rparr>)
        else do {
          s2 \<leftarrow> LIBCOMM_LOG_ERROR n logger ''FrameTransport'' ''Write callback failed for frame seq=%u total=%u''
            [ucast seq, of_nat (kHeaderSize + m + kCrcSize)] (Some
              (s\<lparr>transmitMutex := transmitMutex s + 1, node_tx := store_frame (node_tx s) fr, node_world := w\<rparr>));
          Some (False, unlock_transmit s2)
        })"
  using assms seal_frame_ok [OF assms(3-5) refl, of ftype seq]
  by (auto simp: logged_TransmitFrame_def lock_transmit_def unlock_transmit_def Let_def split_beta)

lemma logged_Send_ok:
  assumes "n < 4" and "ft_write (node_transport s t) = Some wr" and "m \<le> kMaxFrameSize"
    and "transmit_ok (node_tx s)" and "payload_ok payload m" and "transmitMutex s = 0 \<or> relock"
    and "fst (wr (data_frame (ft_next_sequence (node_transport s t)) (payload_bytes payload m)) (node_world s))"
  shows "\<exists>ft tx w. Send (node_transport s t) payload m (node_tx s) (node_world s) = Some (True, ft, tx, w) \<and>
     logged_Send n logger relock t payload m s =
       Some (True, s\<lparr>node_transport := (node_transport s)(t := ft), node_tx := tx, node_world := w\<rparr>)"
proof -
  let ?s = "s\<lparr>node_transport := (node_transport s)(t := snd (NextSequence (node_transport s t)))\<rparr>"
  have wr: "ft_write (node_transport ?s t) = Some wr" using assms(2) by simp
  have not_null: "(payload = None \<and> m > 0) = False"
    using assms(5) by (cases payload) (simp_all add: payload_ok_def)
  show ?thesis
    unfolding Send_ok [OF assms(2,3,5,4)] logged_Send_def not_null
    using assms logged_TransmitFrame_ok [OF assms(1) wr assms(3) _ assms(5), of relock]
    by (auto simp: Let_def split_beta NextSequence_allocated)
qed

text \<open>
  The sink answers the line of a failed write: the write failed under the lock, and the send in the sink
  waits for that lock.
\<close>

lemma logged_Send_blocks:
  assumes n: "0 < n" "n < 4" and "ft_write (node_transport s t) = Some wr" and "m \<le> kMaxFrameSize"
    and "transmit_ok (node_tx s)" and "payload_ok payload m"
    and "\<not> fst (wr (data_frame (ft_next_sequence (node_transport s t)) (payload_bytes payload m)) (node_world s))"
    and sink: "sends_first sink ''Write callback failed for frame seq=%u total=%u'' j msg"
    and j: "ft_write (node_transport s j) \<noteq> None" "\<And>args. buffer_size (msg args) \<le> kMaxFrameSize"
  shows "logged_Send n (node_logger n False sink d) False t payload m s = None"
proof (cases "transmitMutex s = 0")
  case False
  then show ?thesis
    by (intro locked_Send_blocks) (use assms in \<open>auto simp: payload_ok_def split: option.splits\<close>)
next
  case True
  let ?s = "s\<lparr>node_transport := (node_transport s)(t := snd (NextSequence (node_transport s t)))\<rparr>"
  have wr: "ft_write (node_transport ?s t) = Some wr" using assms(3) by simp
  have not_null: "(payload = None \<and> m > 0) = False"
    using assms(6) by (cases payload) (simp_all add: payload_ok_def)
  have blocked: "LIBCOMM_LOG_ERROR n (node_logger n False sink d) ''FrameTransport''
      ''Write callback failed for frame seq=%u total=%u'' args (Some s') = None"
    if "0 < transmitMutex s'" and "ft_write (node_transport s' j) \<noteq> None" for args s'
  proof (cases d)
    case 0
    then show ?thesis using n by (simp add: macros_with_sink)
  next
    case (Suc e)
    have "logged_Send n (node_logger n False sink e) False j (msg args) (buffer_size (msg args)) s' = None"
      by (rule locked_Send_blocks) (use n that j buffer_readable in simp_all)
    with Suc sink n show ?thesis by (auto simp: macros_with_sink sends_first_def)
  qed
  have jw: "ft_write (node_transport ?s j) \<noteq> None" using j(1) by (cases "j = t") simp_all
  show ?thesis
    unfolding logged_Send_def not_null
    using assms(7) True jw logged_TransmitFrame_ok [OF n(2) wr assms(4) _ assms(6), of False]
    by (simp add: n(2) assms(5) Let_def split_beta NextSequence_allocated blocked del: not_None_eq)
qed

text \<open>A transport that sends nothing: no write callback, or one that always fails.\<close>

definition broken :: "nat \<Rightarrow> 'w node \<Rightarrow> bool" where
  "broken j s \<longleftrightarrow> (case ft_write (node_transport s j) of None \<Rightarrow> True | Some wr \<Rightarrow> \<forall>fr w. \<not> fst (wr fr w))"

lemma broken_kept [simp]:
  "broken j (s\<lparr>node_tx := tx\<rparr>) = broken j s"
  "broken j (s\<lparr>node_world := w\<rparr>) = broken j s"
  "broken j (s\<lparr>transmitMutex := k\<rparr>) = broken j s"
  "broken j (s\<lparr>node_transport := (node_transport s)(t := snd (NextSequence (node_transport s t)))\<rparr>) = broken j s"
  by (simp_all add: broken_def)

text \<open>If no error line of a node with a broken transport returns, no send that fails returns.\<close>

lemma failing_TransmitFrame_stuck:
  assumes n: "n < 4" and stuck: "\<And>fmt args s'. broken j s' \<Longrightarrow> LIBCOMM_LOG_ERROR n logger ''FrameTransport'' fmt args (Some s') = None"
    and b: "broken j s"
    and result: "logged_TransmitFrame n logger relock t ftype seq payload m s = Some r"
  shows "\<exists>tx w. TransmitFrame (node_transport s t) ftype seq payload m (node_tx s) (node_world s) = Some (True, tx, w)"
proof -
  let ?i = "activeBufferIndex (node_tx s)"
  obtain wr where wr: "ft_write (node_transport s t) = Some wr"
    using result stuck [OF b] by (cases "ft_write (node_transport s t)") (simp_all add: logged_TransmitFrame_def)
  have m: "m \<le> kMaxFrameSize"
    using result stuck [OF b] by (rule_tac ccontr) (simp add: logged_TransmitFrame_def wr)
  obtain tx out where tx: "seal_frame ftype seq payload m (node_tx s) = Some tx"
    and out: "read_at (transmitBuffers tx ! ?i) 0 (kHeaderSize + m + kCrcSize) = Some out"
    using result m n
    by (auto simp: logged_TransmitFrame_def wr Let_def lock_transmit_def bind_eq_Some_conv split: if_splits)
  have "fst (wr out (node_world s))"
  proof (rule ccontr)
    assume "\<not> fst (wr out (node_world s))"
    with result m n b show False
      by (auto simp: logged_TransmitFrame_def wr Let_def lock_transmit_def tx out split_beta stuck split: if_splits)
  qed
  then show ?thesis by (simp add: TransmitFrame_seal [OF wr m] tx out)
qed

lemma failing_Send_stuck:
  assumes n: "n < 4" and stuck: "\<And>fmt args s'. broken j s' \<Longrightarrow> LIBCOMM_LOG_ERROR n logger ''FrameTransport'' fmt args (Some s') = None"
    and b: "broken j s"
    and result: "logged_Send n logger relock t payload m s = Some r"
  shows "\<exists>ft tx w. Send (node_transport s t) payload m (node_tx s) (node_world s) = Some (True, ft, tx, w)"
proof -
  let ?ft = "snd (NextSequence (node_transport s t))" and ?seq = "ft_next_sequence (node_transport s t)"
  let ?s = "s\<lparr>node_transport := (node_transport s)(t := ?ft)\<rparr>"
  have not_null: "(payload = None \<and> m > 0) = False"
    using result stuck [OF b] by (auto simp: logged_Send_def split: if_splits)
  obtain r' where r': "logged_TransmitFrame n logger relock t FrameType_Data ?seq payload m ?s = Some r'"
    using result n unfolding logged_Send_def not_null
    by (auto simp: split_beta NextSequence_allocated bind_eq_Some_conv)
  have b': "broken j ?s" using b by simp
  from failing_TransmitFrame_stuck [OF n stuck b' r'] show ?thesis
    unfolding Send_def not_null by (auto simp: split_beta NextSequence_allocated)
qed

lemma broken_Send: "broken j s \<Longrightarrow> Send (node_transport s j) payload m (node_tx s) (node_world s) \<noteq> Some (True, r)"
  by (auto simp: broken_def Send_def TransmitFrame_def Let_def split_beta bind_eq_Some_conv split: option.splits if_splits)

lemma broken_sink_stuck:
  assumes n: "0 < n" "n < 4" and sink: "\<And>fmt. \<exists>msg. sends_first sink fmt j msg" and "broken j s"
  shows "LIBCOMM_LOG_ERROR n (node_logger n relock sink d) ''FrameTransport'' fmt args (Some s) = None"
  using assms(4)
proof (induction d arbitrary: s fmt args)
  case 0
  then show ?case using n by (simp add: macros_with_sink)
next
  case (Suc d)
  have "logged_Send n (node_logger n relock sink d) relock j payload m s = None" for payload m
    using failing_Send_stuck [OF n(2) Suc.IH Suc.prems, of relock j payload m] broken_Send [OF Suc.prems]
    by (cases "logged_Send n (node_logger n relock sink d) relock j payload m s") auto
  with sink [of fmt] n show ?case by (auto simp: macros_with_sink sends_first_def)
qed

subsection \<open>A sink that forwards over the log endpoint\<close>

text \<open>
  The sink sends the line over the log endpoint whose transport is \<open>j\<close>, but passes over the tags in
  \<open>skip\<close>; \<open>vformat\<close> is the formatting of the C library.
\<close>

fun schema_level :: "Logging.LogLevel \<Rightarrow> Log_Endpoint.LogLevel" where
  "schema_level Logging.Error = Log_Endpoint.Error"
| "schema_level Logging.Warning = Log_Endpoint.Warning"
| "schema_level Logging.Info = Log_Endpoint.Info"
| "schema_level Logging.Debug = Log_Endpoint.Debug"

definition forwarding_sink ::
  "(string \<Rightarrow> bool) \<Rightarrow> log_envelope codec \<Rightarrow> (string \<Rightarrow> u32 list \<Rightarrow> string) \<Rightarrow> nat \<Rightarrow> 'w transport_send \<Rightarrow> 'w node_sink" where
  "forwarding_sink skip codec vformat j send l tag fmt args s =
     (if skip tag then s
      else let buf = BuildLogForwardMessage codec (schema_level l) (Some tag) (Some (vformat fmt args)) in
        Option.bind s (\<lambda>s. map_option snd (send j buf (buffer_size buf) s)))"

lemma forwarding_sends_first:
  "\<not> skip ''FrameTransport'' \<Longrightarrow> sends_first (forwarding_sink skip codec vformat j) fmt j
     (\<lambda>args. BuildLogForwardMessage codec Log_Endpoint.Error (Some ''FrameTransport'') (Some (vformat fmt args)))"
  unfolding sends_first_def
  by (rule exI [of _ "\<lambda>r. Some (snd r)"]) (simp add: forwarding_sink_def Let_def map_option_bind map_conv_bind_option comp_def)

lemma forwarding_continuous: "continuous_sink (forwarding_sink skip codec vformat j)"
  unfolding continuous_sink_def sink_extends_def
proof (intro allI impI)
  fix send send' :: "'w transport_send" and l tag fmt args and s :: "'w node option"
  assume "\<forall>t payload m s. extends (send t payload m s) (send' t payload m s)"
  then show "extends (forwarding_sink skip codec vformat j send l tag fmt args s)
      (forwarding_sink skip codec vformat j send' l tag fmt args s)"
    unfolding forwarding_sink_def Let_def map_conv_bind_option
    by (intro extends_if extends_bind extends_refl) simp
qed

lemma forwarding_passes_over:
  "skip ''FrameTransport'' \<Longrightarrow> passes_over (reentrant_sink n relock (forwarding_sink skip codec vformat j) (Suc d))"
  by (simp add: passes_over_def forwarding_sink_def)

lemma log_macro_with_sink: "LogLevel_code l < n \<Longrightarrow> log_macro l n (with_sink f) = f l"
  by (cases l) (simp_all add: macros_with_sink log_macros log_levels SetGlobalLogger_def GetGlobalLogger_def
    LogHelper_def fun_eq_iff)

text \<open>An \<open>HandleIncoming\<close> that takes no pointer, or fewer bytes than any frame has.\<close>

lemma recorded_HandleIncoming_short:
  assumes "data = None \<or> m < 12"
  shows "logged_HandleIncoming n (with_sink record_line) szw data m oh (recording s ls)
     = Some (False, recording s (ls @ compiled n (incoming_lines szw data m has ok)))"
    and "HandleIncoming szw data m oh' w = Some (False, w)"
  using assms
  by (cases data; simp add: logged_HandleIncoming_def incoming_lines_def size_consts record_macros)+

subsection \<open>Properties\<close>

text \<open>
  C26. What the transport logs: with a sink that keeps the lines, \<open>Send\<close> and \<open>HandleIncoming\<close> have the
  results and effects they have without the log statements, and the lines are those of \<open>send_lines\<close> and
  \<open>incoming_lines\<close>, compiled at any level: a failing operation names the first check that failed, and a
  send writes an error line exactly if it fails.
\<close>

theorem transport_log_lines:
  assumes "transmitMutex s = 0 \<or> relock" and "readable data k"
  shows "logged_Send n (with_sink record_line) relock t payload m (recording s ls) =
    (case Send (node_transport s t) payload m (node_tx s) (node_world s) of
       None \<Rightarrow> None
     | Some (ok, ft, tx, w) \<Rightarrow>
         Some (ok, recording (s\<lparr>node_transport := (node_transport s)(t := ft), node_tx := tx, node_world := w\<rparr>)
           (ls @ compiled n (send_lines (node_transport s t) payload m ok)))) \<and>
   logged_HandleIncoming n (with_sink record_line) szw data k (map_option recording_handler oh) (recording s ls) =
    (case HandleIncoming szw data k oh (node_world s) of
       None \<Rightarrow> None
     | Some (ok, w) \<Rightarrow> Some (ok, recording (s\<lparr>node_world := w\<rparr>)
         (ls @ compiled n (incoming_lines szw data k (oh \<noteq> None) ok)))) \<and>
   (case Send (node_transport s t) payload m (node_tx s) (node_world s) of
      None \<Rightarrow> True
    | Some (ok, _) \<Rightarrow> ok \<longleftrightarrow> Logging.Error \<notin> fst ` set (send_lines (node_transport s t) payload m ok))"
proof (intro conjI)
  show "logged_HandleIncoming n (with_sink record_line) szw data k (map_option recording_handler oh) (recording s ls) =
    (case HandleIncoming szw data k oh (node_world s) of
       None \<Rightarrow> None
     | Some (ok, w) \<Rightarrow> Some (ok, recording (s\<lparr>node_world := w\<rparr>)
         (ls @ compiled n (incoming_lines szw data k (oh \<noteq> None) ok))))"
  proof (cases "data = None \<or> k < 12")
    case True
    then show ?thesis
      using recorded_HandleIncoming_short(1) [OF True, of n szw _ s ls "oh \<noteq> None" False]
      by (simp add: recorded_HandleIncoming_short(2) [OF True] del: not_None_eq)
  next
    case False
    then obtain mem where "data = Some mem" and "12 \<le> k" and "k \<le> length mem"
      using assms(2) by (auto simp: readable_def)
    then show ?thesis by (simp only: recorded_HandleIncoming)
  qed
  show "case Send (node_transport s t) payload m (node_tx s) (node_world s) of
      None \<Rightarrow> True
    | Some (ok, _) \<Rightarrow> ok \<longleftrightarrow> Logging.Error \<notin> fst ` set (send_lines (node_transport s t) payload m ok)"
    by (auto simp: Send_def TransmitFrame_def send_lines_def transmit_lines_def Let_def split_beta bind_eq_Some_conv
        split: option.splits)
qed (rule recorded_Send [OF assms(1)])

text \<open>
  C24. A sink may not send over the transports: at any level with error lines (and without debug lines), if the sink
  answers the error line of a failed write with a message of its own, over the same or any other transport, the
  send whose write failed never returns, because the line is logged under the static mutex that the
  message needs; the sends whose write succeeds return as usual. This holds for a mutex that
  its holder cannot lock again, however deep the calls nest, and whatever the sink does after the message.
\<close>

theorem forwarding_sink_deadlocks:
  assumes "0 < n" and "n < 4" and "transmitMutex s = 0"
    and "ft_write (node_transport s t) = Some wr" and "m \<le> kMaxFrameSize" and "transmit_ok (node_tx s)" and "payload_ok payload m"
    and "sends_first sink ''Write callback failed for frame seq=%u total=%u'' j msg"
    and "ft_write (node_transport s j) \<noteq> None" and "\<And>args. buffer_size (msg args) \<le> kMaxFrameSize"
  shows "\<exists>ok ft tx w. Send (node_transport s t) payload m (node_tx s) (node_world s) = Some (ok, ft, tx, w) \<and>
     (\<forall>d. logged_Send n (node_logger n False sink d) False t payload m s =
       (if ok then Some (True, s\<lparr>node_transport := (node_transport s)(t := ft), node_tx := tx, node_world := w\<rparr>)
        else None))"
proof (cases "fst (wr (data_frame (ft_next_sequence (node_transport s t)) (payload_bytes payload m)) (node_world s))")
  case True
  note ok = logged_Send_ok [OF assms(2,4,5,6,7) disjI1 [OF assms(3)] True, of _ False]
  obtain ft tx w where sent: "Send (node_transport s t) payload m (node_tx s) (node_world s) = Some (True, ft, tx, w)"
    using ok by blast
  have run: "logged_Send n (node_logger n False sink d) False t payload m s =
       Some (True, s\<lparr>node_transport := (node_transport s)(t := ft), node_tx := tx, node_world := w\<rparr>)" for d
    using ok [of "node_logger n False sink d"] by (auto simp: sent)
  show ?thesis
    by (intro exI [of _ True] exI [of _ ft] exI [of _ tx] exI [of _ w]) (simp add: sent run)
next
  case False
  let ?fr = "data_frame (ft_next_sequence (node_transport s t)) (payload_bytes payload m)"
  have sent: "Send (node_transport s t) payload m (node_tx s) (node_world s)
      = Some (False, snd (NextSequence (node_transport s t)), store_frame (node_tx s) ?fr, snd (wr ?fr (node_world s)))"
    using Send_ok [OF assms(4,5,7,6)] False by (simp add: Let_def split_beta)
  have "logged_Send n (node_logger n False sink d) False t payload m s = None" for d
    by (rule logged_Send_blocks) (use assms False in auto)
  with sent show ?thesis by (intro exI [of _ False]) simp
qed

text \<open>
  C25. Forwarding over a link that is down: if the sink answers every error line of the transport with a
  message over a transport that has no write callback, or whose write callback fails, then no send that
  fails ever returns, over any transport and with any kind of mutex: each message that cannot be sent
  logs a line, which is answered with another.
\<close>

theorem forwarding_over_broken_link:
  assumes "0 < n" and "n < 4" and "\<And>fmt. \<exists>msg. sends_first sink fmt j msg" and "broken j s"
    and "Send (node_transport s t) payload m (node_tx s) (node_world s) = Some (False, ft, tx, w)"
  shows "logged_Send n (node_logger n relock sink d) relock t payload m s = None"
proof (rule ccontr)
  assume "logged_Send n (node_logger n relock sink d) relock t payload m s \<noteq> None"
  then obtain r where "logged_Send n (node_logger n relock sink d) relock t payload m s = Some r" by blast
  from failing_Send_stuck [OF assms(2) broken_sink_stuck [OF assms(1-3)] assms(4) this] assms(5)
  show False by simp
qed

text \<open>
  C27. Forwarding that works: a sink that passes over the transport's own lines and sends every other
  line over the log endpoint never blocks. A log statement of any component, compiled in, has one effect:
  one frame is written, and the endpoint that receives it calls its handler once, with the level, the tag and the
  formatted message (each cut at a null character).
\<close>

theorem filtered_forwarding_arrives:
  assumes "codec_ok codec log_exact" and "transmit_ok (node_tx s)" and "transmitMutex s = 0 \<or> relock"
    and "ft_write (node_transport s j) = Some wr" and "32 \<le> szw" and "LogLevel_code l < n"
    and "skip ''FrameTransport''" and "\<not> skip tag"
    and "buf = BuildLogForwardMessage codec (schema_level l) (Some tag) (Some (vformat fmt args))"
    and "buffer_size buf \<le> kMaxFrameSize"
  shows "\<exists>bs s'. buf = Some bs \<and>
     (let fr = data_frame (ft_next_sequence (node_transport s j)) bs in
      log_macro l n (node_logger n relock (forwarding_sink skip codec vformat j) (Suc (Suc d))) tag fmt args (Some s) = Some s' \<and>
      node_world s' = snd (wr fr (node_world s)) \<and> transmitMutex s' = transmitMutex s \<and> transmit_ok (node_tx s') \<and>
      LogEndpoint_HandleIncoming codec szw (OnLogForward (Some f) b) (Some fr) (length fr) w2
        = Some (True, f \<lparr>log_level = schema_level l, log_tag = Some (c_str tag), log_message = Some (c_str (vformat fmt args))\<rparr> w2))"
proof -
  let ?msg = "\<lparr>log_level = schema_level l, log_tag = Some (c_str tag), log_message = Some (c_str (vformat fmt args))\<rparr>"
  let ?env = "Message_LogForward (Some ?msg)"
  define bs where "bs = FinishBuffer codec ?env"
  let ?fr = "data_frame (ft_next_sequence (node_transport s j)) bs"
  have buf: "buf = Some bs" using assms(9) by (simp add: BuildLogForwardMessage_def bs_def)
  have exact: "log_exact ?env" by (simp add: log_exact_def)
  have fits: "length bs \<le> kMaxFrameSize" using assms(10) buf by (simp add: buffer_size_def)
  have sent: "Send (node_transport s j) buf (buffer_size buf) (node_tx s) (node_world s)
      = Some (fst (wr ?fr (node_world s)), snd (NextSequence (node_transport s j)), store_frame (node_tx s) ?fr,
          snd (wr ?fr (node_world s)))"
    using Send_ok [OF assms(4) fits _ assms(2), of "Some bs" "node_world s"]
    by (simp add: buf buffer_size_def payload_ok_def payload_bytes_def Let_def split_beta)
  have quiet: "passes_over (reentrant_sink n relock (forwarding_sink skip codec vformat j) (Suc d))"
    by (rule forwarding_passes_over) (rule assms(7))
  note logged = quiet_Send [OF quiet assms(3), where t = j]
  have line: "log_macro l n (node_logger n relock (forwarding_sink skip codec vformat j) (Suc (Suc d))) tag fmt args (Some s)
      = Some (s\<lparr>node_transport := (node_transport s)(j := snd (NextSequence (node_transport s j))),
          node_tx := store_frame (node_tx s) ?fr, node_world := snd (wr ?fr (node_world s))\<rparr>)"
    using assms(6,8) by (simp add: log_macro_with_sink forwarding_sink_def [of _ _ _ _ _ _ tag] logged sent
        flip: assms(9))
  have "transmit_ok (store_frame (node_tx s) ?fr)"
    by (rule store_frame_ok [OF assms(2)]) (use fits in \<open>simp add: transmit_consts size_consts\<close>)
  with line buf show ?thesis
    using log.incoming_frame [OF assms(1) exact _ assms(5), of "OnLogForward (Some f) b" "ft_next_sequence (node_transport s j)" w2] fits
    by (auto simp: log_dispatch_def OnLogForward_def Let_def bs_def)
qed

subsection \<open>Witnesses\<close>

definition sample_node :: "(nat \<Rightarrow> 'w write_callback option) \<Rightarrow> 'w \<Rightarrow> 'w node" where
  "sample_node wr w =
     \<lparr>node_transport = \<lambda>t. FrameTransport (wr t), node_tx = initial_transmit_state, transmitMutex = 0, node_world = w\<rparr>"

lemma sample_node_simps [simp]:
  "node_transport (sample_node wr w) t = FrameTransport (wr t)"
  "node_tx (sample_node wr w) = initial_transmit_state"
  "transmitMutex (sample_node wr w) = 0"
  "node_world (sample_node wr w) = w"
  "ft_write (FrameTransport cb) = cb"
  "ft_next_sequence (FrameTransport cb) = 1"
  by (simp_all add: sample_node_def FrameTransport_def)

text \<open>A codec that finishes the one error line the transport of the sample writes.\<close>

definition sample_line :: log_envelope where
  "sample_line = Message_LogForward (Some
     \<lparr>log_level = Log_Endpoint.Error, log_tag = Some ''FrameTransport'', log_message = Some ''lost''\<rparr>)"

definition sample_codec :: "log_envelope codec" where
  "sample_codec = single_codec sample_line [0, 0, 0, 0, 76, 79, 71, 88]"

lemma sample_buffer:
  "BuildLogForwardMessage sample_codec Log_Endpoint.Error (Some ''FrameTransport'') (Some ''lost'')
     = Some [0, 0, 0, 0, 76, 79, 71, 88]"
  by (simp add: BuildLogForwardMessage_def c_str_def sample_codec_def flip: sample_line_def)

theorem transport_log_lines_witness:
  "map_option (snd \<circ> node_world \<circ> snd)
     (logged_Send 2 (with_sink record_line) False 0 (Some [7]) 1 (recording (sample_node (\<lambda>_. None) ()) []))
   = Some [(Logging.Error, ''FrameTransport'', ''Write callback not set'', []),
           (Logging.Error, ''FrameTransport'', ''Transmission failed for seq=%u'', [1])]"
proof -
  have "transmitMutex (sample_node (\<lambda>_. None) ()) = 0 \<or> False" and "readable (Some []) 0"
    by (simp_all add: readable_def)
  note lines = conjunct1 [OF transport_log_lines [OF this]]
  have sent: "Send (FrameTransport None) (Some [7]) 1 initial_transmit_state ()
      = Some (False, snd (NextSequence (FrameTransport None)), initial_transmit_state, ())"
    by (rule Send_refused) simp_all
  show ?thesis
    unfolding lines by (simp add: sent [simplified] send_lines_def transmit_lines_def recording_fields)
qed

theorem forwarding_sink_deadlocks_witness:
  "Send (FrameTransport (Some (\<lambda>fr n. (n < 1, n + 1)))) (Some [7]) 1 initial_transmit_state (5 :: nat) \<noteq> None \<and>
   logged_Send 2 (node_logger 2 False (forwarding_sink (\<lambda>_. False) sample_codec (\<lambda>_ _. ''lost'') 1) 9) False 0 (Some [7]) 1
     (sample_node (\<lambda>_. Some (\<lambda>fr n. (n < 1, n + 1))) (5 :: nat)) = None"
proof -
  let ?wr = "\<lambda>fr n. (n < 1, n + 1 :: nat)"
  let ?s = "sample_node (\<lambda>_. Some ?wr) (5 :: nat)" and ?sink = "forwarding_sink (\<lambda>_. False) sample_codec (\<lambda>_ _. ''lost'') 1"
  let ?fmt = "''Write callback failed for frame seq=%u total=%u''"
  have "sends_first ?sink ?fmt 1 (\<lambda>_. Some [0, 0, 0, 0, 76, 79, 71, 88])"
    using forwarding_sends_first [of "\<lambda>_. False" sample_codec "\<lambda>_ _. ''lost''" 1 ?fmt] by (simp add: sample_buffer)
  then have "\<exists>ok ft tx w. Send (node_transport ?s 0) (Some [7]) 1 (node_tx ?s) (node_world ?s) = Some (ok, ft, tx, w) \<and>
     (\<forall>d. logged_Send 2 (node_logger 2 False ?sink d) False 0 (Some [7]) 1 ?s =
       (if ok then Some (True, ?s\<lparr>node_transport := (node_transport ?s)(0 := ft), node_tx := tx, node_world := w\<rparr>) else None))"
    by (intro forwarding_sink_deadlocks [where msg = "\<lambda>_. Some [0, 0, 0, 0, 76, 79, 71, 88]"])
       (simp_all add: size_consts transmit_ok_initial payload_ok_def)
  moreover have "Send (FrameTransport (Some ?wr)) (Some [7]) 1 initial_transmit_state (5 :: nat)
      = Some (False, snd (NextSequence (FrameTransport (Some ?wr))), store_frame initial_transmit_state (data_frame 1 [7]), 6)"
    using Send_ok [of "FrameTransport (Some ?wr)" ?wr 1 "Some [7]" initial_transmit_state 5]
    by (simp add: size_consts transmit_ok_initial payload_ok_def payload_bytes_def)
  ultimately show ?thesis by auto
qed

theorem forwarding_over_broken_link_witness:
  "logged_Send 3 (node_logger 3 True (forwarding_sink (\<lambda>_. False) sample_codec (\<lambda>_ _. ''lost'') 1) 9) True 0 None 1
     (sample_node (\<lambda>_. None) ()) = None"
proof -
  let ?sink = "forwarding_sink (\<lambda>_. False) sample_codec (\<lambda>_ _. ''lost'') 1"
  show ?thesis
  proof (rule forwarding_over_broken_link [where j = 1])
    show "\<exists>msg. sends_first ?sink fmt 1 msg" for fmt using forwarding_sends_first [of "\<lambda>_. False"] by fast
    show "broken 1 (sample_node (\<lambda>_. None) ())" by (simp add: broken_def)
  qed (simp_all add: Send_null)
qed

theorem filtered_forwarding_arrives_witness:
  "\<exists>codec s'. log_macro Logging.Warning 2
       (node_logger 2 False (forwarding_sink (\<lambda>tag. tag = ''FrameTransport'') codec (\<lambda>_ _. ''low'') 0) 2) ''OTA'' ''low'' []
       (Some (sample_node (\<lambda>_. Some (\<lambda>fr sent. (True, sent @ [fr]))) [])) = Some s' \<and>
     length (node_world s') = 1 \<and>
     LogEndpoint_HandleIncoming codec 32 (OnLogForward (Some (#)) (LogEndpoint None))
       (Some (hd (node_world s'))) (length (hd (node_world s'))) []
     = Some (True, [\<lparr>log_level = Log_Endpoint.Warning, log_tag = Some ''OTA'', log_message = Some ''low''\<rparr>])"
proof -
  let ?m = "\<lparr>log_level = Log_Endpoint.Warning, log_tag = Some ''OTA'', log_message = Some ''low''\<rparr>"
  let ?wr = "\<lambda>fr sent. (True, sent @ [fr])"
  define codec where "codec = single_codec (Message_LogForward (Some ?m)) [0, 0, 0, 0, 76, 79, 71, 88]"
  have ok: "codec_ok codec log_exact" unfolding codec_def by (rule single_codec_ok) simp
  let ?s = "sample_node (\<lambda>_. Some ?wr) ([] :: u8 list list)"
  have c: "c_str ''OTA'' = ''OTA''" "c_str ''low'' = ''low''" by (simp_all add: c_str_def)
  have fits: "buffer_size (BuildLogForwardMessage codec (schema_level Logging.Warning) (Some ''OTA'') (Some ''low'')) \<le> kMaxFrameSize"
    by (simp add: codec_def BuildLogForwardMessage_def c buffer_size_def size_consts)
  have "\<exists>bs s'. BuildLogForwardMessage codec (schema_level Logging.Warning) (Some ''OTA'') (Some ''low'') = Some bs \<and>
     (let fr = data_frame (ft_next_sequence (node_transport ?s 0)) bs in
      log_macro Logging.Warning 2
        (node_logger 2 False (forwarding_sink (\<lambda>tag. tag = ''FrameTransport'') codec (\<lambda>_ _. ''low'') 0) (Suc (Suc 0)))
        ''OTA'' ''low'' [] (Some ?s) = Some s' \<and>
      node_world s' = snd (?wr fr (node_world ?s)) \<and> transmitMutex s' = transmitMutex ?s \<and> transmit_ok (node_tx s') \<and>
      LogEndpoint_HandleIncoming codec 32 (OnLogForward (Some (#)) (LogEndpoint None)) (Some fr) (length fr) []
        = Some (True, \<lparr>log_level = schema_level Logging.Warning, log_tag = Some (c_str ''OTA''),
            log_message = Some (c_str ''low'')\<rparr> # []))"
    by (rule filtered_forwarding_arrives [OF ok]) (use fits in \<open>simp_all add: transmit_ok_initial\<close>)
  then obtain s' bs where line: "log_macro Logging.Warning 2
        (node_logger 2 False (forwarding_sink (\<lambda>tag. tag = ''FrameTransport'') codec (\<lambda>_ _. ''low'') 0) (Suc (Suc 0)))
        ''OTA'' ''low'' [] (Some ?s) = Some s'"
    and world: "node_world s' = [data_frame 1 bs]"
    and handled: "LogEndpoint_HandleIncoming codec 32 (OnLogForward (Some (#)) (LogEndpoint None))
        (Some (data_frame 1 bs)) (length (data_frame 1 bs)) [] = Some (True, [?m])"
    by (auto simp: Let_def c)
  have two: "(2 :: nat) = Suc (Suc 0)" by simp
  show ?thesis
    by (intro exI [of _ codec] exI [of _ s'] conjI) (use line handled in \<open>simp_all only: two world list.sel length_Cons list.size One_nat_def\<close>)
qed

end
