(* ===== verification/Spec2Isabelle.thy ===== *)
theory Spec2Isabelle
  imports Logging Crc32 Frame_Transport Stream_Processor Ota_Manager Midi_Endpoint Pwm_Endpoint
    Ota_Endpoint Log_Endpoint Receiver Ota_Update Concurrent_Send Dbus_Transport Dbus_Sender Dbus_Receiver
    Example_Logger Stream_Reentrancy Ota_Reentrancy Dbus_Link Log_Output
begin

text \<open>
  A model of libcomm, the communication library of MIDI2PWM v2: C++ that runs on microcontrollers
  (32-bit) and hosts (64-bit), frames messages over byte links and drives firmware updates. Every
  definition follows a function or type of the repository; names are the source's where they can be.

  \<^bold>\<open>The parts and how they work together.\<close> A message is built as a FlatBuffer by an endpoint
  (MIDI, PWM, OTA, log) and sent by the endpoint's \<open>FrameTransport\<close>, which puts header, sequence
  number and CRC-32 around it and calls a write callback. On the way back a \<open>StreamProcessor\<close> cuts
  the byte stream into frames and gives payloads to a callback, or a link that keeps frames apart
  calls an endpoint's \<open>HandleIncoming\<close>; the endpoint checks the FlatBuffer and calls the handler of
  the message's kind. OTA messages drive an \<open>OtaManager\<close>, which drives a flash writer and reports
  progress. The example programs send and receive over D-Bus.

  \<^bold>\<open>Theories and sources\<close> (paths in the repository).
  \<^item> \<open>Prelude\<close>: words \<open>u8\<close> to \<open>u64\<close>, C memory (\<open>read_at\<close>, \<open>write_at\<close>), little-endian fields, runs of
    operations that keep an invariant (a locale).
  \<^item> \<open>Crc32\<close>: \<open>ComputeCrc32\<close> and its table in src/frame_transport.cpp; equal to the bit-serial
    definition, linear, and so able to find every error burst of up to 32 bits.
  \<^item> \<open>Framing\<close>: the contract between a frame format and a consumer of a stream of frames, a locale,
    interpreted on the frame transport's format.
  \<^item> \<open>Frame_Transport\<close>: src/frame_transport.cpp. State: \<open>frame_transport\<close> (the members) and
    \<open>transmit_state\<close> (the function-static double buffer). Operations: \<open>Send\<close>, \<open>BuildFrame\<close>,
    \<open>NextSequence\<close>, \<open>HandleIncoming\<close>. Lemmas: frames in closed form (\<open>data_frame\<close>), exact acceptance,
    round trip, memory safety at any width of \<open>size_t\<close>, sequence numbers.
  \<^item> \<open>Concurrent_Send\<close>: threads inside \<open>Send\<close>, advancing statement by statement under the two mutexes.
    It justifies treating \<open>TransmitFrame\<close> and \<open>NextSequence\<close> as atomic everywhere else.
  \<^item> \<open>Stream_Processor\<close>: src/stream_processor.cpp. State: the whole buffer array and the size in use.
    The operations refine a scanner on byte lists (\<open>scan\<close>), from which reassembly, recovery,
    overflow and termination follow; pass by pass, the loop touches no memory outside the buffer.
  \<^item> \<open>Stream_Reentrancy\<close>: the same operations with callbacks that may use the processor they are
    called from. They are those of \<open>Stream_Processor\<close> if the callbacks leave it alone; what \<open>reset\<close> and
    \<open>feed\<close> inside a callback do otherwise.
  \<^item> \<open>Ota_Messages\<close>, \<open>Ota_Manager\<close>: src/ota_manager.cpp with an arbitrary \<open>IFlashWriter\<close>. Runs refine a
    session automaton over commands, writer calls and reports.
  \<^item> \<open>Ota_Reentrancy\<close>: the handlers with a progress callback that gives the manager commands, to a
    bounded depth. Commands given on \<open>Receiving\<close> amount to commands given one after the other; an
    abort given on \<open>Verifying\<close> and a new begin given on \<open>Error\<close> are lost.
  \<^item> \<open>Endpoint\<close>: what the endpoints share and their contract, a locale, interpreted in
    \<open>Midi_Endpoint\<close>, \<open>Pwm_Endpoint\<close>, \<open>Ota_Endpoint\<close> and \<open>Log_Endpoint\<close> (src/midi_endpoint.cpp and so on,
    with the tables of schemas/ as records and datatypes). Lemmas: messages arrive at their
    handler with what the builder was given.
  \<^item> \<open>Ota_Update\<close>: stream processor, OTA endpoint and OTA manager together.
  \<^item> \<open>Logging\<close> (src/logging.cpp, include/libcomm/logging.h) and \<open>Example_Logger\<close>
    (examples/common/example_logger.cpp).
  \<^item> \<open>Log_Output\<close>: the operations of src/frame_transport.cpp with their log statements in place, the
    static mutex they log under, and a log sink that may itself send. The lines of every branch; a
    sink that answers the transport's own error lines blocks or recurses for ever, one that passes over
    them forwards every other line to the log endpoint of the other side.
  \<^item> \<open>Dbus_Transport\<close> (examples/dbus_transport), with a libdbus that counts references around any
    given one; \<open>Dbus_Sender\<close> (examples/dbus_sender/main.cpp), \<open>Receiver\<close> and \<open>Dbus_Receiver\<close>
    (examples/dbus_receiver/main.cpp: the handler that serves two endpoints; the rest, which runs
    until a signal, and what it prints). \<open>Dbus_Link\<close>: client and server over a bus, and the sender
    against a server started as the receiver starts it.

  \<^bold>\<open>Conventions.\<close> State is passed and returned; callbacks and devices act on a world \<open>'w\<close>. A pointer
  argument is the list of bytes readable from it, or \<open>None\<close>. A result \<open>None\<close> is an access outside
  memory or, for the loops that need not end, that the loop does not return: \<open>extract_loop\<close>,
  \<open>live_loop\<close>, \<open>drain\<close> and \<open>run_loop\<close> are partial functions. For the stream processor \<open>feed_upto\<close>, the state
  after so many passes of the loop, tells the two apart. The bounds are the depths to which progress
  callbacks may nest in \<open>Ota_Reentrancy\<close>, feeding callbacks in \<open>Stream_Reentrancy\<close> and log sinks in
  \<open>Log_Output\<close>: no result if the bound does not
  suffice, and the properties there hold for every depth that does; what never returns has no
  result at any depth, and a greater depth changes no result (\<open>deeper_Send\<close>). \<open>szw\<close> is the width of
  \<open>size_t\<close> in bits, at least 32: at 32 bits the frame size computed from a received header can wrap,
  which \<open>extractFrames_hangs_32\<close> makes precise.

  \<^bold>\<open>Parameters.\<close> FlatBuffers and the headers it generates are the record \<open>codec\<close>, libdbus is the
  record \<open>libdbus\<close>, and clocks, terminal and \<open>vfprintf\<close> are \<open>posix\<close> and \<open>stdio\<close>: none of them is in
  the repository. ETL's delegates are optional functions, and what
  its mutex does when its holder locks it again is \<open>relock\<close>. What \<open>Dbus_Link\<close> takes from libdbus and its daemon
  (a reply carries the boolean appended to it; a call that returns a reply was dispatched by the server,
  again after each \<open>DBUS_HANDLER_RESULT_NEED_MEMORY\<close>) is its predicate \<open>bus_link\<close>; that the server has the
  memory to reply, and that nothing fails on the bus, are the separate hypotheses \<open>server_memory\<close> and
  \<open>bus_reliable\<close>. A bus that runs the server within the call fulfils them all.

  \<^bold>\<open>Not modelled.\<close> Big-endian machines (\<open>EndianScalar\<close> is the identity). Log output of the
  other components, none of which logs under a lock; write callbacks that log or send.
  A callback that replaces the callbacks of the object that called it, or a flash writer that gives
  commands to its manager. What the examples use and the headers do not have (the
  registration of \<open>PrintChannelTelemetry\<close>, a second constructor argument). Two threads on one stream processor or
  manager, which the code does not protect. The tests.
\<close>

section \<open>Memory safety of the endpoints\<close>

text \<open>
  C38. The file identifier is looked for before the size is: \<open>HandleFrame\<close> of every endpoint,
  called with one to four readable bytes, reads past them (it is told the size, but compares the
  bytes from the fifth on first). A frame is safe to receive, with any content, once the memory
  it is in has at least 16 bytes, as every frame with a payload of four bytes or more does.
\<close>

theorem endpoints_identifier_overread:
  assumes "identifier_reads mc" and "identifier_reads pc" and "identifier_reads oc" and "identifier_reads lc"
    and "mem1 \<noteq> []" and "length mem1 \<le> 4"
    and "16 \<le> length mem" and "n \<le> length mem" and "32 \<le> szw" and "n < 2 ^ szw"
  shows "MidiEndpoint_HandleFrame mc mep (Some mem1) (length mem1) w = None \<and>
     PwmEndpoint_HandleFrame pc pep (Some mem1) (length mem1) w = None \<and>
     OtaEndpoint_HandleFrame oc oep (Some mem1) (length mem1) w = None \<and>
     LogEndpoint_HandleFrame lc lep (Some mem1) (length mem1) w = None \<and>
     MidiEndpoint_HandleIncoming mc szw mep (Some mem) n w \<noteq> None \<and>
     PwmEndpoint_HandleIncoming pc szw pep (Some mem) n w \<noteq> None \<and>
     OtaEndpoint_HandleIncoming oc szw oep (Some mem) n w \<noteq> None \<and>
     LogEndpoint_HandleIncoming lc szw lep (Some mem) n w \<noteq> None"
proof -
  have "0 < length mem1" using assms(5) by simp
  note over = midi.handle_overread [OF assms(1,6) this] pwm.handle_overread [OF assms(2,6) this]
    ota.handle_overread [OF assms(3,6) this] log.handle_overread [OF assms(4,6) this]
  note safe = midi.incoming_safe [OF assms(1,7-10)] pwm.incoming_safe [OF assms(2,7-10)]
    ota.incoming_safe [OF assms(3,7-10)] log.incoming_safe [OF assms(4,7-10)]
  show ?thesis by (intro conjI over safe)
qed

theorem endpoints_identifier_overread_witness:
  "MidiEndpoint_HandleFrame (single_codec Packet_NONE [0, 0, 0, 0, 77, 50, 80, 87]) (MidiEndpoint None)
     (Some [1, 2, 3]) (length [1, 2, 3 :: u8]) () = None"
  by (rule endpoints_identifier_overread [OF single_codec_reads single_codec_reads single_codec_reads single_codec_reads,
      where mem = "replicate 16 0" and n = 16 and szw = 32, THEN conjunct1]) simp_all

end
